(* ===== verification/Prelude.thy ===== *)
theory Prelude
  imports Complex_Main "HOL-Library.Word" "HOL-Library.Monad_Syntax"
begin

text \<open>
  What every component theory shares: names for the machine types of the Rust code, a result
  type, sequencing of fallible and of state-changing fallible steps, the SQL statements the store
  issues as operations on lists of rows, and generic facts about lists and association lists.

  A Rust \<^verbatim>\<open>String\<close> is a sequence of UTF-8 bytes and \<open>char\<close> is a byte, so \<open>length\<close> on \<open>string\<close> is
  \<^verbatim>\<open>String::len\<close>. Unsigned counters are carried as \<open>nat\<close> and signed ones as \<open>int\<close>; the width is
  written out where the code can reach it (casts, wire decoding, sequence numbers).
\<close>

named_theorems codec_simps \<open>decoders applied to what the matching encoder produced\<close>
named_theorems sql_simps \<open>how the statements act on tables\<close>
named_theorems frame_simps \<open>tables an operation does not write\<close>

subsection \<open>Machine types\<close>

text \<open>
  A finite \<^verbatim>\<open>f64\<close> is a rational. Arithmetic on it is exact here; the code only derives display
  values with it (micros divided by one million), never an authoritative amount.
\<close>

type_synonym f64 = rat

definition u8_max :: int where "u8_max = 255"
definition u32_max :: int where "u32_max = 4294967295"
definition u64_max :: int where "u64_max = 18446744073709551615"
definition i64_max :: int where "i64_max = 9223372036854775807"
definition i64_min :: int where "i64_min = - 9223372036854775808"

definition in_i64 :: "int \<Rightarrow> bool" where
  "in_i64 i \<longleftrightarrow> i64_min \<le> i \<and> i \<le> i64_max"

definition in_u32 :: "nat \<Rightarrow> bool" where "in_u32 n \<longleftrightarrow> int n \<le> u32_max"
definition in_u64 :: "nat \<Rightarrow> bool" where "in_u64 n \<longleftrightarrow> int n \<le> u64_max"

text \<open>The cast \<^verbatim>\<open>as u32\<close> keeps the low 32 bits.\<close>

definition cast_u32 :: "nat \<Rightarrow> nat" where
  "cast_u32 n = nat (int n mod (u32_max + 1))"

text \<open>The cast \<^verbatim>\<open>as i64\<close> from a wider integer keeps the low 64 bits.\<close>

definition wrap_i64 :: "int \<Rightarrow> int" where
  "wrap_i64 i = (i + 2 ^ 63) mod 2 ^ 64 - 2 ^ 63"

lemma wrap_i64_id: "in_i64 i \<Longrightarrow> wrap_i64 i = i"
  by (simp add: wrap_i64_def in_i64_def i64_min_def i64_max_def)

lemma wrap_i64_range: "in_i64 (wrap_i64 i)"
proof -
  have "0 \<le> (i + 2 ^ 63) mod 2 ^ 64" and "(i + 2 ^ 63) mod 2 ^ 64 < (2 ^ 64 :: int)"
    by simp_all
  then show ?thesis
    by (simp add: wrap_i64_def in_i64_def i64_min_def i64_max_def)
qed

text \<open>Rust's integer division truncates towards zero.\<close>

definition rust_div :: "int \<Rightarrow> int \<Rightarrow> int" where
  "rust_div a b =
     (let q = \<bar>a\<bar> div \<bar>b\<bar> in if (0 \<le> a) = (0 \<le> b) then q else - q)"

lemma rust_div_nonneg: "0 \<le> a \<Longrightarrow> 0 < b \<Longrightarrow> rust_div a b = a div b"
  by (simp add: rust_div_def)

subsection \<open>Fallible steps and state\<close>

text \<open>
  A fallible computation returns \<open>Inl\<close> of the error or \<open>Inr\<close> of the value. A fallible step over a
  state returns both the outcome and the state it leaves behind: an early return with an error
  keeps what was already changed.
\<close>

definition bind_res :: "'e + 'a \<Rightarrow> ('a \<Rightarrow> 'e + 'b) \<Rightarrow> 'e + 'b" where
  "bind_res r f = (case r of Inl e \<Rightarrow> Inl e | Inr x \<Rightarrow> f x)"

definition try_st :: "('e + 'a) \<times> 's \<Rightarrow> ('a \<Rightarrow> 's \<Rightarrow> ('e + 'b) \<times> 's) \<Rightarrow> ('e + 'b) \<times> 's" where
  "try_st r f = (case r of (Inl e, s) \<Rightarrow> (Inl e, s) | (Inr x, s) \<Rightarrow> f x s)"

lemma try_st_simps [simp]:
  "try_st (Inl e, s) f = (Inl e, s)"
  "try_st (Inr x, s) f = f x s"
  by (simp_all add: try_st_def)

lemma try_st_Inr_iff:
  "try_st r f = (Inr y, t) \<longleftrightarrow> (\<exists>x s. r = (Inr x, s) \<and> f x s = (Inr y, t))"
  by (cases r; cases "fst r") (auto simp: try_st_def)

lemma bind_res_simps [simp]:
  "bind_res (Inl e) f = Inl e"
  "bind_res (Inr x) f = f x"
  by (simp_all add: bind_res_def)

lemma bind_res_Inr_iff: "bind_res r f = Inr y \<longleftrightarrow> (\<exists>x. r = Inr x \<and> f x = Inr y)"
  by (cases r) auto

text \<open>\<^verbatim>\<open>for x in xs { step(x)?; }\<close>: stop at the first error.\<close>

fun iter_res :: "('a \<Rightarrow> 's \<Rightarrow> 'e + 's) \<Rightarrow> 'a list \<Rightarrow> 's \<Rightarrow> 'e + 's" where
  "iter_res f [] s = Inr s"
| "iter_res f (x # xs) s = bind_res (f x s) (iter_res f xs)"

lemma iter_res_append: "iter_res f (xs @ ys) s = bind_res (iter_res f xs s) (iter_res f ys)"
  by (induction xs arbitrary: s) (auto simp: bind_res_def split: sum.splits)

lemma iter_res_inv:
  assumes "iter_res f xs s = Inr t" and "P s"
    and "\<And>x s t. x \<in> set xs \<Longrightarrow> P s \<Longrightarrow> f x s = Inr t \<Longrightarrow> P t"
  shows "P t"
  using assms
proof (induction xs arbitrary: s)
  case Nil
  then show ?case by simp
next
  case (Cons x xs)
  from Cons.prems(1) obtain u where u: "f x s = Inr u" "iter_res f xs u = Inr t"
    by (auto simp: bind_res_Inr_iff)
  from Cons.prems(2,3) u(1) have "P u" by (meson list.set_intros(1))
  with Cons.IH u(2) Cons.prems(3) show ?case by (meson list.set_intros(2))
qed

text \<open>Decoding every element of a list, failing when one fails (serde's \<^verbatim>\<open>Vec\<close>).\<close>

fun map_opt :: "('a \<Rightarrow> 'b option) \<Rightarrow> 'a list \<Rightarrow> 'b list option" where
  "map_opt f [] = Some []"
| "map_opt f (x # xs) =
     (case f x of
        None \<Rightarrow> None
      | Some y \<Rightarrow> (case map_opt f xs of None \<Rightarrow> None | Some ys \<Rightarrow> Some (y # ys)))"

lemma map_opt_cong [fundef_cong]:
  "xs = ys \<Longrightarrow> (\<And>x. x \<in> set ys \<Longrightarrow> f x = g x) \<Longrightarrow> map_opt f xs = map_opt g ys"
proof (induction xs arbitrary: ys)
  case Nil
  then show ?case by auto
next
  case (Cons x xs)
  then show ?case by (auto split: option.splits)
qed

lemma map_opt_map [codec_simps]:
  "(\<And>x. x \<in> set xs \<Longrightarrow> f (g x) = Some x) \<Longrightarrow> map_opt f (map g xs) = Some xs"
  by (induction xs) auto

subsection \<open>Lists\<close>

lemma filter_filter_conj: "filter P (filter Q xs) = filter (\<lambda>x. Q x \<and> P x) xs"
  by (simp add: conj_commute)

lemma sort_key_sorted_id: "sorted (map k xs) \<Longrightarrow> sort_key k xs = xs"
  by (simp add: sort_key_id_if_sorted)

lemma sorted_map_filter: "sorted (map k xs) \<Longrightarrow> sorted (map k (filter P xs))"
  by (induction xs) (auto simp: sorted_wrt_append)

lemma distinct_map_filter': "distinct (map k xs) \<Longrightarrow> distinct (map k (filter P xs))"
  by (induction xs) auto

lemma find_SomeD': "find P xs = Some x \<Longrightarrow> x \<in> set xs \<and> P x"
  by (induction xs) (auto split: if_splits)

subsection \<open>The SQL statements of the store, on lists of rows\<close>

text \<open>
  A table is the list of its rows in the order they were written. \<open>sql_insert\<close> is
  \<^verbatim>\<open>INSERT\<close> into a table with the primary key \<open>k\<close>, which fails when the key is present;
  \<open>sql_replace\<close> is \<^verbatim>\<open>INSERT OR REPLACE\<close>; \<open>sql_delete\<close> and \<open>sql_update\<close> act on the rows that satisfy
  the \<^verbatim>\<open>WHERE\<close> clause; \<open>sql_select\<close> reads them in row order.
\<close>

definition sql_insert :: "('r \<Rightarrow> 'k) \<Rightarrow> 'r \<Rightarrow> 'r list \<Rightarrow> 'r list option" where
  "sql_insert k r t = (if k r \<in> set (map k t) then None else Some (t @ [r]))"

definition sql_replace :: "('r \<Rightarrow> 'k) \<Rightarrow> 'r \<Rightarrow> 'r list \<Rightarrow> 'r list" where
  "sql_replace k r t = filter (\<lambda>x. k x \<noteq> k r) t @ [r]"

definition sql_delete :: "('r \<Rightarrow> bool) \<Rightarrow> 'r list \<Rightarrow> 'r list" where
  "sql_delete P t = filter (\<lambda>x. \<not> P x) t"

definition sql_update :: "('r \<Rightarrow> bool) \<Rightarrow> ('r \<Rightarrow> 'r) \<Rightarrow> 'r list \<Rightarrow> 'r list" where
  "sql_update P f t = map (\<lambda>x. if P x then f x else x) t"

definition sql_select :: "('r \<Rightarrow> bool) \<Rightarrow> 'r list \<Rightarrow> 'r list" where
  "sql_select P t = filter P t"

definition sql_first :: "('r \<Rightarrow> bool) \<Rightarrow> 'r list \<Rightarrow> 'r option" where
  "sql_first P t = find P t"

text \<open>\<^verbatim>\<open>ORDER BY k DESC LIMIT 1\<close>.\<close>

definition sql_last_by :: "('r \<Rightarrow> nat) \<Rightarrow> 'r list \<Rightarrow> 'r option" where
  "sql_last_by k t = (case rev (sort_key k t) of [] \<Rightarrow> None | r # _ \<Rightarrow> Some r)"

lemma sql_insert_SomeD:
  "sql_insert k r t = Some t' \<Longrightarrow> t' = t @ [r] \<and> k r \<notin> k ` set t"
  by (auto simp: sql_insert_def split: if_splits)

lemma sql_replace_new: "k r \<notin> k ` set t \<Longrightarrow> sql_replace k r t = t @ [r]"
  by (auto simp: sql_replace_def image_iff intro!: filter_True)

lemma sql_first_None: "sql_first P t = None \<longleftrightarrow> (\<forall>r \<in> set t. \<not> P r)"
  by (auto simp: sql_first_def find_None_iff)

lemma sql_first_SomeD: "sql_first P t = Some r \<Longrightarrow> r \<in> set t \<and> P r"
  unfolding sql_first_def by (induction t) (auto split: if_splits)

text \<open>A primary key: no two rows carry the same one. Every statement keeps it.\<close>

locale keyed_table =
  fixes key :: "'r \<Rightarrow> 'k"
begin

lemma key_insert:
  "sql_insert key r t = Some t' \<Longrightarrow> distinct (map key t) \<Longrightarrow> distinct (map key t')"
  by (auto dest!: sql_insert_SomeD)

lemma key_replace:
  "distinct (map key t) \<Longrightarrow> distinct (map key (sql_replace key r t))"
  by (auto simp: sql_replace_def distinct_map_filter')

lemma key_delete:
  "distinct (map key t) \<Longrightarrow> distinct (map key (sql_delete P t))"
  by (simp add: sql_delete_def distinct_map_filter')

lemma key_update:
  "(\<And>x. P x \<Longrightarrow> key (f x) = key x) \<Longrightarrow> map key (sql_update P f t) = map key t"
  by (simp add: sql_update_def)

lemma first_unique:
  assumes "distinct (map key t)" and "r \<in> set t"
  shows "sql_first (\<lambda>x. key x = key r) t = Some r"
  using assms by (induction t) (auto simp: sql_first_def)

lemma replace_first:
  "sql_first (\<lambda>x. key x = key r) (sql_replace key r t) = Some r"
  by (induction t) (auto simp: sql_first_def sql_replace_def)

lemma replace_other:
  "v \<noteq> key r \<Longrightarrow> sql_first (\<lambda>x. key x = v) (sql_replace key r t) = sql_first (\<lambda>x. key x = v) t"
  by (induction t) (auto simp: sql_first_def sql_replace_def)

lemma first_replace:
  "sql_first (\<lambda>x. key x = v) (sql_replace key r t) =
     (if v = key r then Some r else sql_first (\<lambda>x. key x = v) t)"
  using replace_first [of r t] replace_other [of v r t] by simp

lemma first_insert:
  assumes "sql_insert key r t = Some t'"
  shows "sql_first (\<lambda>x. key x = v) t' = (if v = key r then Some r else sql_first (\<lambda>x. key x = v) t)"
proof -
  have t': "t' = t @ [r]" and new: "key r \<notin> key ` set t"
    using assms by (auto dest!: sql_insert_SomeD)
  have "find (\<lambda>x. key x = v) (u @ [r]) =
      (case find (\<lambda>x. key x = v) u of Some x \<Rightarrow> Some x | None \<Rightarrow> if key r = v then Some r else None)" for u
    by (induction u) auto
  moreover have "find (\<lambda>x. key x = key r) t = None"
    using new by (auto simp: find_None_iff image_iff)
  ultimately show ?thesis
    using t' by (cases "v = key r"; cases "find (\<lambda>x. key x = v) t") (auto simp: sql_first_def)
qed

lemma delete_first:
  "sql_first (\<lambda>x. key x = v) (sql_delete (\<lambda>x. key x = v) t) = None"
  by (simp add: sql_first_None sql_delete_def)

end

end
