(* ===== verification/Json.thy ===== *)
theory Json
  imports Prelude
begin

text \<open>
  The data model of \<^verbatim>\<open>serde_json::Value\<close>, and the decoders the derived \<^verbatim>\<open>Deserialize\<close> instances are
  made of. A column that holds JSON text is modelled by the value the text denotes: printing and
  reparsing is the library's and is not modelled, while which fields are written, under which
  names, and what a decoder accepts is fixed by the attributes in the code and is modelled.
  Objects are association lists; every reader goes through \<open>map_of\<close>, so key order is irrelevant.
\<close>

datatype json =
    JNull
  | JBool bool
  | JInt int
  | JFloat f64
  | JStr string
  | JArr "json list"
  | JObj "(string \<times> json) list"

definition is_object :: "json \<Rightarrow> bool" where
  "is_object j = (case j of JObj _ \<Rightarrow> True | _ \<Rightarrow> False)"

definition obj_get :: "string \<Rightarrow> json \<Rightarrow> json option" where
  "obj_get k j = (case j of JObj kvs \<Rightarrow> map_of kvs k | _ \<Rightarrow> None)"

lemma obj_get_JObj [codec_simps]: "obj_get k (JObj kvs) = map_of kvs k"
  by (simp add: obj_get_def)

text \<open>\<^verbatim>\<open>Map::insert\<close>: the value of a present key is replaced, a new key is added.\<close>

fun obj_insert :: "string \<Rightarrow> json \<Rightarrow> (string \<times> json) list \<Rightarrow> (string \<times> json) list" where
  "obj_insert k v [] = [(k, v)]"
| "obj_insert k v ((k', v') # kvs) =
     (if k = k' then (k, v) # kvs else (k', v') # obj_insert k v kvs)"

lemma map_of_obj_insert: "map_of (obj_insert k v kvs) = (map_of kvs)(k \<mapsto> v)"
  by (induction kvs) (auto simp: fun_eq_iff)

lemma map_of_json_size:
  "map_of kvs k = Some v \<Longrightarrow> size v < Suc (size_list (size_prod (\<lambda>_. 0) size) kvs)"
  by (induction kvs) (auto split: if_splits)

lemma json_arr_size:
  assumes "map_of kvs k = Some (JArr xs)" and "x \<in> set xs"
  shows "size x < size (JObj kvs)"
proof -
  have "size x < size (JArr xs)"
    using size_list_estimation' [OF assms(2), of "size x" size] by simp
  then show ?thesis
    using map_of_json_size [OF assms(1)] by simp
qed

subsection \<open>Scalar decoders\<close>

definition dec_str :: "json \<Rightarrow> string option" where
  "dec_str j = (case j of JStr s \<Rightarrow> Some s | _ \<Rightarrow> None)"

definition dec_bool :: "json \<Rightarrow> bool option" where
  "dec_bool j = (case j of JBool b \<Rightarrow> Some b | _ \<Rightarrow> None)"

definition dec_uint :: "int \<Rightarrow> json \<Rightarrow> nat option" where
  "dec_uint m j =
     (case j of JInt i \<Rightarrow> if 0 \<le> i \<and> i \<le> m then Some (nat i) else None | _ \<Rightarrow> None)"

definition dec_i64 :: "json \<Rightarrow> int option" where
  "dec_i64 j = (case j of JInt i \<Rightarrow> if in_i64 i then Some i else None | _ \<Rightarrow> None)"

definition dec_f64 :: "json \<Rightarrow> f64 option" where
  "dec_f64 j = (case j of JFloat r \<Rightarrow> Some r | JInt i \<Rightarrow> Some (of_int i) | _ \<Rightarrow> None)"

definition dec_list :: "(json \<Rightarrow> 'a option) \<Rightarrow> json \<Rightarrow> 'a list option" where
  "dec_list f j = (case j of JArr xs \<Rightarrow> map_opt f xs | _ \<Rightarrow> None)"

text \<open>\<^verbatim>\<open>Option<T>\<close>: null is \<^verbatim>\<open>None\<close>.\<close>

definition dec_opt :: "(json \<Rightarrow> 'a option) \<Rightarrow> json \<Rightarrow> 'a option option" where
  "dec_opt f j = (case j of JNull \<Rightarrow> Some None | _ \<Rightarrow> map_option Some (f j))"

text \<open>A unit-only enum is the string of its variant.\<close>

definition dec_enum :: "('a \<Rightarrow> string) \<Rightarrow> 'a list \<Rightarrow> json \<Rightarrow> 'a option" where
  "dec_enum name vs j = (case j of JStr s \<Rightarrow> find (\<lambda>v. name v = s) vs | _ \<Rightarrow> None)"

definition enc_uint :: "nat \<Rightarrow> json" where
  "enc_uint n = JInt (int n)"

definition enc_opt :: "('a \<Rightarrow> json) \<Rightarrow> 'a option \<Rightarrow> json" where
  "enc_opt f x = (case x of None \<Rightarrow> JNull | Some y \<Rightarrow> f y)"

subsection \<open>Fields of a struct\<close>

text \<open>
  A plain field must be present; \<^verbatim>\<open>#[serde(default)]\<close> fills in a missing one; an \<^verbatim>\<open>Option\<close> field
  without a default is \<^verbatim>\<open>None\<close> when missing.
\<close>

definition fld :: "string \<Rightarrow> (json \<Rightarrow> 'a option) \<Rightarrow> json \<Rightarrow> 'a option" where
  "fld k f j = Option.bind (obj_get k j) f"

definition fld_default :: "string \<Rightarrow> (json \<Rightarrow> 'a option) \<Rightarrow> 'a \<Rightarrow> json \<Rightarrow> 'a option" where
  "fld_default k f d j = (case obj_get k j of None \<Rightarrow> Some d | Some v \<Rightarrow> f v)"

definition fld_opt :: "string \<Rightarrow> (json \<Rightarrow> 'a option) \<Rightarrow> json \<Rightarrow> 'a option option" where
  "fld_opt k f j = fld_default k (dec_opt f) None j"

lemma fld_JObj [codec_simps]:
  "fld k f (JObj kvs) = (case map_of kvs k of None \<Rightarrow> None | Some v \<Rightarrow> f v)"
  "fld_default k f d (JObj kvs) = (case map_of kvs k of None \<Rightarrow> Some d | Some v \<Rightarrow> f v)"
  "fld_opt k g (JObj kvs) = (case map_of kvs k of None \<Rightarrow> Some None | Some v \<Rightarrow> dec_opt g v)"
  by (simp_all add: fld_def fld_default_def fld_opt_def obj_get_def split: option.split)

lemma dec_scalar [codec_simps]:
  "dec_str (JStr s) = Some s"
  "dec_bool (JBool b) = Some b"
  "int n \<le> m \<Longrightarrow> dec_uint m (enc_uint n) = Some n"
  "in_i64 i \<Longrightarrow> dec_i64 (JInt i) = Some i"
  "dec_f64 (JFloat r) = Some r"
  "dec_list f (JArr xs) = map_opt f xs"
  by (simp_all add: dec_str_def dec_bool_def dec_uint_def enc_uint_def dec_i64_def dec_f64_def
      dec_list_def)

lemma dec_uint_width [codec_simps]:
  "in_u32 n \<Longrightarrow> dec_uint u32_max (enc_uint n) = Some n"
  "in_u64 n \<Longrightarrow> dec_uint u64_max (enc_uint n) = Some n"
  by (simp_all add: dec_scalar in_u32_def in_u64_def)

lemma dec_opt_enc [codec_simps]:
  "(\<And>y. x = Some y \<Longrightarrow> f (g y) = Some y \<and> g y \<noteq> JNull) \<Longrightarrow> dec_opt f (enc_opt g x) = Some x"
  by (cases x) (auto simp: dec_opt_def enc_opt_def split: json.splits)

lemma enc_not_null [codec_simps]:
  "enc_uint n \<noteq> JNull"
  by (simp add: enc_uint_def)

end
