(* ===== verification/Core_Types.thy ===== *)
theory Core_Types
  imports Json
begin

text \<open>
  The vocabulary of \<^verbatim>\<open>kn9t-core\<close>: identifiers, messages and content blocks, models and prices,
  token usage, and the deterministic cost of a call (\<^verbatim>\<open>message.rs\<close>, \<^verbatim>\<open>model.rs\<close>, \<^verbatim>\<open>usage.rs\<close>,
  \<^verbatim>\<open>ids.rs\<close>, \<^verbatim>\<open>cache.rs\<close>, \<^verbatim>\<open>error.rs\<close>), with their wire form. The string newtypes are type synonyms.
\<close>

type_synonym session_id = string
type_synonym msg_id = string
type_synonym call_id = string
type_synonym approval_id = nat

subsection \<open>Messages (message.rs)\<close>

datatype role = Role_System | Role_User | Role_Assistant | Role_Tool

datatype content =
    Text string
  | Image string string
  | ToolCall call_id string string
  | ToolResult call_id "content list" bool
  | Thinking string "string option"

record message =
  msg_id :: msg_id
  msg_role :: role
  msg_content :: "content list"
  msg_silent :: bool

subsection \<open>Models, prices and usage (model.rs, usage.rs)\<close>

record model_ref =
  mr_provider :: string
  mr_id :: string

text \<open>Micros per million tokens, signed 64-bit.\<close>

record price =
  p_input :: int
  p_output :: int
  p_cache_read :: int
  p_cache_write :: int

record tokens =
  t_input :: nat
  t_output :: nat
  t_cache_read :: nat
  t_cache_write :: nat
  t_reasoning :: nat

definition tokens_default :: tokens where
  "tokens_default =
     \<lparr>t_input = 0, t_output = 0, t_cache_read = 0, t_cache_write = 0, t_reasoning = 0\<rparr>"

record usage =
  u_tokens :: tokens
  u_model :: model_ref

datatype stop_reason = Stop | ToolUse | Length | Aborted | Refusal

datatype effort = Low | Medium | High

datatype thinking = Off | Effort effort | Budget nat

definition default_thinking :: thinking where
  "default_thinking = Effort Medium"

datatype thinking_replay = Verbatim | Strip

datatype cache_mode = Explicit nat nat | Automatic | Cache_None

record model_spec =
  ms_ref :: model_ref
  ms_api_id :: string
  ms_ctx_window :: nat
  ms_max_out :: nat
  ms_thinking :: thinking
  ms_price :: price
  ms_cache :: cache_mode
  ms_streaming :: bool
  ms_quirks :: thinking_replay

text \<open>
  \<^verbatim>\<open>cost_micros\<close>: the products are taken in 128 bits, which the ranges of the operands cannot
  exceed, so the sum is exact; only the final cast can lose bits.
\<close>

definition cost_micros :: "tokens \<Rightarrow> price \<Rightarrow> int" where
  "cost_micros t p =
     wrap_i64 (rust_div
       (int (t_input t) * p_input p + int (t_output t) * p_output p
        + int (t_cache_read t) * p_cache_read p + int (t_cache_write t) * p_cache_write p)
       1000000)"

definition micros_to_usd :: "int \<Rightarrow> f64" where
  "micros_to_usd m = of_int m / 1000000"

text \<open>\<^verbatim>\<open>(d * 1_000_000.0).round() as i64\<close>: round half away from zero, saturating cast.\<close>

definition round_half_away :: "f64 \<Rightarrow> int" where
  "round_half_away d = (if 0 \<le> d then \<lfloor>d + 1/2\<rfloor> else - \<lfloor>- d + 1/2\<rfloor>)"

definition usd_to_micros :: "f64 \<Rightarrow> int" where
  "usd_to_micros d = max i64_min (min i64_max (round_half_away (d * 1000000)))"

lemma round_half_away_of_int: "round_half_away (of_int i) = i"
  by (auto simp: round_half_away_def floor_eq_iff)

lemma usd_micros_inverse: "in_i64 m \<Longrightarrow> usd_to_micros (micros_to_usd m) = m"
  by (simp add: usd_to_micros_def micros_to_usd_def round_half_away_of_int in_i64_def)

subsection \<open>Provider errors (error.rs)\<close>

datatype prov_err =
    Connect string
  | Http nat string
  | Stream string
  | ContextOverflow
  | Truncated
  | Decode string

subsection \<open>Cache breakpoints (cache.rs)\<close>

datatype cache = Cache_System | AfterMessage nat

text \<open>\<^verbatim>\<open>iter().rposition(p)\<close>: the index of the last element that satisfies the predicate.\<close>

fun rposition :: "('a \<Rightarrow> bool) \<Rightarrow> 'a list \<Rightarrow> nat option" where
  "rposition P [] = None"
| "rposition P (x # xs) =
     (case rposition P xs of Some i \<Rightarrow> Some (Suc i) | None \<Rightarrow> if P x then Some 0 else None)"

definition checked_sub :: "nat \<Rightarrow> nat \<Rightarrow> nat option" where
  "checked_sub a b = (if b \<le> a then Some (a - b) else None)"

text \<open>The loop over the candidates: skip what is already chosen, stop at the limit.\<close>

fun pick_breakpoints :: "nat \<Rightarrow> cache list \<Rightarrow> cache list \<Rightarrow> cache list" where
  "pick_breakpoints m [] out = out"
| "pick_breakpoints m (c # cs) out =
     (if c \<in> set out then pick_breakpoints m cs out
      else let out' = out @ [c]
           in if length out' = m then out' else pick_breakpoints m cs out')"

definition cache_candidates :: "message list \<Rightarrow> cache option list" where
  "cache_candidates msgs =
     [Some Cache_System,
      map_option AfterMessage (rposition (\<lambda>m. msg_role m = Role_User) msgs),
      map_option AfterMessage (checked_sub (length msgs) 2),
      map_option AfterMessage (checked_sub (length msgs) 1)]"

definition breakpoints :: "message list \<Rightarrow> cache_mode \<Rightarrow> cache list" where
  "breakpoints msgs mode =
     (case mode of
        Explicit m _ \<Rightarrow> pick_breakpoints m (List.map_filter id (cache_candidates msgs)) []
      | Automatic \<Rightarrow> pick_breakpoints 4 (List.map_filter id (cache_candidates msgs)) []
      | Cache_None \<Rightarrow> [])"

lemma rposition_Some:
  "rposition P xs = Some i \<Longrightarrow>
     i < length xs \<and> P (xs ! i) \<and> (\<forall>j. i < j \<and> j < length xs \<longrightarrow> \<not> P (xs ! j))"
proof (induction xs arbitrary: i)
  case Nil
  then show ?case by simp
next
  case (Cons x xs)
  show ?case
  proof (cases "rposition P xs")
    case None
    then have "\<forall>y \<in> set xs. \<not> P y"
      by (induction xs) (auto split: option.splits if_splits)
    with Cons.prems None show ?thesis
      by (auto simp: nth_Cons split: if_splits nat.splits)
  next
    case (Some k)
    with Cons.prems have "i = Suc k" by simp
    with Cons.IH [OF Some] show ?thesis
      by (auto simp: nth_Cons split: nat.splits)
  qed
qed

lemma pick_breakpoints_props:
  assumes "length out < m" and "distinct out"
  shows "length (pick_breakpoints m cs out) \<le> m \<and> distinct (pick_breakpoints m cs out) \<and>
         set (pick_breakpoints m cs out) \<subseteq> set out \<union> set cs"
  using assms
proof (induction m cs out rule: pick_breakpoints.induct)
  case (1 m out)
  then show ?case by simp
next
  case (2 m c cs out)
  show ?case
  proof (cases "c \<in> set out")
    case True
    with 2 show ?thesis by auto
  next
    case False
    show ?thesis
    proof (cases "length (out @ [c]) = m")
      case True
      with False 2 show ?thesis by (auto simp: Let_def)
    next
      case neq: False
      with False 2 show ?thesis by (auto simp: Let_def)
    qed
  qed
qed

lemma pick_breakpoints_prefix: "\<exists>ys. pick_breakpoints m cs out = out @ ys"
  by (induction m cs out rule: pick_breakpoints.induct) (auto simp: Let_def)

lemma cache_candidates_bounds:
  "AfterMessage i \<in> set (List.map_filter id (cache_candidates msgs)) \<Longrightarrow> i < length msgs"
  by (auto simp: cache_candidates_def List.map_filter_def checked_sub_def
      dest: rposition_Some split: if_splits)

lemma cache_candidates_first:
  "List.map_filter id (cache_candidates msgs) = Cache_System # tl (List.map_filter id (cache_candidates msgs))"
  by (simp add: cache_candidates_def List.map_filter_def)

text \<open>The limit a mode sets, and what the chosen breakpoints satisfy under a positive one.\<close>

definition cache_limit :: "cache_mode \<Rightarrow> nat" where
  "cache_limit mode = (case mode of Explicit m _ \<Rightarrow> m | Automatic \<Rightarrow> 4 | Cache_None \<Rightarrow> 0)"

lemma breakpoints_props:
  assumes "0 < cache_limit mode"
  shows "length (breakpoints msgs mode) \<le> cache_limit mode"
    and "distinct (breakpoints msgs mode)"
    and "hd (breakpoints msgs mode) = Cache_System"
    and "\<forall>i. AfterMessage i \<in> set (breakpoints msgs mode) \<longrightarrow> i < length msgs"
proof -
  let ?cs = "List.map_filter id (cache_candidates msgs)"
  have eq: "breakpoints msgs mode = pick_breakpoints (cache_limit mode) ?cs []"
    using assms by (cases mode) (simp_all add: breakpoints_def cache_limit_def)
  have props: "length (breakpoints msgs mode) \<le> cache_limit mode \<and>
      distinct (breakpoints msgs mode) \<and> set (breakpoints msgs mode) \<subseteq> set ?cs"
    unfolding eq using pick_breakpoints_props [of "[]" "cache_limit mode" ?cs] assms by simp
  then show "length (breakpoints msgs mode) \<le> cache_limit mode"
    and "distinct (breakpoints msgs mode)" by simp_all
  show "\<forall>i. AfterMessage i \<in> set (breakpoints msgs mode) \<longrightarrow> i < length msgs"
    using props cache_candidates_bounds by blast
  have "\<exists>ys. pick_breakpoints (cache_limit mode) ?cs [] = Cache_System # ys"
    using pick_breakpoints_prefix [of "cache_limit mode" "tl ?cs" "[Cache_System]"]
    by (subst cache_candidates_first) (simp add: Let_def)
  then show "hd (breakpoints msgs mode) = Cache_System" by (auto simp: eq)
qed

end
