(* ===== verification/Core_Event.thy ===== *)
theory Core_Event
  imports Core_Types
begin

text \<open>
  \<^verbatim>\<open>kn9t-core/src/event.rs\<close>: the one event vocabulary. The first seven constructors of \<open>event\<close> are
  durable and carry the sequence number the store assigns; the others are transient. A
  \<open>live_event\<close> is the type the bus accepts: it has no durable constructor, and one internal one
  (\<open>TurnFinishing\<close>) that no observer may see.
\<close>

subsection \<open>The vocabulary\<close>

record seq_range =
  sr_start :: nat
  sr_end :: nat

datatype usage_kind = Main | Compaction | Subagent | Title

datatype hook_name =
    BeforeToolCall | AfterToolCall | BeforeRequest | ShouldStopAfterTurn
  | PrepareNextTurn | GetSteering | GetFollowup | GetApiKey

datatype fork_reason = Fork | Rewind | Fork_Subagent | Tree

record fork_snapshot =
  fs_origin_session :: session_id
  fs_origin_seq :: nat
  fs_reason :: fork_reason
  fs_inherited_cost_usd :: f64
  fs_inherited_cost_micros :: int
  fs_inherited_tokens_in :: nat
  fs_inherited_tokens_out :: nat
  fs_inherited_cache_read :: nat
  fs_inherited_messages :: nat
  fs_inherited_ctx_tokens :: nat
  fs_budget_remaining_usd :: "f64 option"
  fs_budget_remaining_micros :: "int option"
  fs_model_at_fork :: model_ref
  fs_thinking_at_fork :: thinking
  fs_cwd_at_fork :: string

record handoff_summary =
  hs_id :: call_id
  hs_summary :: string

record usage_record =
  ur_provider :: string
  ur_model :: string
  ur_kind :: usage_kind
  ur_tokens :: tokens
  ur_price :: price
  ur_cost_micros :: int
  ur_cost_usd :: f64
  ur_estimated :: bool

datatype event =
    SessionForked nat fork_snapshot
  | MessageAppended nat message
  | ModelChanged nat model_ref
  | Compacted nat seq_range message
  | Handoff nat "call_id list" "handoff_summary list" "call_id list" "string list"
  | ToolsToggled nat "string list"
  | UsageRecorded nat usage_record
  | Ev_TurnStarted nat
  | Ev_TextDelta msg_id nat string
  | Ev_ThinkingDelta msg_id nat string
  | Ev_ToolArgsDelta msg_id nat string
  | Ev_ToolStarted call_id string
  | Ev_ToolProgress call_id string
  | Ev_ToolFinished call_id bool
  | Ev_ApprovalRequest approval_id string json string string
  | Ev_TurnEnded nat stop_reason
  | Ev_HookFailed string hook_name string
  | Ev_TitleChanged string
  | Ev_Error string
  | Ev_RetryAttempt nat nat string nat string
  | Ev_TurnStatus string string
  | Ev_PluginNotification json
  | Ev_InteractionRequest nat string json
  | Ev_UiDirective string string string json
  | Ev_PluginDeclared string "string list" "string list"
  | Ev_PluginState string string string

datatype live_event =
    TurnStarted nat
  | TextDelta msg_id nat string
  | ThinkingDelta msg_id nat string
  | ToolArgsDelta msg_id nat string
  | ToolStarted call_id string
  | ToolProgress call_id string
  | ToolFinished call_id bool
  | ApprovalRequest approval_id string json string string
  | TurnFinishing nat stop_reason
  | TurnEnded nat stop_reason
  | HookFailed string hook_name string
  | TitleChanged string
  | Error string
  | RetryAttempt nat nat string nat string
  | TurnStatus string string
  | PluginNotification json
  | InteractionRequest nat string json
  | UiDirective string string string json

subsection \<open>Durability and sequence numbers\<close>

fun seq :: "event \<Rightarrow> nat option" where
  "seq (SessionForked n _) = Some n"
| "seq (MessageAppended n _) = Some n"
| "seq (ModelChanged n _) = Some n"
| "seq (Compacted n _ _) = Some n"
| "seq (Handoff n _ _ _ _) = Some n"
| "seq (ToolsToggled n _) = Some n"
| "seq (UsageRecorded n _) = Some n"
| "seq _ = None"

definition is_durable :: "event \<Rightarrow> bool" where
  "is_durable e \<longleftrightarrow> seq e \<noteq> None"

fun with_seq :: "nat \<Rightarrow> event \<Rightarrow> event" where
  "with_seq n (SessionForked _ f) = SessionForked n f"
| "with_seq n (MessageAppended _ m) = MessageAppended n m"
| "with_seq n (ModelChanged _ m) = ModelChanged n m"
| "with_seq n (Compacted _ r s) = Compacted n r s"
| "with_seq n (Handoff _ k s d r) = Handoff n k s d r"
| "with_seq n (ToolsToggled _ d) = ToolsToggled n d"
| "with_seq n (UsageRecorded _ u) = UsageRecorded n u"
| "with_seq _ e = e"

lemma seq_with_seq [simp]: "seq (with_seq n e) = (if is_durable e then Some n else None)"
  by (cases e) (simp_all add: is_durable_def)

lemma is_durable_with_seq [simp]: "is_durable (with_seq n e) = is_durable e"
  by (cases e) (simp_all add: is_durable_def)

lemma with_seq_with_seq [simp]: "with_seq n (with_seq m e) = with_seq n e"
  by (cases e) simp_all

lemma with_seq_seq: "seq e = Some n \<Longrightarrow> with_seq n e = e"
  by (cases e) simp_all

lemma with_seq_transient: "\<not> is_durable e \<Longrightarrow> with_seq n e = e"
  by (cases e) (simp_all add: is_durable_def)

subsection \<open>Live events\<close>

definition is_internal :: "live_event \<Rightarrow> bool" where
  "is_internal e = (case e of TurnFinishing _ _ \<Rightarrow> True | _ \<Rightarrow> False)"

fun event_of_live :: "live_event \<Rightarrow> event" where
  "event_of_live (TurnStarted t) = Ev_TurnStarted t"
| "event_of_live (TextDelta m i d) = Ev_TextDelta m i d"
| "event_of_live (ThinkingDelta m i d) = Ev_ThinkingDelta m i d"
| "event_of_live (ToolArgsDelta m i d) = Ev_ToolArgsDelta m i d"
| "event_of_live (ToolStarted c n) = Ev_ToolStarted c n"
| "event_of_live (ToolProgress c n) = Ev_ToolProgress c n"
| "event_of_live (ToolFinished c b) = Ev_ToolFinished c b"
| "event_of_live (ApprovalRequest i t a w r) = Ev_ApprovalRequest i t a w r"
| "event_of_live (TurnEnded t s) = Ev_TurnEnded t s"
| "event_of_live (HookFailed p h r) = Ev_HookFailed p h r"
| "event_of_live (TitleChanged t) = Ev_TitleChanged t"
| "event_of_live (Error m) = Ev_Error m"
| "event_of_live (RetryAttempt a m e d k) = Ev_RetryAttempt a m e d k"
| "event_of_live (TurnStatus p m) = Ev_TurnStatus p m"
| "event_of_live (PluginNotification j) = Ev_PluginNotification j"
| "event_of_live (InteractionRequest i p j) = Ev_InteractionRequest i p j"
| "event_of_live (UiDirective p t op j) = Ev_UiDirective p t op j"
| "event_of_live (TurnFinishing t s) = Ev_TurnEnded t s"

definition to_observable_event :: "live_event \<Rightarrow> event option" where
  "to_observable_event e = (if is_internal e then None else Some (event_of_live e))"

lemma event_of_live_transient: "\<not> is_durable (event_of_live e)"
  by (cases e) (simp_all add: is_durable_def)

lemma observable_transient: "to_observable_event l = Some e \<Longrightarrow> seq e = None"
  using event_of_live_transient [of l] by (auto simp: to_observable_event_def is_durable_def split: if_splits)

subsection \<open>Handoff validation\<close>

text \<open>The errors name the first unknown id, and whether it was cited to keep or drop or to summarize.\<close>

datatype handoff_err = Unknown_KeepDrop call_id | Unknown_Summarize call_id

definition validate_handoff :: "event \<Rightarrow> call_id list \<Rightarrow> handoff_err + unit" where
  "validate_handoff e known =
     (case e of
        Handoff _ keep summarize drop_ids _ \<Rightarrow>
          (case find (\<lambda>i. i \<notin> set known) (keep @ drop_ids) of
             Some i \<Rightarrow> Inl (Unknown_KeepDrop i)
           | None \<Rightarrow>
               (case find (\<lambda>s. hs_id s \<notin> set known) summarize of
                  Some s \<Rightarrow> Inl (Unknown_Summarize (hs_id s))
                | None \<Rightarrow> Inr ()))
      | _ \<Rightarrow> Inr ())"

definition handoff_ids :: "event \<Rightarrow> call_id list" where
  "handoff_ids e =
     (case e of Handoff _ keep summarize drop_ids _ \<Rightarrow> keep @ drop_ids @ map hs_id summarize | _ \<Rightarrow> [])"

lemma validate_handoff_ok_iff:
  "validate_handoff e known = Inr () \<longleftrightarrow> set (handoff_ids e) \<subseteq> set known"
  by (cases e) (auto simp: validate_handoff_def handoff_ids_def find_None_iff split: option.splits
      dest!: find_SomeD')

end
