(* ===== verification/Core_Wire.thy ===== *)
theory Core_Wire
  imports Core_Event
begin

text \<open>
  The wire form of the vocabulary: what the \<^verbatim>\<open>serde\<close> attributes of \<^verbatim>\<open>message.rs\<close>, \<^verbatim>\<open>model.rs\<close>,
  \<^verbatim>\<open>usage.rs\<close> and \<^verbatim>\<open>event.rs\<close> make of each type. An enum tagged \<^verbatim>\<open>kind\<close> or \<^verbatim>\<open>type\<close> is an object with
  the variant's snake-case name under that key. A decoder returns \<open>None\<close> where \<^verbatim>\<open>from_str\<close> fails.
  \<^verbatim>\<open>MsgId::default\<close> mints a new id, so the decoders that can need one take it as an argument.
\<close>

definition kind_obj :: "string \<Rightarrow> string \<Rightarrow> (string \<times> json) list \<Rightarrow> json" where
  "kind_obj tag v kvs = JObj ((tag, JStr v) # kvs)"

subsection \<open>Content and messages\<close>

fun role_str :: "role \<Rightarrow> string" where
  "role_str Role_System = ''system''"
| "role_str Role_User = ''user''"
| "role_str Role_Assistant = ''assistant''"
| "role_str Role_Tool = ''tool''"

definition dec_role :: "json \<Rightarrow> role option" where
  "dec_role = dec_enum role_str [Role_System, Role_User, Role_Assistant, Role_Tool]"

fun enc_content :: "content \<Rightarrow> json" where
  "enc_content (Text t) = kind_obj ''type'' ''text'' [(''text'', JStr t)]"
| "enc_content (Image h m) = kind_obj ''type'' ''image'' [(''sha256'', JStr h), (''mime'', JStr m)]"
| "enc_content (ToolCall i n a) =
     kind_obj ''type'' ''tool_call'' [(''id'', JStr i), (''name'', JStr n), (''args_json'', JStr a)]"
| "enc_content (ToolResult i cs e) =
     kind_obj ''type'' ''tool_result''
       [(''id'', JStr i), (''content'', JArr (map enc_content cs)), (''is_error'', JBool e)]"
| "enc_content (Thinking t sg) =
     kind_obj ''type'' ''thinking'' [(''text'', JStr t), (''signature'', enc_opt JStr sg)]"

function dec_content :: "json \<Rightarrow> content option" where
  "dec_content j =
     (case j of
        JObj kvs \<Rightarrow>
          (case map_of kvs ''type'' of
             Some (JStr k) \<Rightarrow>
               if k = ''text'' then map_option Text (fld ''text'' dec_str j)
               else if k = ''image'' then
                 do { h \<leftarrow> fld ''sha256'' dec_str j; m \<leftarrow> fld ''mime'' dec_str j; Some (Image h m) }
               else if k = ''tool_call'' then
                 do { i \<leftarrow> fld ''id'' dec_str j; n \<leftarrow> fld ''name'' dec_str j;
                      a \<leftarrow> fld ''args_json'' dec_str j; Some (ToolCall i n a) }
               else if k = ''tool_result'' then
                 do { i \<leftarrow> fld ''id'' dec_str j;
                      cs \<leftarrow> (case map_of kvs ''content'' of
                               Some (JArr xs) \<Rightarrow> map_opt dec_content xs | _ \<Rightarrow> None);
                      e \<leftarrow> fld ''is_error'' dec_bool j; Some (ToolResult i cs e) }
               else if k = ''thinking'' then
                 do { t \<leftarrow> fld ''text'' dec_str j; sg \<leftarrow> fld_opt ''signature'' dec_str j;
                      Some (Thinking t sg) }
               else None
           | _ \<Rightarrow> None)
      | _ \<Rightarrow> None)"
  by pat_completeness auto
termination
  by (relation "measure size") (auto dest: json_arr_size simp del: json.size)

declare dec_content.simps [simp del]

lemma dec_enc_content: "dec_content (enc_content c) = Some c"
proof (induction c)
  case (ToolResult i cs e)
  then have "map_opt dec_content (map enc_content cs) = Some cs"
    by (intro map_opt_map) blast
  then show ?case
    by (subst dec_content.simps) (simp add: kind_obj_def codec_simps)
qed (subst dec_content.simps; simp add: kind_obj_def codec_simps)+

definition enc_contents :: "content list \<Rightarrow> json" where
  "enc_contents cs = JArr (map enc_content cs)"

definition dec_contents :: "json \<Rightarrow> content list option" where
  "dec_contents = dec_list dec_content"

lemma dec_enc_contents [simp]: "dec_contents (enc_contents cs) = Some cs"
  by (simp add: dec_contents_def enc_contents_def codec_simps dec_enc_content)

definition enc_message :: "message \<Rightarrow> json" where
  "enc_message m =
     JObj ([(''id'', JStr (msg_id m)), (''role'', JStr (role_str (msg_role m))),
            (''content'', enc_contents (msg_content m))]
           @ (if msg_silent m then [(''silent'', JBool True)] else []))"

definition dec_message :: "msg_id \<Rightarrow> json \<Rightarrow> message option" where
  "dec_message new_id j =
     do { i \<leftarrow> fld_default ''id'' dec_str new_id j; r \<leftarrow> fld ''role'' dec_role j;
          c \<leftarrow> fld ''content'' dec_contents j; s \<leftarrow> fld_default ''silent'' dec_bool False j;
          Some \<lparr>msg_id = i, msg_role = r, msg_content = c, msg_silent = s\<rparr> }"

lemma dec_role_enc [codec_simps]: "dec_role (JStr (role_str r)) = Some r"
  by (cases r) (simp_all add: dec_role_def dec_enum_def)

lemma dec_enc_message [codec_simps]: "dec_message new_id (enc_message m) = Some m"
  by (cases m) (simp add: dec_message_def enc_message_def codec_simps)

subsection \<open>Models, prices, usage\<close>

definition enc_model_ref :: "model_ref \<Rightarrow> json" where
  "enc_model_ref m = JObj [(''provider'', JStr (mr_provider m)), (''id'', JStr (mr_id m))]"

definition dec_model_ref :: "json \<Rightarrow> model_ref option" where
  "dec_model_ref j =
     do { p \<leftarrow> fld ''provider'' dec_str j; i \<leftarrow> fld ''id'' dec_str j;
          Some \<lparr>mr_provider = p, mr_id = i\<rparr> }"

text \<open>\<^verbatim>\<open>de_micros\<close>: an integer in range is micros, any other number is dollars.\<close>

definition dec_micros :: "json \<Rightarrow> int option" where
  "dec_micros j =
     (case j of
        JInt i \<Rightarrow> if in_i64 i then Some i else Some (usd_to_micros (of_int i))
      | JFloat r \<Rightarrow> Some (usd_to_micros r)
      | _ \<Rightarrow> None)"

definition enc_price :: "price \<Rightarrow> json" where
  "enc_price p =
     JObj [(''input'', JInt (p_input p)), (''output'', JInt (p_output p)),
           (''cache_read'', JInt (p_cache_read p)), (''cache_write'', JInt (p_cache_write p))]"

definition dec_price :: "json \<Rightarrow> price option" where
  "dec_price j =
     do { i \<leftarrow> fld ''input'' dec_micros j; out \<leftarrow> fld ''output'' dec_micros j;
          cr \<leftarrow> fld ''cache_read'' dec_micros j; cw \<leftarrow> fld ''cache_write'' dec_micros j;
          Some \<lparr>p_input = i, p_output = out, p_cache_read = cr, p_cache_write = cw\<rparr> }"

definition enc_tokens :: "tokens \<Rightarrow> json" where
  "enc_tokens t =
     JObj [(''input'', enc_uint (t_input t)), (''output'', enc_uint (t_output t)),
           (''cache_read'', enc_uint (t_cache_read t)), (''cache_write'', enc_uint (t_cache_write t)),
           (''reasoning'', enc_uint (t_reasoning t))]"

definition dec_tokens :: "json \<Rightarrow> tokens option" where
  "dec_tokens j =
     do { i \<leftarrow> fld ''input'' (dec_uint u32_max) j; out \<leftarrow> fld ''output'' (dec_uint u32_max) j;
          cr \<leftarrow> fld ''cache_read'' (dec_uint u32_max) j;
          cw \<leftarrow> fld ''cache_write'' (dec_uint u32_max) j;
          r \<leftarrow> fld ''reasoning'' (dec_uint u32_max) j;
          Some \<lparr>t_input = i, t_output = out, t_cache_read = cr, t_cache_write = cw, t_reasoning = r\<rparr> }"

fun effort_str :: "effort \<Rightarrow> string" where
  "effort_str Low = ''low''" | "effort_str Medium = ''medium''" | "effort_str High = ''high''"

fun enc_thinking :: "thinking \<Rightarrow> json" where
  "enc_thinking Off = JStr ''off''"
| "enc_thinking (Effort e) = JObj [(''effort'', JStr (effort_str e))]"
| "enc_thinking (Budget n) = JObj [(''budget'', enc_uint n)]"

definition dec_thinking :: "json \<Rightarrow> thinking option" where
  "dec_thinking j =
     (case j of
        JStr s \<Rightarrow> if s = ''off'' then Some Off else None
      | JObj [(k, v)] \<Rightarrow>
          if k = ''effort'' then map_option Effort (dec_enum effort_str [Low, Medium, High] v)
          else if k = ''budget'' then map_option Budget (dec_uint u32_max v)
          else None
      | _ \<Rightarrow> None)"

fun usage_kind_str :: "usage_kind \<Rightarrow> string" where
  "usage_kind_str Main = ''main''"
| "usage_kind_str Compaction = ''compaction''"
| "usage_kind_str Subagent = ''subagent''"
| "usage_kind_str Title = ''title''"

definition dec_usage_kind :: "json \<Rightarrow> usage_kind option" where
  "dec_usage_kind = dec_enum usage_kind_str [Main, Compaction, Subagent, Title]"

fun fork_reason_str :: "fork_reason \<Rightarrow> string" where
  "fork_reason_str Fork = ''fork''"
| "fork_reason_str Rewind = ''rewind''"
| "fork_reason_str Fork_Subagent = ''subagent''"
| "fork_reason_str Tree = ''tree''"

definition dec_fork_reason :: "json \<Rightarrow> fork_reason option" where
  "dec_fork_reason = dec_enum fork_reason_str [Fork, Rewind, Fork_Subagent, Tree]"

fun stop_str :: "stop_reason \<Rightarrow> string" where
  "stop_str Stop = ''stop''"
| "stop_str ToolUse = ''tool_use''"
| "stop_str Length = ''length''"
| "stop_str Aborted = ''aborted''"
| "stop_str Refusal = ''refusal''"

definition dec_stop :: "json \<Rightarrow> stop_reason option" where
  "dec_stop = dec_enum stop_str [Stop, ToolUse, Length, Aborted, Refusal]"

fun hook_str :: "hook_name \<Rightarrow> string" where
  "hook_str BeforeToolCall = ''before_tool_call''"
| "hook_str AfterToolCall = ''after_tool_call''"
| "hook_str BeforeRequest = ''before_request''"
| "hook_str ShouldStopAfterTurn = ''should_stop_after_turn''"
| "hook_str PrepareNextTurn = ''prepare_next_turn''"
| "hook_str GetSteering = ''get_steering''"
| "hook_str GetFollowup = ''get_followup''"
| "hook_str GetApiKey = ''get_api_key''"

definition dec_hook :: "json \<Rightarrow> hook_name option" where
  "dec_hook = dec_enum hook_str
     [BeforeToolCall, AfterToolCall, BeforeRequest, ShouldStopAfterTurn, PrepareNextTurn,
      GetSteering, GetFollowup, GetApiKey]"

lemma dec_enums [codec_simps]:
  "dec_usage_kind (JStr (usage_kind_str k)) = Some k"
  "dec_fork_reason (JStr (fork_reason_str r)) = Some r"
  "dec_stop (JStr (stop_str s)) = Some s"
  "dec_hook (JStr (hook_str h)) = Some h"
     apply (cases k; simp add: dec_usage_kind_def dec_enum_def)
    apply (cases r; simp add: dec_fork_reason_def dec_enum_def)
   apply (cases s; simp add: dec_stop_def dec_enum_def)
  apply (cases h; simp add: dec_hook_def dec_enum_def)
  done

definition tokens_in_range :: "tokens \<Rightarrow> bool" where
  "tokens_in_range t \<longleftrightarrow>
     in_u32 (t_input t) \<and> in_u32 (t_output t) \<and> in_u32 (t_cache_read t) \<and>
     in_u32 (t_cache_write t) \<and> in_u32 (t_reasoning t)"

definition price_in_range :: "price \<Rightarrow> bool" where
  "price_in_range p \<longleftrightarrow>
     in_i64 (p_input p) \<and> in_i64 (p_output p) \<and> in_i64 (p_cache_read p) \<and> in_i64 (p_cache_write p)"

definition thinking_in_range :: "thinking \<Rightarrow> bool" where
  "thinking_in_range t = (case t of Budget n \<Rightarrow> in_u32 n | _ \<Rightarrow> True)"

lemma dec_micros_i64 [codec_simps]: "in_i64 i \<Longrightarrow> dec_micros (JInt i) = Some i"
  by (simp add: dec_micros_def)

lemma dec_structs [codec_simps]:
  "dec_model_ref (enc_model_ref m) = Some m"
  "price_in_range p \<Longrightarrow> dec_price (enc_price p) = Some p"
  "tokens_in_range t \<Longrightarrow> dec_tokens (enc_tokens t) = Some t"
  "thinking_in_range th \<Longrightarrow> dec_thinking (enc_thinking th) = Some th"
     apply (simp add: dec_model_ref_def enc_model_ref_def codec_simps)
    apply (simp add: dec_price_def enc_price_def price_in_range_def codec_simps)
   apply (simp add: dec_tokens_def enc_tokens_def tokens_in_range_def codec_simps)
  apply (cases th)
    apply (simp_all add: dec_thinking_def thinking_in_range_def codec_simps)
  subgoal for e by (cases e) (simp_all add: dec_enum_def)
  done

subsection \<open>Fork snapshots and usage records\<close>

definition enc_fork :: "fork_snapshot \<Rightarrow> json" where
  "enc_fork f =
     JObj [(''origin_session'', JStr (fs_origin_session f)),
           (''origin_seq'', enc_uint (fs_origin_seq f)),
           (''reason'', JStr (fork_reason_str (fs_reason f))),
           (''inherited_cost_usd'', JFloat (fs_inherited_cost_usd f)),
           (''inherited_cost_micros'', JInt (fs_inherited_cost_micros f)),
           (''inherited_tokens_in'', enc_uint (fs_inherited_tokens_in f)),
           (''inherited_tokens_out'', enc_uint (fs_inherited_tokens_out f)),
           (''inherited_cache_read'', enc_uint (fs_inherited_cache_read f)),
           (''inherited_messages'', enc_uint (fs_inherited_messages f)),
           (''inherited_ctx_tokens'', enc_uint (fs_inherited_ctx_tokens f)),
           (''budget_remaining_usd'', enc_opt JFloat (fs_budget_remaining_usd f)),
           (''budget_remaining_micros'', enc_opt JInt (fs_budget_remaining_micros f)),
           (''model_at_fork'', enc_model_ref (fs_model_at_fork f)),
           (''thinking_at_fork'', enc_thinking (fs_thinking_at_fork f)),
           (''cwd_at_fork'', JStr (fs_cwd_at_fork f))]"

definition dec_fork :: "json \<Rightarrow> fork_snapshot option" where
  "dec_fork j =
     do { os \<leftarrow> fld ''origin_session'' dec_str j;
          oq \<leftarrow> fld ''origin_seq'' (dec_uint u64_max) j;
          r \<leftarrow> fld ''reason'' dec_fork_reason j;
          cu \<leftarrow> fld_default ''inherited_cost_usd'' dec_f64 0 j;
          cm \<leftarrow> fld_default ''inherited_cost_micros'' dec_i64 0 j;
          ti \<leftarrow> fld ''inherited_tokens_in'' (dec_uint u64_max) j;
          tu \<leftarrow> fld ''inherited_tokens_out'' (dec_uint u64_max) j;
          cr \<leftarrow> fld ''inherited_cache_read'' (dec_uint u64_max) j;
          im \<leftarrow> fld ''inherited_messages'' (dec_uint u32_max) j;
          ic \<leftarrow> fld ''inherited_ctx_tokens'' (dec_uint u32_max) j;
          bu \<leftarrow> fld_opt ''budget_remaining_usd'' dec_f64 j;
          bm \<leftarrow> fld_opt ''budget_remaining_micros'' dec_i64 j;
          m \<leftarrow> fld ''model_at_fork'' dec_model_ref j;
          th \<leftarrow> fld ''thinking_at_fork'' dec_thinking j;
          cwd \<leftarrow> fld ''cwd_at_fork'' dec_str j;
          Some \<lparr>fs_origin_session = os, fs_origin_seq = oq, fs_reason = r,
                fs_inherited_cost_usd = cu, fs_inherited_cost_micros = cm,
                fs_inherited_tokens_in = ti, fs_inherited_tokens_out = tu,
                fs_inherited_cache_read = cr, fs_inherited_messages = im,
                fs_inherited_ctx_tokens = ic, fs_budget_remaining_usd = bu,
                fs_budget_remaining_micros = bm, fs_model_at_fork = m,
                fs_thinking_at_fork = th, fs_cwd_at_fork = cwd\<rparr> }"

definition fork_in_range :: "fork_snapshot \<Rightarrow> bool" where
  "fork_in_range f \<longleftrightarrow>
     in_u64 (fs_origin_seq f) \<and> in_i64 (fs_inherited_cost_micros f) \<and>
     in_u64 (fs_inherited_tokens_in f) \<and> in_u64 (fs_inherited_tokens_out f) \<and>
     in_u64 (fs_inherited_cache_read f) \<and> in_u32 (fs_inherited_messages f) \<and>
     in_u32 (fs_inherited_ctx_tokens f) \<and> thinking_in_range (fs_thinking_at_fork f) \<and>
     (case fs_budget_remaining_micros f of None \<Rightarrow> True | Some b \<Rightarrow> in_i64 b)"

lemma dec_opt_num [codec_simps]:
  "dec_opt dec_f64 (enc_opt JFloat x) = Some x"
  "(case y of None \<Rightarrow> True | Some b \<Rightarrow> in_i64 b) \<Longrightarrow> dec_opt dec_i64 (enc_opt JInt y) = Some y"
   apply (cases x; simp add: dec_opt_def enc_opt_def codec_simps)
  apply (cases y; simp add: dec_opt_def enc_opt_def codec_simps)
  done

lemma dec_enc_fork [codec_simps]: "fork_in_range f \<Longrightarrow> dec_fork (enc_fork f) = Some f"
  by (cases f) (simp add: dec_fork_def enc_fork_def fork_in_range_def codec_simps)

subsection \<open>Events\<close>

definition jstrs :: "string list \<Rightarrow> json" where
  "jstrs xs = JArr (map JStr xs)"

lemma dec_jstrs [codec_simps]: "dec_list dec_str (jstrs xs) = Some xs"
  by (simp add: jstrs_def codec_simps)

definition enc_summary :: "handoff_summary \<Rightarrow> json" where
  "enc_summary s = JObj [(''id'', JStr (hs_id s)), (''summary'', JStr (hs_summary s))]"

definition dec_summary :: "json \<Rightarrow> handoff_summary option" where
  "dec_summary j =
     do { i \<leftarrow> fld ''id'' dec_str j; t \<leftarrow> fld ''summary'' dec_str j;
          Some \<lparr>hs_id = i, hs_summary = t\<rparr> }"

lemma dec_enc_summary [codec_simps]: "dec_summary (enc_summary s) = Some s"
  by (simp add: dec_summary_def enc_summary_def codec_simps)

definition enc_range :: "seq_range \<Rightarrow> json" where
  "enc_range r = JObj [(''start'', enc_uint (sr_start r)), (''end'', enc_uint (sr_end r))]"

definition dec_range :: "json \<Rightarrow> seq_range option" where
  "dec_range j =
     do { s \<leftarrow> fld ''start'' (dec_uint u64_max) j; e \<leftarrow> fld ''end'' (dec_uint u64_max) j;
          Some \<lparr>sr_start = s, sr_end = e\<rparr> }"

lemma dec_enc_range [codec_simps]:
  "in_u64 (sr_start r) \<Longrightarrow> in_u64 (sr_end r) \<Longrightarrow> dec_range (enc_range r) = Some r"
  by (simp add: dec_range_def enc_range_def codec_simps)

text \<open>
  The object of an event, without a result only where \<^verbatim>\<open>#[serde(flatten)]\<close> meets a payload that is
  no object (\<open>Ev_PluginNotification\<close>).
\<close>

fun event_fields :: "event \<Rightarrow> (string \<times> (string \<times> json) list) option" where
  "event_fields (SessionForked n f) = Some (''session_forked'', [(''seq'', enc_uint n), (''fork'', enc_fork f)])"
| "event_fields (MessageAppended n m) = Some (''message_appended'', [(''seq'', enc_uint n), (''msg'', enc_message m)])"
| "event_fields (ModelChanged n m) = Some (''model_changed'', [(''seq'', enc_uint n), (''model'', enc_model_ref m)])"
| "event_fields (Compacted n r s) =
     Some (''compacted'', [(''seq'', enc_uint n), (''replaced'', enc_range r), (''summary'', enc_message s)])"
| "event_fields (Handoff n k s d r) =
     Some (''handoff'', [(''seq'', enc_uint n), (''keep'', jstrs k), (''summarize'', JArr (map enc_summary s)),
                         (''drop'', jstrs d), (''resume_actions'', jstrs r)])"
| "event_fields (ToolsToggled n d) = Some (''tools_toggled'', [(''seq'', enc_uint n), (''disabled'', jstrs d)])"
| "event_fields (UsageRecorded n u) =
     Some (''usage_recorded'',
       [(''seq'', enc_uint n), (''provider'', JStr (ur_provider u)), (''model'', JStr (ur_model u)),
        (''usage_kind'', JStr (usage_kind_str (ur_kind u))), (''tokens'', enc_tokens (ur_tokens u)),
        (''price_snapshot'', enc_price (ur_price u)), (''cost_micros'', JInt (ur_cost_micros u)),
        (''cost_usd'', JFloat (ur_cost_usd u)), (''estimated'', JBool (ur_estimated u))])"
| "event_fields (Ev_TurnStarted t) = Some (''turn_started'', [(''turn'', enc_uint t)])"
| "event_fields (Ev_TextDelta m i d) = Some (''text_delta'', [(''msg_id'', JStr m), (''idx'', enc_uint i), (''delta'', JStr d)])"
| "event_fields (Ev_ThinkingDelta m i d) = Some (''thinking_delta'', [(''msg_id'', JStr m), (''idx'', enc_uint i), (''delta'', JStr d)])"
| "event_fields (Ev_ToolArgsDelta m i d) = Some (''tool_args_delta'', [(''msg_id'', JStr m), (''idx'', enc_uint i), (''delta'', JStr d)])"
| "event_fields (Ev_ToolStarted c n) = Some (''tool_started'', [(''call_id'', JStr c), (''name'', JStr n)])"
| "event_fields (Ev_ToolProgress c n) = Some (''tool_progress'', [(''call_id'', JStr c), (''note'', JStr n)])"
| "event_fields (Ev_ToolFinished c b) = Some (''tool_finished'', [(''call_id'', JStr c), (''is_error'', JBool b)])"
| "event_fields (Ev_ApprovalRequest i t a w r) =
     Some (''approval_request'', [(''id'', enc_uint i), (''tool'', JStr t), (''args'', a), (''cwd'', JStr w), (''reason'', JStr r)])"
| "event_fields (Ev_TurnEnded t s) = Some (''turn_ended'', [(''turn'', enc_uint t), (''stop'', JStr (stop_str s))])"
| "event_fields (Ev_HookFailed p h r) = Some (''hook_failed'', [(''plugin'', JStr p), (''hook'', JStr (hook_str h)), (''reason'', JStr r)])"
| "event_fields (Ev_TitleChanged t) = Some (''title_changed'', [(''title'', JStr t)])"
| "event_fields (Ev_Error m) = Some (''error'', [(''message'', JStr m)])"
| "event_fields (Ev_RetryAttempt a m e d k) =
     Some (''retry_attempt'', [(''attempt'', enc_uint a), (''max'', enc_uint m), (''error'', JStr e), (''delay_ms'', enc_uint d), (''retry_kind'', JStr k)])"
| "event_fields (Ev_TurnStatus p m) = Some (''turn_status'', [(''phase'', JStr p), (''message'', JStr m)])"
| "event_fields (Ev_PluginNotification j) =
     (case j of JObj kvs \<Rightarrow> Some (''plugin_notification'', kvs) | _ \<Rightarrow> None)"
| "event_fields (Ev_InteractionRequest i p j) = Some (''interaction_request'', [(''id'', enc_uint i), (''plugin'', JStr p), (''payload'', j)])"
| "event_fields (Ev_UiDirective p t op j) = Some (''ui_directive'', [(''plugin'', JStr p), (''target'', JStr t), (''op'', JStr op), (''payload'', j)])"
| "event_fields (Ev_PluginDeclared p a r) = Some (''plugin_declared'', [(''plugin'', JStr p), (''tools_added'', jstrs a), (''tools_removed'', jstrs r)])"
| "event_fields (Ev_PluginState p s e) = Some (''plugin_state'', [(''plugin'', JStr p), (''state'', JStr s), (''error'', JStr e)])"

definition enc_event :: "event \<Rightarrow> json option" where
  "enc_event e = map_option (\<lambda>(k, kvs). kind_obj ''kind'' k kvs) (event_fields e)"

lemma enc_event_durable: "is_durable e \<Longrightarrow> \<exists>j. enc_event e = Some j"
  by (cases e) (simp_all add: is_durable_def enc_event_def)

text \<open>
  The decoder reads the tag and then the fields of that variant; a flattened payload is every key
  but the tag.
\<close>

definition dec_usage :: "json \<Rightarrow> usage_record option" where
  "dec_usage j =
     do { p \<leftarrow> fld ''provider'' dec_str j; m \<leftarrow> fld ''model'' dec_str j;
          k \<leftarrow> fld ''usage_kind'' dec_usage_kind j; t \<leftarrow> fld ''tokens'' dec_tokens j;
          ps \<leftarrow> fld ''price_snapshot'' dec_price j;
          cm \<leftarrow> fld_default ''cost_micros'' dec_i64 0 j;
          cu \<leftarrow> fld_default ''cost_usd'' dec_f64 0 j; e \<leftarrow> fld ''estimated'' dec_bool j;
          Some \<lparr>ur_provider = p, ur_model = m, ur_kind = k, ur_tokens = t, ur_price = ps,
                ur_cost_micros = cm, ur_cost_usd = cu, ur_estimated = e\<rparr> }"

definition dec_durable :: "msg_id \<Rightarrow> string \<Rightarrow> json \<Rightarrow> event option" where
  "dec_durable new_id k j =
     do { n \<leftarrow> fld ''seq'' (dec_uint u64_max) j;
          if k = ''session_forked'' then map_option (SessionForked n) (fld ''fork'' dec_fork j)
          else if k = ''message_appended'' then
            map_option (MessageAppended n) (fld ''msg'' (dec_message new_id) j)
          else if k = ''model_changed'' then map_option (ModelChanged n) (fld ''model'' dec_model_ref j)
          else if k = ''compacted'' then
            do { r \<leftarrow> fld ''replaced'' dec_range j; s \<leftarrow> fld ''summary'' (dec_message new_id) j;
                 Some (Compacted n r s) }
          else if k = ''handoff'' then
            do { ks \<leftarrow> fld ''keep'' (dec_list dec_str) j;
                 s \<leftarrow> fld ''summarize'' (dec_list dec_summary) j;
                 d \<leftarrow> fld ''drop'' (dec_list dec_str) j;
                 r \<leftarrow> fld ''resume_actions'' (dec_list dec_str) j;
                 Some (Handoff n ks s d r) }
          else if k = ''tools_toggled'' then
            map_option (ToolsToggled n) (fld ''disabled'' (dec_list dec_str) j)
          else map_option (UsageRecorded n) (dec_usage j) }"

definition durable_kinds :: "string list" where
  "durable_kinds = [''session_forked'', ''message_appended'', ''model_changed'', ''compacted'',
     ''handoff'', ''tools_toggled'', ''usage_recorded'']"

definition dec_delta :: "(msg_id \<Rightarrow> nat \<Rightarrow> string \<Rightarrow> event) \<Rightarrow> json \<Rightarrow> event option" where
  "dec_delta c j =
     do { m \<leftarrow> fld ''msg_id'' dec_str j; i \<leftarrow> fld ''idx'' (dec_uint u32_max) j;
          d \<leftarrow> fld ''delta'' dec_str j; Some (c m i d) }"

definition dec_tool_event :: "string \<Rightarrow> json \<Rightarrow> event option" where
  "dec_tool_event k j =
     do { c \<leftarrow> fld ''call_id'' dec_str j;
          if k = ''tool_started'' then map_option (Ev_ToolStarted c) (fld ''name'' dec_str j)
          else if k = ''tool_progress'' then map_option (Ev_ToolProgress c) (fld ''note'' dec_str j)
          else map_option (Ev_ToolFinished c) (fld ''is_error'' dec_bool j) }"

definition dec_plugin_event :: "string \<Rightarrow> json \<Rightarrow> event option" where
  "dec_plugin_event k j =
     do { p \<leftarrow> fld ''plugin'' dec_str j;
          if k = ''hook_failed'' then
            do { h \<leftarrow> fld ''hook'' dec_hook j; r \<leftarrow> fld ''reason'' dec_str j;
                 Some (Ev_HookFailed p h r) }
          else if k = ''interaction_request'' then
            do { i \<leftarrow> fld ''id'' (dec_uint u64_max) j; v \<leftarrow> fld ''payload'' Some j;
                 Some (Ev_InteractionRequest i p v) }
          else if k = ''ui_directive'' then
            do { t \<leftarrow> fld ''target'' dec_str j; opn \<leftarrow> fld ''op'' dec_str j;
                 v \<leftarrow> fld ''payload'' Some j; Some (Ev_UiDirective p t opn v) }
          else if k = ''plugin_declared'' then
            do { a \<leftarrow> fld ''tools_added'' (dec_list dec_str) j;
                 r \<leftarrow> fld ''tools_removed'' (dec_list dec_str) j; Some (Ev_PluginDeclared p a r) }
          else
            do { st \<leftarrow> fld ''state'' dec_str j; e \<leftarrow> fld ''error'' dec_str j;
                 Some (Ev_PluginState p st e) } }"

definition dec_turn_event :: "string \<Rightarrow> json \<Rightarrow> event option" where
  "dec_turn_event k j =
     (if k = ''turn_started'' then map_option Ev_TurnStarted (fld ''turn'' (dec_uint u32_max) j)
      else if k = ''turn_ended'' then
        do { t \<leftarrow> fld ''turn'' (dec_uint u32_max) j; s \<leftarrow> fld ''stop'' dec_stop j;
             Some (Ev_TurnEnded t s) }
      else if k = ''approval_request'' then
        do { i \<leftarrow> fld ''id'' (dec_uint u64_max) j; t \<leftarrow> fld ''tool'' dec_str j;
             a \<leftarrow> fld ''args'' Some j; w \<leftarrow> fld ''cwd'' dec_str j;
             r \<leftarrow> fld_default ''reason'' dec_str [] j; Some (Ev_ApprovalRequest i t a w r) }
      else if k = ''title_changed'' then map_option Ev_TitleChanged (fld ''title'' dec_str j)
      else if k = ''error'' then map_option Ev_Error (fld ''message'' dec_str j)
      else if k = ''retry_attempt'' then
        do { a \<leftarrow> fld ''attempt'' (dec_uint u32_max) j; m \<leftarrow> fld ''max'' (dec_uint u32_max) j;
             e \<leftarrow> fld ''error'' dec_str j; d \<leftarrow> fld ''delay_ms'' (dec_uint u64_max) j;
             rk \<leftarrow> fld ''retry_kind'' dec_str j; Some (Ev_RetryAttempt a m e d rk) }
      else if k = ''turn_status'' then
        do { p \<leftarrow> fld ''phase'' dec_str j; m \<leftarrow> fld_default ''message'' dec_str [] j;
             Some (Ev_TurnStatus p m) }
      else None)"

definition dec_event :: "msg_id \<Rightarrow> json \<Rightarrow> event option" where
  "dec_event new_id j =
     (case j of
        JObj kvs \<Rightarrow>
          do { k \<leftarrow> fld ''kind'' dec_str j;
               if k \<in> set durable_kinds then dec_durable new_id k j
               else if k = ''text_delta'' then dec_delta Ev_TextDelta j
               else if k = ''thinking_delta'' then dec_delta Ev_ThinkingDelta j
               else if k = ''tool_args_delta'' then dec_delta Ev_ToolArgsDelta j
               else if k \<in> {''tool_started'', ''tool_progress'', ''tool_finished''} then dec_tool_event k j
               else if k \<in> {''hook_failed'', ''interaction_request'', ''ui_directive'', ''plugin_declared'',
                         ''plugin_state''} then dec_plugin_event k j
               else if k = ''plugin_notification'' then
                 Some (Ev_PluginNotification (JObj (filter (\<lambda>(f, _). f \<noteq> ''kind'') kvs)))
               else dec_turn_event k j }
      | _ \<Rightarrow> None)"

definition usage_in_range :: "usage_record \<Rightarrow> bool" where
  "usage_in_range u \<longleftrightarrow>
     tokens_in_range (ur_tokens u) \<and> price_in_range (ur_price u) \<and> in_i64 (ur_cost_micros u)"

text \<open>The values the fields of the Rust types can hold.\<close>

fun event_in_range :: "event \<Rightarrow> bool" where
  "event_in_range (SessionForked n f) \<longleftrightarrow> in_u64 n \<and> fork_in_range f"
| "event_in_range (MessageAppended n _) \<longleftrightarrow> in_u64 n"
| "event_in_range (ModelChanged n _) \<longleftrightarrow> in_u64 n"
| "event_in_range (Compacted n r _) \<longleftrightarrow> in_u64 n \<and> in_u64 (sr_start r) \<and> in_u64 (sr_end r)"
| "event_in_range (Handoff n _ _ _ _) \<longleftrightarrow> in_u64 n"
| "event_in_range (ToolsToggled n _) \<longleftrightarrow> in_u64 n"
| "event_in_range (UsageRecorded n u) \<longleftrightarrow> in_u64 n \<and> usage_in_range u"
| "event_in_range (Ev_TurnStarted t) \<longleftrightarrow> in_u32 t"
| "event_in_range (Ev_TextDelta _ i _) \<longleftrightarrow> in_u32 i"
| "event_in_range (Ev_ThinkingDelta _ i _) \<longleftrightarrow> in_u32 i"
| "event_in_range (Ev_ToolArgsDelta _ i _) \<longleftrightarrow> in_u32 i"
| "event_in_range (Ev_ApprovalRequest i _ _ _ _) \<longleftrightarrow> in_u64 i"
| "event_in_range (Ev_TurnEnded t _) \<longleftrightarrow> in_u32 t"
| "event_in_range (Ev_RetryAttempt a m _ d _) \<longleftrightarrow> in_u32 a \<and> in_u32 m \<and> in_u64 d"
| "event_in_range (Ev_PluginNotification j) \<longleftrightarrow>
     (case j of JObj kvs \<Rightarrow> ''kind'' \<notin> fst ` set kvs | _ \<Rightarrow> True)"
| "event_in_range (Ev_InteractionRequest i _ _) \<longleftrightarrow> in_u64 i"
| "event_in_range _ \<longleftrightarrow> True"

lemmas wire_defs = dec_event_def enc_event_def kind_obj_def durable_kinds_def dec_durable_def
  dec_delta_def dec_tool_event_def dec_plugin_event_def dec_turn_event_def

lemma dec_enc_usage_fields:
  "usage_in_range u \<Longrightarrow> event_fields (UsageRecorded n u) = Some (k, kvs) \<Longrightarrow>
   dec_usage (JObj ((''kind'', v) # kvs)) = Some u"
  by (cases u) (auto simp: dec_usage_def usage_in_range_def codec_simps)

lemma dec_enc_durable:
  assumes "is_durable e" and "event_in_range e" and "enc_event e = Some j"
  shows "dec_event new_id j = Some e"
proof (cases e)
  case (UsageRecorded n u)
  with assms dec_enc_usage_fields [of u n] show ?thesis
    by (auto simp: wire_defs codec_simps)
qed (use assms in \<open>auto simp: is_durable_def wire_defs codec_simps dec_enc_summary map_opt_map\<close>)

lemma dec_enc_transient:
  assumes "\<not> is_durable e" and "event_in_range e" and "enc_event e = Some j"
  shows "dec_event new_id j = Some e"
proof (cases e)
  case (Ev_PluginNotification p)
  with assms obtain kvs where p: "p = JObj kvs" "''kind'' \<notin> fst ` set kvs"
    by (cases p) (auto simp: enc_event_def)
  then have "filter (\<lambda>(f, _). f \<noteq> ''kind'') kvs = kvs"
    by (intro filter_True) (auto simp: image_iff)
  with assms Ev_PluginNotification p show ?thesis
    by (auto simp: wire_defs codec_simps)
qed (use assms in \<open>auto simp: is_durable_def wire_defs codec_simps\<close>)

lemma dec_enc_event:
  "event_in_range e \<Longrightarrow> enc_event e = Some j \<Longrightarrow> dec_event new_id j = Some e"
  using dec_enc_durable dec_enc_transient by blast

end
