(* ===== verification/Store_Db.thy ===== *)
theory Store_Db
  imports Core_Wire "HOL-Library.List_Lexorder" "HOL-Library.Char_ord" "HOL-Library.Product_Lexorder"
begin

text \<open>
  \<^verbatim>\<open>kn9t-store/src/db.rs\<close>: the tables of the schema, the one connection with its transaction state,
  and the operations that touch a single table. A connection is the tables as its statements see
  them together with the tables as they were at \<^verbatim>\<open>BEGIN\<close> while a transaction is open. Every method
  takes the connection mutex for its whole body, so it is one step. Failures of the disk and a
  poisoned mutex are not modelled; primary keys, foreign keys, missing rows, a \<^verbatim>\<open>BEGIN\<close> inside an
  open transaction and malformed statements are.
\<close>

subsection \<open>Rows\<close>

text \<open>
  The columns the code reads back. Left out are the display name and the two \<^verbatim>\<open>REAL\<close> compatibility
  columns of \<^verbatim>\<open>sessions\<close>, which are micros divided by a million and read by no operation modelled here.
\<close>

record session_row =
  s_id :: session_id
  s_created_at :: int
  s_cwd :: string
  s_origin :: "session_id option"
  s_origin_seq :: int
  s_fork_reason :: "string option"
  s_inh_cost_micros :: int
  s_inh_tokens_in :: int
  s_inh_tokens_out :: int
  s_inh_ctx :: int
  s_budget_micros :: "int option"
  s_model :: "json option"
  s_head :: nat

record event_row =
  ev_session :: session_id
  ev_seq :: nat
  ev_ts :: int
  ev_kind :: string
  ev_payload :: json

record message_row =
  m_session :: session_id
  m_seq :: nat
  m_role :: string
  m_content :: json
  m_silent :: bool

record price_usd =
  pu_input :: f64
  pu_output :: f64
  pu_cache_read :: f64
  pu_cache_write :: f64

record usage_row =
  us_session :: session_id
  us_seq :: nat
  us_ts :: int
  us_provider :: string
  us_model :: string
  us_kind :: string
  us_tokens :: tokens
  us_price_usd :: price_usd
  us_price_micros :: price
  us_cost_usd :: f64
  us_cost_micros :: int
  us_estimated :: bool

record blob_row =
  b_hash :: string
  b_mime :: string
  b_bytes :: string
  b_refcount :: int
  b_created_at :: int

record live_row =
  l_session :: session_id
  l_msg_id :: msg_id
  l_role :: string
  l_content :: json
  l_updated_at :: int

record tool_row =
  tc_session :: session_id
  tc_call :: call_id
  tc_tool :: string
  tc_progress :: string
  tc_truncated :: bool
  tc_updated_at :: int

record kv_row =
  kv_plugin :: string
  kv_scope :: string
  kv_key :: string
  kv_value :: json
  kv_updated_at :: int

record db =
  sessions :: "session_row list"
  events :: "event_row list"
  messages :: "message_row list"
  usages :: "usage_row list"
  blobs :: "blob_row list"
  meta :: "(string \<times> string) list"
  lives :: "live_row list"
  tool_calls :: "tool_row list"
  kvs :: "kv_row list"

definition empty_db :: db where
  "empty_db = \<lparr>sessions = [], events = [], messages = [], usages = [], blobs = [], meta = [],
     lives = [], tool_calls = [], kvs = []\<rparr>"

text \<open>Primary keys.\<close>

definition event_key :: "event_row \<Rightarrow> session_id \<times> nat" where
  "event_key r = (ev_session r, ev_seq r)"

definition message_key :: "message_row \<Rightarrow> session_id \<times> nat" where
  "message_key r = (m_session r, m_seq r)"

definition usage_key :: "usage_row \<Rightarrow> session_id \<times> nat" where
  "usage_key r = (us_session r, us_seq r)"

definition tool_key :: "tool_row \<Rightarrow> session_id \<times> call_id" where
  "tool_key r = (tc_session r, tc_call r)"

definition kv_key3 :: "kv_row \<Rightarrow> string \<times> string \<times> string" where
  "kv_key3 r = (kv_plugin r, kv_scope r, kv_key r)"

text \<open>
  The largest database sqlite documents (4294967294 pages of 65536 bytes, the ``281 terabytes'' of its
  limits) is smaller than \<open>2 ^ 48\<close> bytes, and a row takes at least one: an \<^verbatim>\<open>INSERT\<close> into a table with that
  many rows fails with \<^verbatim>\<open>SQLITE_FULL\<close>. The log's \<^verbatim>\<open>INSERT\<close>s have this failure beside the one of the
  primary key, since it is what keeps a sequence number, a signed 64-bit column, from ever wrapping.
\<close>

definition sqlite_max_rows :: int where "sqlite_max_rows = 281474976710656"

definition insert_event :: "event_row \<Rightarrow> event_row list \<Rightarrow> event_row list option" where
  "insert_event r evs = (if sqlite_max_rows \<le> int (length evs) then None else sql_insert event_key r evs)"

lemma insert_event_iff:
  "insert_event r evs = Some t \<longleftrightarrow>
     int (length evs) < sqlite_max_rows \<and> event_key r \<notin> event_key ` set evs \<and> t = evs @ [r]"
  by (auto simp: insert_event_def sql_insert_def image_iff)

lemma insert_event_None_iff:
  "insert_event r evs = None \<longleftrightarrow> sqlite_max_rows \<le> int (length evs) \<or> event_key r \<in> event_key ` set evs"
  by (auto simp: insert_event_def sql_insert_def image_iff)

interpretation sessions_pk: keyed_table s_id .
interpretation events_pk: keyed_table event_key .
interpretation messages_pk: keyed_table message_key .
interpretation usages_pk: keyed_table usage_key .
interpretation blobs_pk: keyed_table b_hash .
interpretation meta_pk: keyed_table "fst :: string \<times> string \<Rightarrow> string" .
interpretation lives_pk: keyed_table l_session .
interpretation tools_pk: keyed_table tool_key .
interpretation kvs_pk: keyed_table kv_key3 .

subsection \<open>The connection\<close>

datatype store_err =
    Transient_Rejected
  | Begin_Failed
  | No_Session session_id
  | Serialize_Failed
  | Insert_Failed
  | Foreign_Key
  | Bad_Statement string
  | No_Model
  | Decode_Failed
  | Add_Overflow
  | Sum_Overflow
  | Origin_Of nat

text \<open>
  \<open>Insert_Failed\<close> is a clash of keys or a full database, \<open>Add_Overflow\<close> the addition of two totals leaving
  64 bits (a panic in a checked build), \<open>Sum_Overflow\<close> the aggregate's own error, \<open>Bad_Statement\<close> a statement that names a table the schema does not have.
\<close>

record store =
  st_db :: db
  st_txn :: "db option"
  st_specs :: "(string \<times> model_spec) list"
  st_notified :: "(session_id \<times> event) list"

definition fresh_store :: store where
  "fresh_store = \<lparr>st_db = empty_db, st_txn = None, st_specs = [], st_notified = []\<rparr>"

text \<open>\<open>st_notified\<close> is what the after-append observer was called with, in order.\<close>

definition begin_immediate :: "store \<Rightarrow> store option" where
  "begin_immediate st = (if st_txn st = None then Some (st\<lparr>st_txn := Some (st_db st)\<rparr>) else None)"

definition commit :: "store \<Rightarrow> store" where
  "commit st = st\<lparr>st_txn := None\<rparr>"

definition rollback :: "store \<Rightarrow> store" where
  "rollback st = (case st_txn st of Some d \<Rightarrow> st\<lparr>st_db := d, st_txn := None\<rparr> | None \<Rightarrow> st)"

text \<open>What the file holds when the process dies: an open transaction is undone on the next open.\<close>

definition durable_db :: "store \<Rightarrow> db" where
  "durable_db st = (case st_txn st of Some d \<Rightarrow> d | None \<Rightarrow> st_db st)"

lemma begin_immediate_iff:
  "begin_immediate st = Some st1 \<longleftrightarrow> st_txn st = None \<and> st1 = st\<lparr>st_txn := Some (st_db st)\<rparr>"
  by (auto simp: begin_immediate_def)

lemma rollback_begin: "begin_immediate st = Some st1 \<Longrightarrow> rollback (st1\<lparr>st_db := d\<rparr>) = st"
  by (cases st) (auto simp: begin_immediate_iff rollback_def)

lemma rollback_begin0: "begin_immediate st = Some st1 \<Longrightarrow> rollback st1 = st"
  by (cases st) (auto simp: begin_immediate_iff rollback_def)

definition session_of :: "session_id \<Rightarrow> db \<Rightarrow> session_row option" where
  "session_of sid d = sql_first (\<lambda>r. s_id r = sid) (sessions d)"

definition head_of :: "session_id \<Rightarrow> db \<Rightarrow> nat option" where
  "head_of sid d = map_option s_head (session_of sid d)"

text \<open>The rows of one session, in the order the tables hold them.\<close>

definition events_of :: "session_id \<Rightarrow> db \<Rightarrow> event_row list" where
  "events_of sid d = sql_select (\<lambda>r. ev_session r = sid) (events d)"

definition messages_of :: "session_id \<Rightarrow> db \<Rightarrow> message_row list" where
  "messages_of sid d = sql_select (\<lambda>r. m_session r = sid) (messages d)"

definition usages_of :: "session_id \<Rightarrow> db \<Rightarrow> usage_row list" where
  "usages_of sid d = sql_select (\<lambda>r. us_session r = sid) (usages d)"

lemma session_of_SomeD: "session_of sid d = Some r \<Longrightarrow> r \<in> set (sessions d) \<and> s_id r = sid"
  by (auto simp: session_of_def dest: sql_first_SomeD)

lemma session_of_None: "session_of sid d = None \<longleftrightarrow> sid \<notin> s_id ` set (sessions d)"
  by (auto simp: session_of_def sql_first_None)

text \<open>\<^verbatim>\<open>COALESCE(SUM(c), 0)\<close>: the aggregate fails when a partial sum leaves the 64-bit range.\<close>

fun sum_from :: "int \<Rightarrow> int list \<Rightarrow> int option" where
  "sum_from acc [] = Some acc"
| "sum_from acc (x # xs) = (if in_i64 (acc + x) then sum_from (acc + x) xs else None)"

definition sql_sum :: "int list \<Rightarrow> store_err + int" where
  "sql_sum xs = (case sum_from 0 xs of Some n \<Rightarrow> Inr n | None \<Rightarrow> Inl Sum_Overflow)"

lemma sum_from_SomeD: "sum_from acc xs = Some n \<Longrightarrow> in_i64 acc \<Longrightarrow> n = acc + sum_list xs \<and> in_i64 n"
proof (induction xs arbitrary: acc)
  case (Cons x xs)
  then have "n = (acc + x) + sum_list xs \<and> in_i64 n"
    by (simp split: if_splits)
  then show ?case by (metis add.assoc sum_list.Cons)
qed simp

lemma sql_sum_InrD: "sql_sum xs = Inr n \<Longrightarrow> n = sum_list xs \<and> in_i64 n"
  using sum_from_SomeD [of 0 xs n]
  by (auto simp: sql_sum_def in_i64_def i64_min_def i64_max_def split: option.splits)

subsection \<open>Preferences and the plugin key-value table\<close>

definition projection_version :: string where
  "projection_version = ''2''"

definition get_pref :: "string \<Rightarrow> store \<Rightarrow> string option" where
  "get_pref k st = map_option snd (sql_first (\<lambda>r. fst r = k) (meta (st_db st)))"

definition set_pref_db :: "string \<Rightarrow> string \<Rightarrow> db \<Rightarrow> db" where
  "set_pref_db k v d = d\<lparr>meta := sql_replace fst (k, v) (meta d)\<rparr>"

definition set_pref :: "string \<Rightarrow> string \<Rightarrow> store \<Rightarrow> store" where
  "set_pref k v st = st\<lparr>st_db := set_pref_db k v (st_db st)\<rparr>"

definition kv_get :: "string \<Rightarrow> string \<Rightarrow> string \<Rightarrow> store \<Rightarrow> json option" where
  "kv_get p sc k st = map_option kv_value (sql_first (\<lambda>r. kv_key3 r = (p, sc, k)) (kvs (st_db st)))"

definition kv_set :: "int \<Rightarrow> string \<Rightarrow> string \<Rightarrow> string \<Rightarrow> json \<Rightarrow> store \<Rightarrow> store" where
  "kv_set now p sc k v st =
     st\<lparr>st_db := (st_db st)\<lparr>kvs := sql_replace kv_key3
       \<lparr>kv_plugin = p, kv_scope = sc, kv_key = k, kv_value = v, kv_updated_at = now\<rparr> (kvs (st_db st))\<rparr>\<rparr>"

definition kv_del :: "string \<Rightarrow> string \<Rightarrow> string \<Rightarrow> store \<Rightarrow> store" where
  "kv_del p sc k st =
     st\<lparr>st_db := (st_db st)\<lparr>kvs := sql_delete (\<lambda>r. kv_key3 r = (p, sc, k)) (kvs (st_db st))\<rparr>\<rparr>"

definition kv_del_scope :: "string \<Rightarrow> string \<Rightarrow> store \<Rightarrow> store" where
  "kv_del_scope p sc st =
     st\<lparr>st_db := (st_db st)\<lparr>kvs := sql_delete (\<lambda>r. kv_plugin r = p \<and> kv_scope r = sc) (kvs (st_db st))\<rparr>\<rparr>"

text \<open>
  \<^verbatim>\<open>PluginKv\<close> (\<^verbatim>\<open>kn9t-core/src/traits.rs\<close>): a map from (plugin, scope, key) to a value, in which a
  plugin reaches its own namespace only.
\<close>

locale plugin_kv =
  fixes get :: "string \<Rightarrow> string \<Rightarrow> string \<Rightarrow> 's \<Rightarrow> json option"
    and put :: "string \<Rightarrow> string \<Rightarrow> string \<Rightarrow> json \<Rightarrow> 's \<Rightarrow> 's"
    and del :: "string \<Rightarrow> string \<Rightarrow> string \<Rightarrow> 's \<Rightarrow> 's"
    and del_scope :: "string \<Rightarrow> string \<Rightarrow> 's \<Rightarrow> 's"
  assumes get_put: "get p sc k (put p' sc' k' v s) =
      (if (p, sc, k) = (p', sc', k') then Some v else get p sc k s)"
    and get_del: "get p sc k (del p' sc' k' s) =
      (if (p, sc, k) = (p', sc', k') then None else get p sc k s)"
    and get_del_scope: "get p sc k (del_scope p' sc' s) =
      (if (p, sc) = (p', sc') then None else get p sc k s)"
begin

lemma namespaces_apart:
  assumes "p \<noteq> q"
  shows "get p sc k (put q sc' k' v s) = get p sc k s"
    and "get p sc k (del q sc' k' s) = get p sc k s"
    and "get p sc k (del_scope q sc' s) = get p sc k s"
  using assms by (simp_all add: get_put get_del get_del_scope)

lemma put_put: "get p sc k (put q t j v (put q t j w s)) = get p sc k (put q t j v s)"
  by (simp add: get_put)

end

lemma sql_first_filter:
  "sql_first P (filter Q t) = sql_first (\<lambda>x. Q x \<and> P x) t"
  by (induction t) (auto simp: sql_first_def)

lemma sql_first_append:
  "sql_first P (t @ u) = (case sql_first P t of Some r \<Rightarrow> Some r | None \<Rightarrow> sql_first P u)"
  by (induction t) (auto simp: sql_first_def)

lemma sql_first_cong:
  "(\<And>x. x \<in> set t \<Longrightarrow> P x = Q x) \<Longrightarrow> sql_first P t = sql_first Q t"
  by (induction t) (auto simp: sql_first_def)

lemma kv_get_put:
  "kv_get p sc k (kv_set now p' sc' k' v st) =
     (if (p, sc, k) = (p', sc', k') then Some v else kv_get p sc k st)"
  by (simp add: kv_get_def kv_set_def kvs_pk.first_replace) (auto simp: kv_key3_def)

lemma kv_get_del:
  "kv_get p sc k (kv_del p' sc' k' st) =
     (if (p, sc, k) = (p', sc', k') then None else kv_get p sc k st)"
  by (auto simp: kv_get_def kv_del_def sql_delete_def sql_first_filter sql_first_None
      intro!: arg_cong [of _ _ "map_option kv_value"] sql_first_cong)

lemma kv_get_del_scope:
  "kv_get p sc k (kv_del_scope p' sc' st) =
     (if (p, sc) = (p', sc') then None else kv_get p sc k st)"
  by (auto simp: kv_get_def kv_del_scope_def sql_delete_def sql_first_filter sql_first_None kv_key3_def
      intro!: arg_cong [of _ _ "map_option kv_value"] sql_first_cong)

interpretation sqlite_kv: plugin_kv kv_get "kv_set now" kv_del kv_del_scope for now
  by unfold_locales (rule kv_get_put kv_get_del kv_get_del_scope)+

subsection \<open>Model specifications\<close>

text \<open>The map is keyed by provider, colon, id.\<close>

definition spec_key :: "model_ref \<Rightarrow> string" where
  "spec_key m = mr_provider m @ '':'' @ mr_id m"

definition register_model_spec :: "model_spec \<Rightarrow> store \<Rightarrow> store" where
  "register_model_spec sp st =
     st\<lparr>st_specs := sql_replace fst (spec_key (ms_ref sp), sp) (st_specs st)\<rparr>"

interpretation specs_pk: keyed_table "fst :: string \<times> model_spec \<Rightarrow> string" .

definition lookup_spec :: "model_ref \<Rightarrow> store \<Rightarrow> model_spec option" where
  "lookup_spec m st = map_option snd (sql_first (\<lambda>r. fst r = spec_key m) (st_specs st))"

text \<open>\<^verbatim>\<open>... AND kind=k ORDER BY seq DESC LIMIT 1\<close>.\<close>

definition last_event_of_kind :: "session_id \<Rightarrow> string \<Rightarrow> db \<Rightarrow> event_row option" where
  "last_event_of_kind sid k d =
     sql_last_by ev_seq (sql_select (\<lambda>r. ev_kind r = k) (events_of sid d))"

definition changed_model :: "msg_id \<Rightarrow> session_id \<Rightarrow> db \<Rightarrow> model_ref option" where
  "changed_model new_id sid d =
     (case last_event_of_kind sid ''ModelChanged'' d of
        Some r \<Rightarrow> (case dec_event new_id (ev_payload r) of Some (ModelChanged _ m) \<Rightarrow> Some m | _ \<Rightarrow> None)
      | None \<Rightarrow> None)"

definition forked_model :: "session_id \<Rightarrow> db \<Rightarrow> model_ref option" where
  "forked_model sid d =
     (case session_of sid d of
        Some r \<Rightarrow> Option.bind (s_model r) dec_model_ref
      | None \<Rightarrow> None)"

definition get_model_spec_for_session :: "msg_id \<Rightarrow> session_id \<Rightarrow> store \<Rightarrow> model_spec option" where
  "get_model_spec_for_session new_id sid st =
     (case changed_model new_id sid (st_db st) of
        Some m \<Rightarrow> lookup_spec m st
      | None \<Rightarrow> (case forked_model sid (st_db st) of Some m \<Rightarrow> lookup_spec m st | None \<Rightarrow> None))"

lemma lookup_register:
  "lookup_spec m (register_model_spec sp st) =
     (if spec_key m = spec_key (ms_ref sp) then Some sp else lookup_spec m st)"
  by (simp add: lookup_spec_def register_model_spec_def specs_pk.first_replace)

subsection \<open>The attach snapshot\<close>

text \<open>
  Durable payloads after \<open>from\<close> together with the head, under one lock. A client resumes live
  delivery at the head, so no event falls between the two.
\<close>

definition read_attach_snapshot :: "session_id \<Rightarrow> nat \<Rightarrow> store \<Rightarrow> json list \<times> nat" where
  "read_attach_snapshot sid from st =
     (map ev_payload (sort_key ev_seq
        (sql_select (\<lambda>r. wrap_i64 (int from) < int (ev_seq r)) (events_of sid (st_db st)))),
      (case head_of sid (st_db st) of Some n \<Rightarrow> n | None \<Rightarrow> 0))"

end
