(* ===== verification/Rust_Str.thy ===== *)
theory Rust_Str
  imports Prelude
begin

text \<open>
  The methods of \<^verbatim>\<open>str\<close> the code uses: \<^verbatim>\<open>find\<close>, \<^verbatim>\<open>starts_with\<close>, \<^verbatim>\<open>ends_with\<close> and \<^verbatim>\<open>split\<close>, on
  any lists: on the bytes of a string and on its characters. UTF-8 is self-synchronizing, so
  searching bytes for a string finds what searching characters does.
\<close>

subsection \<open>Search\<close>

text \<open>\<^verbatim>\<open>str::find\<close> of a substring: the first index.\<close>

fun find_sub :: "'a list \<Rightarrow> 'a list \<Rightarrow> nat option" where
  "find_sub p [] = (if p = [] then Some 0 else None)"
| "find_sub p (c # s) =
     (if take (length p) (c # s) = p then Some 0 else map_option Suc (find_sub p s))"

lemma find_sub_SomeD:
  "find_sub p s = Some i \<Longrightarrow>
   i + length p \<le> length s \<and> take (length p) (drop i s) = p \<and>
   (\<forall>j < i. take (length p) (drop j s) \<noteq> p)"
proof (induction s arbitrary: i)
  case (Cons c s)
  show ?case
  proof (cases "take (length p) (c # s) = p")
    case True
    then have "length p \<le> length (c # s)"
      by (metis length_take min.cobounded1)
    with True Cons.prems show ?thesis by simp
  next
    case False
    with Cons.prems obtain k where k: "find_sub p s = Some k" "i = Suc k"
      by auto
    from Cons.IH [OF k(1)] k(2) False show ?thesis
      by (auto simp: less_Suc_eq_0_disj)
  qed
qed (auto split: if_splits)

lemma find_sub_None:
  "find_sub p s = None \<Longrightarrow> take (length p) (drop i s) = p \<Longrightarrow> length s < i"
proof (induction s arbitrary: i)
  case (Cons c s)
  then show ?case
    by (cases i) (auto split: if_splits)
qed (auto split: if_splits)

definition starts_with :: "'a list \<Rightarrow> 'a list \<Rightarrow> bool" where
  "starts_with s p \<longleftrightarrow> take (length p) s = p"

definition ends_with :: "'a list \<Rightarrow> 'a list \<Rightarrow> bool" where
  "ends_with s p \<longleftrightarrow> length p \<le> length s \<and> drop (length s - length p) s = p"

lemma starts_with_iff: "starts_with s p \<longleftrightarrow> (\<exists>w. s = p @ w)"
  unfolding starts_with_def by (metis append_eq_conv_conj append_take_drop_id)

lemma ends_with_iff: "ends_with s p \<longleftrightarrow> (\<exists>u. s = u @ p)"
  unfolding ends_with_def by (metis append_eq_conv_conj append_take_drop_id diff_add_inverse2 le_add2 length_append)

subsection \<open>Splitting\<close>

text \<open>\<^verbatim>\<open>split(c)\<close>: always at least one part.\<close>

fun split_on :: "'a \<Rightarrow> 'a list \<Rightarrow> 'a list list" where
  "split_on c [] = [[]]"
| "split_on c (x # s) =
     (if x = c then [] # split_on c s
      else (case split_on c s of [] \<Rightarrow> [[x]] | p # ps \<Rightarrow> (x # p) # ps))"

fun join_with :: "'a \<Rightarrow> 'a list list \<Rightarrow> 'a list" where
  "join_with c [] = []"
| "join_with c [p] = p"
| "join_with c (p # q # ps) = p @ c # join_with c (q # ps)"

lemma split_on_not_Nil [simp]: "split_on c s \<noteq> []"
  by (induction s) (auto split: list.splits)

lemma join_split: "join_with c (split_on c s) = s"
proof (induction s)
  case (Cons x s)
  obtain p ps where "split_on c s = p # ps" by (cases "split_on c s") auto
  with Cons show ?case by (cases ps) auto
qed simp

lemma split_on_parts: "p \<in> set (split_on c s) \<Longrightarrow> c \<notin> set p"
  by (induction s arbitrary: p) (auto split: list.splits if_splits)

lemma length_split_on: "length (split_on c s) = count_list s c + 1"
  by (induction s) (auto split: list.splits)

definition str_contains :: "'a list \<Rightarrow> 'a list \<Rightarrow> bool" where
  "str_contains s p \<longleftrightarrow> find_sub p s \<noteq> None"

lemma str_contains_iff: "str_contains s p \<longleftrightarrow> (\<exists>u w. s = u @ p @ w)"
proof
  assume "str_contains s p"
  then obtain i where "find_sub p s = Some i" by (auto simp: str_contains_def)
  from find_sub_SomeD [OF this] show "\<exists>u w. s = u @ p @ w"
    by (metis append_take_drop_id)
next
  assume "\<exists>u w. s = u @ p @ w"
  then obtain u w where s: "s = u @ p @ w" by blast
  then have "take (length p) (drop (length u) s) = p" "length u \<le> length s" by simp_all
  then show "str_contains s p" using find_sub_None [of p s "length u"] by (auto simp: str_contains_def)
qed

subsection \<open>Characters and numbers\<close>

definition ascii_lower :: "char \<Rightarrow> char" where
  "ascii_lower c =
     (let n = of_char c :: nat in if 65 \<le> n \<and> n \<le> 90 then char_of (n + 32) else c)"

text \<open>Display of an unsigned number.\<close>

definition digit_char :: "nat \<Rightarrow> char" where
  "digit_char d = char_of (48 + d)"

fun show_nat :: "nat \<Rightarrow> string" where
  "show_nat n = (if n < 10 then [digit_char n] else show_nat (n div 10) @ [digit_char (n mod 10)])"

declare show_nat.simps [simp del]

fun digits_value :: "nat \<Rightarrow> string \<Rightarrow> nat" where
  "digits_value acc [] = acc"
| "digits_value acc (c # s) = digits_value (10 * acc + (of_char c - 48)) s"

lemma digits_value_append: "digits_value acc (s @ t) = digits_value (digits_value acc s) t"
  by (induction acc s rule: digits_value.induct) auto

lemma digits_value_show_nat: "digits_value 0 (show_nat n) = n"
proof (induction n rule: show_nat.induct)
  case (1 n)
  have digit: "of_char (digit_char d) = 48 + d" if "d < 10" for d
    using that by (simp add: digit_char_def)
  show ?case
  proof (cases "n < 10")
    case False
    then show ?thesis
      using 1 digit [of "n mod 10"] by (simp add: show_nat.simps [of n] digits_value_append)
  qed (simp add: show_nat.simps digit)
qed

lemma show_nat_inject [simp]: "show_nat m = show_nat n \<longleftrightarrow> m = n"
  by (metis digits_value_show_nat)

subsection \<open>White space\<close>

text \<open>The characters of \<^verbatim>\<open>char::is_whitespace\<close>, in UTF-8.\<close>

definition spaces :: "string list" where
  "spaces = map (map char_of)
     ([[9], [10], [11], [12], [13], [32 :: nat], [194, 133], [194, 160], [225, 154, 128]] @
      map (\<lambda>b. [226, 128, b]) [128..<139] @
      [[226, 128, 168], [226, 128, 169], [226, 128, 175], [226, 129, 159], [227, 128, 128]])"

lemma spaces_not_Nil: "p \<in> set spaces \<Longrightarrow> p \<noteq> []"
  by (auto simp: spaces_def)

function trim_start :: "string \<Rightarrow> string" where
  "trim_start s =
     (case List.find (\<lambda>p. starts_with s p) spaces of
        Some p \<Rightarrow> trim_start (drop (length p) s)
      | None \<Rightarrow> s)"
  by pat_completeness auto
termination
proof (relation "measure length", goal_cases)
  case (2 s p)
  then have p: "p \<in> set spaces" "starts_with s p" by (auto simp: find_Some_iff)
  then have "p \<noteq> []" using spaces_not_Nil by blast
  moreover have "length p \<le> length s" using p(2) by (auto simp: starts_with_iff)
  ultimately show ?case by (cases p) auto
qed simp

function trim_end :: "string \<Rightarrow> string" where
  "trim_end s =
     (case List.find (\<lambda>p. ends_with s p) spaces of
        Some p \<Rightarrow> trim_end (take (length s - length p) s)
      | None \<Rightarrow> s)"
  by pat_completeness auto
termination
proof (relation "measure length", goal_cases)
  case (2 s p)
  then have p: "p \<in> set spaces" "ends_with s p" by (auto simp: find_Some_iff)
  then have "p \<noteq> []" using spaces_not_Nil by blast
  moreover have "length p \<le> length s" using p(2) by (auto simp: ends_with_iff)
  ultimately show ?case by (cases p) auto
qed simp

declare trim_start.simps [simp del] trim_end.simps [simp del]

definition trim :: "string \<Rightarrow> string" where
  "trim s = trim_end (trim_start s)"

lemma trim_clean:
  "List.find (starts_with s) spaces = None \<Longrightarrow> List.find (ends_with s) spaces = None \<Longrightarrow> trim s = s"
  by (simp add: trim_def trim_start.simps [of s] trim_end.simps [of s])

text \<open>A text between two printing ASCII characters is trimmed to itself.\<close>

definition visible :: "char \<Rightarrow> bool" where
  "visible c \<longleftrightarrow> (32 :: nat) < of_char c \<and> of_char c < (128 :: nat)"

lemma spaces_ends: "p \<in> set spaces \<Longrightarrow> \<not> visible (hd p) \<and> \<not> visible (List.last p)"
  by (auto simp: spaces_def visible_def)

lemma trim_visible:
  assumes "s \<noteq> []" and "visible (hd s)" and "visible (List.last s)"
  shows "trim s = s"
proof (rule trim_clean)
  show "List.find (starts_with s) spaces = None"
    unfolding find_None_iff
    using assms spaces_ends spaces_not_Nil by (metis append_is_Nil_conv hd_append starts_with_iff)
  show "List.find (ends_with s) spaces = None"
    unfolding find_None_iff
    using assms spaces_ends spaces_not_Nil by (metis last_appendR ends_with_iff)
qed

definition strip_prefix :: "'a list \<Rightarrow> 'a list \<Rightarrow> 'a list option" where
  "strip_prefix p s = (if starts_with s p then Some (drop (length p) s) else None)"

subsection \<open>Digits\<close>

lemma show_nat_digits: "c \<in> set (show_nat n) \<Longrightarrow> \<exists>d < 10. c = digit_char d"
proof (induction n rule: show_nat.induct)
  case (1 n)
  then show ?case
    by (cases "n < 10") (auto simp: show_nat.simps [of n] intro: exI [of _ "n mod 10"])
qed

lemma digit_char_below: "of_char c < (48 :: nat) \<Longrightarrow> \<forall>d < 10. c \<noteq> digit_char d"
  by (auto simp: digit_char_def)

text \<open>A number ends at the first character that is no digit.\<close>

lemma show_nat_sep:
  assumes "show_nat m @ c # s = show_nat n @ c # t" and "\<forall>d < 10. c \<noteq> digit_char d"
  shows "m = n \<and> s = t"
proof -
  have digits: "\<forall>x \<in> set (show_nat k). x \<noteq> c" for k
    using assms(2) show_nat_digits by blast
  have split: "takeWhile (\<lambda>x. x \<noteq> c) (show_nat k @ c # u) = show_nat k"
    "dropWhile (\<lambda>x. x \<noteq> c) (show_nat k @ c # u) = c # u" for k u
    using digits by (simp_all add: takeWhile_append2 dropWhile_append2)
  have "show_nat m = show_nat n" using split(1) [of m s] split(1) [of n t] assms(1) by metis
  moreover have "c # s = c # t" using split(2) [of m s] split(2) [of n t] assms(1) by metis
  ultimately show ?thesis by simp
qed

end
