(* ===== verification/Store_Project.thy ===== *)
theory Store_Project
  imports Store_Db Rust_Str
begin

text \<open>
  \<^verbatim>\<open>kn9t-store/src/project.rs\<close> and \<^verbatim>\<open>reproject.rs\<close>: what one durable event adds to the \<open>messages\<close> and
  \<open>usages\<close> tables, the blob reference counts, and the rebuild of both tables from the log. The text
  of a JSON column, where the code searches it for \<^verbatim>\<open>sha256:\<close> references, is the parameter
  \<open>text_of\<close>: it stands for \<^verbatim>\<open>serde_json::to_string\<close>.
\<close>

subsection \<open>References in a text\<close>

definition is_hexdigit :: "char \<Rightarrow> bool" where
  "is_hexdigit c \<longleftrightarrow>
     (let n = (of_char c :: nat) in 48 \<le> n \<and> n \<le> 57 \<or> 65 \<le> n \<and> n \<le> 70 \<or> 97 \<le> n \<and> n \<le> 102)"

definition sha_prefix :: string where
  "sha_prefix = ''sha256:''"

function extract_sha256_refs :: "string \<Rightarrow> string list" where
  "extract_sha256_refs s =
     (case find_sub sha_prefix s of
        None \<Rightarrow> []
      | Some i \<Rightarrow>
          (let rest = drop (i + length sha_prefix) s; h = takeWhile is_hexdigit rest
           in (if h \<noteq> [] then [h] else []) @
              extract_sha256_refs (drop (i + length sha_prefix + length h) s)))"
  by pat_completeness auto
termination
  by (relation "measure length") (auto dest!: find_sub_SomeD simp: sha_prefix_def)

declare extract_sha256_refs.simps [simp del]

subsection \<open>Token estimates\<close>

fun nested_len :: "content \<Rightarrow> nat" where
  "nested_len (Text t) = length t"
| "nested_len _ = 20"

fun content_len :: "content \<Rightarrow> nat" where
  "content_len (Text t) = length t"
| "content_len (ToolCall _ n a) = length n + length a"
| "content_len (ToolResult _ cs _) = sum_list (map nested_len cs)"
| "content_len (Thinking t _) = length t"
| "content_len (Image _ _) = 1000"

definition estimate_tokens :: "content list \<Rightarrow> int" where
  "estimate_tokens cs = int (max (sum_list (map content_len cs) div 4) 1)"

definition estimate_tokens_json :: "json \<Rightarrow> int" where
  "estimate_tokens_json j =
     estimate_tokens (case dec_contents j of Some cs \<Rightarrow> cs | None \<Rightarrow> [])"

lemma estimate_tokens_pos: "1 \<le> estimate_tokens cs"
  by (simp add: estimate_tokens_def)

subsection \<open>Projection of one event\<close>

datatype row =
    Row_Message session_id nat string json bool
  | Row_Usage usage_row
  | Row_Compacted session_id nat nat nat string json

definition price_to_usd :: "price \<Rightarrow> price_usd" where
  "price_to_usd p =
     \<lparr>pu_input = micros_to_usd (p_input p), pu_output = micros_to_usd (p_output p),
      pu_cache_read = micros_to_usd (p_cache_read p), pu_cache_write = micros_to_usd (p_cache_write p)\<rparr>"

definition usage_micros :: "usage_record \<Rightarrow> int" where
  "usage_micros u =
     (if ur_cost_micros u \<noteq> 0 then ur_cost_micros u else cost_micros (ur_tokens u) (ur_price u))"

definition usage_row_of :: "session_id \<Rightarrow> int \<Rightarrow> nat \<Rightarrow> usage_record \<Rightarrow> usage_row" where
  "usage_row_of sid ts n u =
     \<lparr>us_session = sid, us_seq = n, us_ts = ts, us_provider = ur_provider u, us_model = ur_model u,
      us_kind = usage_kind_str (ur_kind u), us_tokens = ur_tokens u,
      us_price_usd = price_to_usd (ur_price u), us_price_micros = ur_price u,
      us_cost_usd = micros_to_usd (usage_micros u), us_cost_micros = usage_micros u,
      us_estimated = ur_estimated u\<rparr>"

definition project :: "session_id \<Rightarrow> int \<Rightarrow> event \<Rightarrow> row list" where
  "project sid ts e =
     (case e of
        MessageAppended n m \<Rightarrow>
          [Row_Message sid n (role_str (msg_role m)) (enc_contents (msg_content m)) (msg_silent m)]
      | UsageRecorded n u \<Rightarrow> [Row_Usage (usage_row_of sid ts n u)]
      | Compacted n r s \<Rightarrow>
          [Row_Compacted sid n (sr_start r) (sr_end r) (role_str (msg_role s)) (enc_contents (msg_content s))]
      | _ \<Rightarrow> [])"

text \<open>The two projection tables, as the rows act on them. \<open>seq as i64\<close> can wrap only in a range.\<close>

definition in_replaced :: "session_id \<Rightarrow> nat \<Rightarrow> nat \<Rightarrow> message_row \<Rightarrow> bool" where
  "in_replaced sid a b r \<longleftrightarrow>
     m_session r = sid \<and> wrap_i64 (int a) \<le> int (m_seq r) \<and> int (m_seq r) \<le> wrap_i64 (int b)"

fun row_messages :: "row \<Rightarrow> message_row list \<Rightarrow> message_row list" where
  "row_messages (Row_Message sid n rl c sl) t =
     sql_replace message_key
       \<lparr>m_session = sid, m_seq = n, m_role = rl, m_content = c, m_silent = sl\<rparr> t"
| "row_messages (Row_Usage _) t = t"
| "row_messages (Row_Compacted sid n a b rl c) t =
     sql_replace message_key
       \<lparr>m_session = sid, m_seq = n, m_role = rl, m_content = c, m_silent = False\<rparr>
       (sql_delete (in_replaced sid a b) t)"

fun row_usages :: "row \<Rightarrow> usage_row list \<Rightarrow> usage_row list" where
  "row_usages (Row_Usage u) t = sql_replace usage_key u t"
| "row_usages _ t = t"

definition write_rows :: "row list \<Rightarrow> db \<Rightarrow> db" where
  "write_rows rows d =
     d\<lparr>messages := fold row_messages rows (messages d), usages := fold row_usages rows (usages d)\<rparr>"

lemma write_rows_frame [frame_simps, simp]:
  "sessions (write_rows rows d) = sessions d" "events (write_rows rows d) = events d"
  "blobs (write_rows rows d) = blobs d" "meta (write_rows rows d) = meta d"
  "lives (write_rows rows d) = lives d" "tool_calls (write_rows rows d) = tool_calls d"
  "kvs (write_rows rows d) = kvs d"
  by (simp_all add: write_rows_def)

fun row_session :: "row \<Rightarrow> session_id" where
  "row_session (Row_Message sid _ _ _ _) = sid"
| "row_session (Row_Usage u) = us_session u"
| "row_session (Row_Compacted sid _ _ _ _ _) = sid"

lemma project_session: "r \<in> set (project sid ts e) \<Longrightarrow> row_session r = sid"
  by (cases e) (auto simp: project_def usage_row_of_def)

subsection \<open>Projection acts on one session\<close>

lemma filter_replace_other:
  assumes "\<not> P r" and "\<And>x. k x = k r \<Longrightarrow> P x = P r"
  shows "filter P (sql_replace k r t) = filter P t"
proof -
  have "k x \<noteq> k r \<and> P x \<longleftrightarrow> P x" for x
    using assms by metis
  then show ?thesis
    using assms(1) by (simp add: sql_replace_def)
qed

lemma filter_replace_same:
  "P r \<Longrightarrow> filter P (sql_replace k r t) = sql_replace k r (filter P t)"
  by (induction t) (auto simp: sql_replace_def)

lemma filter_delete: "filter P (sql_delete Q t) = sql_delete Q (filter P t)"
  by (induction t) (auto simp: sql_delete_def)

lemma delete_none: "(\<And>x. x \<in> set t \<Longrightarrow> \<not> Q x) \<Longrightarrow> sql_delete Q t = t"
  by (simp add: sql_delete_def)

lemma filter_replace_session:
  "m_session m \<noteq> s \<Longrightarrow>
   filter (\<lambda>x. m_session x = s) (sql_replace message_key m t) = filter (\<lambda>x. m_session x = s) t"
  "us_session u \<noteq> s \<Longrightarrow>
   filter (\<lambda>x. us_session x = s) (sql_replace usage_key u t') = filter (\<lambda>x. us_session x = s) t'"
   apply (rule filter_replace_other; auto simp: message_key_def)
  apply (rule filter_replace_other; auto simp: usage_key_def)
  done

lemma row_messages_other:
  "row_session r \<noteq> s \<Longrightarrow>
   filter (\<lambda>x. m_session x = s) (row_messages r t) = filter (\<lambda>x. m_session x = s) t"
  by (cases r)
    (auto simp: filter_replace_session filter_delete in_replaced_def intro!: delete_none)

lemma row_usages_other:
  "row_session r \<noteq> s \<Longrightarrow>
   filter (\<lambda>x. us_session x = s) (row_usages r t) = filter (\<lambda>x. us_session x = s) t"
  by (cases r) (auto simp: filter_replace_session)

lemma row_messages_same:
  "row_session r = s \<Longrightarrow>
   filter (\<lambda>x. m_session x = s) (row_messages r t) = row_messages r (filter (\<lambda>x. m_session x = s) t)"
  by (cases r) (auto simp: filter_replace_same filter_delete)

lemma row_usages_same:
  "row_session r = s \<Longrightarrow>
   filter (\<lambda>x. us_session x = s) (row_usages r t) = row_usages r (filter (\<lambda>x. us_session x = s) t)"
  by (cases r) (auto simp: filter_replace_same)

lemma fold_rows_filter:
  assumes "\<And>r. r \<in> set rows \<Longrightarrow> row_session r = sid"
  shows "filter (\<lambda>x. m_session x = s) (fold row_messages rows t) =
      (if s = sid then fold row_messages rows (filter (\<lambda>x. m_session x = s) t)
       else filter (\<lambda>x. m_session x = s) t)"
    and "filter (\<lambda>x. us_session x = s) (fold row_usages rows u) =
      (if s = sid then fold row_usages rows (filter (\<lambda>x. us_session x = s) u)
       else filter (\<lambda>x. us_session x = s) u)"
  using assms
  by (induction rows arbitrary: t u)
    (auto simp: row_messages_other row_messages_same row_usages_other row_usages_same)

lemma messages_of_project:
  "messages_of s (write_rows (project sid ts e) d) =
     (if s = sid then fold row_messages (project sid ts e) (messages_of s d) else messages_of s d)"
  by (simp add: messages_of_def sql_select_def write_rows_def fold_rows_filter [OF project_session])

lemma usages_of_project:
  "usages_of s (write_rows (project sid ts e) d) =
     (if s = sid then fold row_usages (project sid ts e) (usages_of s d) else usages_of s d)"
  by (simp add: usages_of_def sql_select_def write_rows_def fold_rows_filter [OF project_session])

subsection \<open>Blob references\<close>

definition incr_blob :: "string \<Rightarrow> blob_row list \<Rightarrow> blob_row list" where
  "incr_blob h = sql_update (\<lambda>b. b_hash b = h) (\<lambda>b. b\<lparr>b_refcount := b_refcount b + 1\<rparr>)"

definition decr_blob :: "string \<Rightarrow> blob_row list \<Rightarrow> blob_row list" where
  "decr_blob h t =
     sql_delete (\<lambda>b. b_hash b = h \<and> b_refcount b \<le> 0)
       (sql_update (\<lambda>b. b_hash b = h) (\<lambda>b. b\<lparr>b_refcount := b_refcount b - 1\<rparr>) t)"

definition incr_blob_refs :: "(json \<Rightarrow> string) \<Rightarrow> json \<Rightarrow> db \<Rightarrow> db" where
  "incr_blob_refs text_of cj d =
     d\<lparr>blobs := fold incr_blob (extract_sha256_refs (text_of cj)) (blobs d)\<rparr>"

definition decr_blob_refs :: "(json \<Rightarrow> string) \<Rightarrow> json \<Rightarrow> db \<Rightarrow> db" where
  "decr_blob_refs text_of cj d =
     d\<lparr>blobs := fold decr_blob (extract_sha256_refs (text_of cj)) (blobs d)\<rparr>"

lemma blob_refs_frame [frame_simps, simp]:
  "sessions (incr_blob_refs f cj d) = sessions d" "events (incr_blob_refs f cj d) = events d"
  "messages (incr_blob_refs f cj d) = messages d" "usages (incr_blob_refs f cj d) = usages d"
  "meta (incr_blob_refs f cj d) = meta d" "lives (incr_blob_refs f cj d) = lives d"
  "tool_calls (incr_blob_refs f cj d) = tool_calls d" "kvs (incr_blob_refs f cj d) = kvs d"
  "sessions (decr_blob_refs f cj d) = sessions d" "events (decr_blob_refs f cj d) = events d"
  "messages (decr_blob_refs f cj d) = messages d" "usages (decr_blob_refs f cj d) = usages d"
  "meta (decr_blob_refs f cj d) = meta d" "lives (decr_blob_refs f cj d) = lives d"
  "tool_calls (decr_blob_refs f cj d) = tool_calls d" "kvs (decr_blob_refs f cj d) = kvs d"
  by (simp_all add: incr_blob_refs_def decr_blob_refs_def)

definition refcount :: "string \<Rightarrow> db \<Rightarrow> int option" where
  "refcount h d = map_option b_refcount (sql_first (\<lambda>b. b_hash b = h) (blobs d))"

lemma sql_first_update:
  "(\<And>x. P x \<Longrightarrow> Q (f x) = Q x) \<Longrightarrow>
   sql_first Q (sql_update P f t) = map_option (\<lambda>x. if P x then f x else x) (sql_first Q t)"
  by (induction t) (auto simp: sql_first_def sql_update_def)

lemma refcount_incr_blob:
  "map_option b_refcount (sql_first (\<lambda>b. b_hash b = h) (incr_blob g t)) =
   map_option (\<lambda>n. if h = g then n + 1 else n)
     (map_option b_refcount (sql_first (\<lambda>b. b_hash b = h) t))"
  unfolding incr_blob_def
  by (subst sql_first_update; cases "sql_first (\<lambda>b. b_hash b = h) t")
    (auto dest: sql_first_SomeD)

lemma refcount_incr:
  "refcount h (incr_blob_refs f cj d) =
   map_option (\<lambda>n. n + int (count_list (extract_sha256_refs (f cj)) h)) (refcount h d)"
proof -
  have "map_option b_refcount (sql_first (\<lambda>b. b_hash b = h) (fold incr_blob hs t)) =
        map_option (\<lambda>n. n + int (count_list hs h))
          (map_option b_refcount (sql_first (\<lambda>b. b_hash b = h) t))" for hs t
  proof (induction hs arbitrary: t)
    case (Cons g hs)
    then show ?case
      by (cases "sql_first (\<lambda>b. b_hash b = h) t") (simp_all add: refcount_incr_blob)
  qed (simp add: option.map_ident)
  then show ?thesis
    by (simp add: refcount_def incr_blob_refs_def)
qed

end
