(* ===== verification/Store_Session.thy ===== *)
theory Store_Session
  imports Store_Project
begin

text \<open>
  \<^verbatim>\<open>kn9t-store/src/session.rs\<close>: creating a session, appending a durable event in one transaction, and
  the snapshot. The clock, the id \<^verbatim>\<open>MsgId::new\<close> mints for a message decoded without one, and the text
  of a JSON value are parameters. The head is a signed 64-bit column to
  which \<open>append\<close> adds one unchecked; \<open>append_succeeds\<close> and \<open>log_ok\<close> (in \<^verbatim>\<open>Store_Reproject\<close>) show that a
  database sqlite can hold never gets a head where that wraps.
\<close>

fun event_kind_name :: "event \<Rightarrow> string" where
  "event_kind_name (SessionForked _ _) = ''SessionForked''"
| "event_kind_name (MessageAppended _ _) = ''MessageAppended''"
| "event_kind_name (ModelChanged _ _) = ''ModelChanged''"
| "event_kind_name (Compacted _ _ _) = ''Compacted''"
| "event_kind_name (Handoff _ _ _ _ _) = ''Handoff''"
| "event_kind_name (ToolsToggled _ _) = ''ToolsToggled''"
| "event_kind_name (UsageRecorded _ _) = ''UsageRecorded''"
| "event_kind_name (Ev_TurnStarted _) = ''TurnStarted''"
| "event_kind_name (Ev_TextDelta _ _ _) = ''TextDelta''"
| "event_kind_name (Ev_ThinkingDelta _ _ _) = ''ThinkingDelta''"
| "event_kind_name (Ev_ToolArgsDelta _ _ _) = ''ToolArgsDelta''"
| "event_kind_name (Ev_ToolStarted _ _) = ''ToolStarted''"
| "event_kind_name (Ev_ToolProgress _ _) = ''ToolProgress''"
| "event_kind_name (Ev_ToolFinished _ _) = ''ToolFinished''"
| "event_kind_name (Ev_ApprovalRequest _ _ _ _ _) = ''ApprovalRequest''"
| "event_kind_name (Ev_TurnEnded _ _) = ''TurnEnded''"
| "event_kind_name (Ev_HookFailed _ _ _) = ''HookFailed''"
| "event_kind_name (Ev_TitleChanged _) = ''TitleChanged''"
| "event_kind_name (Ev_Error _) = ''Error''"
| "event_kind_name (Ev_RetryAttempt _ _ _ _ _) = ''RetryAttempt''"
| "event_kind_name (Ev_TurnStatus _ _) = ''TurnStatus''"
| "event_kind_name (Ev_PluginNotification _) = ''PluginNotification''"
| "event_kind_name (Ev_InteractionRequest _ _ _) = ''InteractionRequest''"
| "event_kind_name (Ev_UiDirective _ _ _ _) = ''UiDirective''"
| "event_kind_name (Ev_PluginDeclared _ _ _) = ''PluginDeclared''"
| "event_kind_name (Ev_PluginState _ _ _) = ''PluginState''"

subsection \<open>Creating a session\<close>

definition root_row :: "int \<Rightarrow> session_id \<Rightarrow> string \<Rightarrow> model_ref \<Rightarrow> session_row" where
  "root_row now sid cwd m =
     \<lparr>s_id = sid, s_created_at = now, s_cwd = cwd, s_origin = None, s_origin_seq = 0,
      s_fork_reason = None, s_inh_cost_micros = 0, s_inh_tokens_in = 0, s_inh_tokens_out = 0,
      s_inh_ctx = 0, s_budget_micros = None, s_model = Some (enc_model_ref m), s_head = 0\<rparr>"

definition create_session ::
  "int \<Rightarrow> session_id \<Rightarrow> string \<Rightarrow> model_ref \<Rightarrow> store \<Rightarrow> (store_err + unit) \<times> store" where
  "create_session now sid cwd m st =
     (case sql_insert s_id (root_row now sid cwd m) (sessions (st_db st)) of
        None \<Rightarrow> (Inl Insert_Failed, st)
      | Some t \<Rightarrow> (Inr (), st\<lparr>st_db := (st_db st)\<lparr>sessions := t\<rparr>\<rparr>))"

subsection \<open>Appending\<close>

definition set_head :: "session_id \<Rightarrow> nat \<Rightarrow> db \<Rightarrow> db" where
  "set_head sid n d =
     d\<lparr>sessions := sql_update (\<lambda>r. s_id r = sid) (\<lambda>r. r\<lparr>s_head := n\<rparr>) (sessions d)\<rparr>"

definition event_row_of :: "session_id \<Rightarrow> nat \<Rightarrow> int \<Rightarrow> event \<Rightarrow> json \<Rightarrow> event_row" where
  "event_row_of sid n ts e payload =
     \<lparr>ev_session = sid, ev_seq = n, ev_ts = ts, ev_kind = event_kind_name e, ev_payload = payload\<rparr>"

definition count_blobs :: "(json \<Rightarrow> string) \<Rightarrow> event \<Rightarrow> db \<Rightarrow> db" where
  "count_blobs text_of e d =
     (case e of MessageAppended _ m \<Rightarrow> incr_blob_refs text_of (enc_contents (msg_content m)) d | _ \<Rightarrow> d)"

definition append ::
  "(json \<Rightarrow> string) \<Rightarrow> int \<Rightarrow> session_id \<Rightarrow> event \<Rightarrow> store \<Rightarrow> (store_err + nat) \<times> store" where
  "append text_of now sid event st =
     (if seq event = None then (Inl Transient_Rejected, st)
      else case begin_immediate st of
        None \<Rightarrow> (Inl Begin_Failed, st)
      | Some st1 \<Rightarrow>
          (case head_of sid (st_db st1) of
             None \<Rightarrow> (Inl (No_Session sid), st1)
           | Some head \<Rightarrow>
               (let n = head + 1; ev = with_seq n event in
                case enc_event ev of
                  None \<Rightarrow> (Inl Serialize_Failed, st1)
                | Some payload \<Rightarrow>
                    (case insert_event (event_row_of sid n now ev payload) (events (st_db st1)) of
                       None \<Rightarrow> (Inl Insert_Failed, rollback st1)
                     | Some evs \<Rightarrow>
                         (let d1 = (st_db st1)\<lparr>events := evs\<rparr>;
                              d2 = write_rows (project sid now ev) d1;
                              d3 = count_blobs text_of ev d2;
                              d4 = set_head sid n d3;
                              st2 = commit (st1\<lparr>st_db := d4\<rparr>)
                          in (Inr n, st2\<lparr>st_notified := st_notified st2 @ [(sid, ev)]\<rparr>))))))"

text \<open>The tables after a successful append, as one function.\<close>

definition appended :: "(json \<Rightarrow> string) \<Rightarrow> int \<Rightarrow> session_id \<Rightarrow> event \<Rightarrow> json \<Rightarrow> nat \<Rightarrow> db \<Rightarrow> db" where
  "appended text_of now sid ev payload n d =
     set_head sid n (count_blobs text_of ev
       (write_rows (project sid now ev) (d\<lparr>events := events d @ [event_row_of sid n now ev payload]\<rparr>)))"

lemma count_blobs_frame [frame_simps, simp]:
  "sessions (count_blobs f e d) = sessions d" "events (count_blobs f e d) = events d"
  "messages (count_blobs f e d) = messages d" "usages (count_blobs f e d) = usages d"
  "meta (count_blobs f e d) = meta d" "lives (count_blobs f e d) = lives d"
  "tool_calls (count_blobs f e d) = tool_calls d" "kvs (count_blobs f e d) = kvs d"
  by (simp_all add: count_blobs_def split: event.split)

lemma set_head_frame [frame_simps, simp]:
  "events (set_head s n d) = events d" "messages (set_head s n d) = messages d"
  "usages (set_head s n d) = usages d" "blobs (set_head s n d) = blobs d"
  "meta (set_head s n d) = meta d" "lives (set_head s n d) = lives d"
  "tool_calls (set_head s n d) = tool_calls d" "kvs (set_head s n d) = kvs d"
  by (simp_all add: set_head_def)

lemma session_of_set_head:
  "session_of s (set_head sid n d) =
     map_option (\<lambda>r. if s = sid then r\<lparr>s_head := n\<rparr> else r) (session_of s d)"
  unfolding session_of_def set_head_def
  by (simp, subst sql_first_update; cases "sql_first (\<lambda>r. s_id r = s) (sessions d)")
    (auto dest: sql_first_SomeD)

lemma head_of_set_head:
  "head_of s (set_head sid n d) = (if s = sid then map_option (\<lambda>_. n) (head_of s d) else head_of s d)"
  by (cases "s = sid"; cases "session_of s d") (simp_all add: head_of_def session_of_set_head)

lemma session_ids_set_head: "map s_id (sessions (set_head s n d)) = map s_id (sessions d)"
  by (simp add: set_head_def sessions_pk.key_update)

lemma of_cong:
  "events d = events d' \<Longrightarrow> events_of s d = events_of s d'"
  "messages d = messages d' \<Longrightarrow> messages_of s d = messages_of s d'"
  "usages d = usages d' \<Longrightarrow> usages_of s d = usages_of s d'"
  "sessions d = sessions d' \<Longrightarrow> session_of s d = session_of s d'"
  by (simp_all add: events_of_def messages_of_def usages_of_def session_of_def)

lemma of_update [simp]:
  "messages_of s (d\<lparr>events := x\<rparr>) = messages_of s d" "usages_of s (d\<lparr>events := x\<rparr>) = usages_of s d"
  "session_of s (d\<lparr>events := x\<rparr>) = session_of s d"
  "events_of s (d\<lparr>sessions := y\<rparr>) = events_of s d" "messages_of s (d\<lparr>sessions := y\<rparr>) = messages_of s d"
  "usages_of s (d\<lparr>sessions := y\<rparr>) = usages_of s d"
  by (simp_all add: events_of_def messages_of_def usages_of_def session_of_def)

lemma appended_events_of:
  "events_of s (appended f now sid ev p n d) =
     events_of s d @ (if s = sid then [event_row_of sid n now ev p] else [])"
  by (simp add: appended_def events_of_def sql_select_def event_row_of_def)

lemma appended_messages_of:
  "messages_of s (appended f now sid ev p n d) =
     (if s = sid then fold row_messages (project sid now ev) (messages_of s d) else messages_of s d)"
proof -
  have "messages_of s (appended f now sid ev p n d) =
        messages_of s (write_rows (project sid now ev) (d\<lparr>events := events d @ [event_row_of sid n now ev p]\<rparr>))"
    by (rule of_cong) (simp add: appended_def)
  then show ?thesis by (simp add: messages_of_project)
qed

lemma appended_usages_of:
  "usages_of s (appended f now sid ev p n d) =
     (if s = sid then fold row_usages (project sid now ev) (usages_of s d) else usages_of s d)"
proof -
  have "usages_of s (appended f now sid ev p n d) =
        usages_of s (write_rows (project sid now ev) (d\<lparr>events := events d @ [event_row_of sid n now ev p]\<rparr>))"
    by (rule of_cong) (simp add: appended_def)
  then show ?thesis by (simp add: usages_of_project)
qed

lemma appended_head_of:
  "head_of s (appended f now sid ev p n d) = (if s = sid then map_option (\<lambda>_. n) (head_of s d) else head_of s d)"
proof -
  have "head_of s (count_blobs f ev (write_rows (project sid now ev)
      (d\<lparr>events := events d @ [event_row_of sid n now ev p]\<rparr>))) = head_of s d"
    by (simp add: head_of_def session_of_def)
  then show ?thesis
    by (cases "s = sid") (simp_all add: appended_def head_of_set_head)
qed

lemma append_Inr_iff:
  "append f now sid e st = (Inr n, st') \<longleftrightarrow>
     (\<exists>head payload. is_durable e \<and> st_txn st = None \<and> head_of sid (st_db st) = Some head \<and>
        int (length (events (st_db st))) < sqlite_max_rows \<and>
        n = head + 1 \<and> enc_event (with_seq n e) = Some payload \<and>
        (sid, n) \<notin> event_key ` set (events (st_db st)) \<and>
        st' = st\<lparr>st_db := appended f now sid (with_seq n e) payload n (st_db st),
                 st_notified := st_notified st @ [(sid, with_seq n e)]\<rparr>)"
proof (cases st)
  case (fields d t sp nt)
  have k: "event_key (event_row_of sid m now ev p) = (sid, m)" for m ev p
    by (simp add: event_key_def event_row_of_def)
  show ?thesis
    unfolding append_def fields
    by (auto simp: begin_immediate_def is_durable_def Let_def insert_event_iff insert_event_None_iff k
        appended_def commit_def rollback_def split: option.splits if_splits)
qed

text \<open>What a failed append leaves behind: nothing, or a transaction that is still open.\<close>

lemma append_Inl:
  "append f now sid e st = (Inl err, st') \<Longrightarrow> st' = st \<or> begin_immediate st = Some st'"
  by (auto simp: append_def Let_def rollback_begin0 split: option.splits if_splits)

lemma append_durable_db:
  "append f now sid e st = (Inl err, st') \<Longrightarrow> durable_db st' = durable_db st"
  by (drule append_Inl) (auto simp: begin_immediate_iff durable_db_def)

lemma append_stuck: "st_txn st \<noteq> None \<Longrightarrow> fst (append f now sid e st) \<in> {Inl Transient_Rejected, Inl Begin_Failed} \<and>
    snd (append f now sid e st) = st"
  by (auto simp: append_def begin_immediate_def)

subsection \<open>The snapshot\<close>

record snapshot =
  sn_head :: nat
  sn_ctx :: nat
  sn_cost_usd :: f64
  sn_cost_micros :: int
  sn_model :: model_ref
  sn_disabled :: "string list"

definition sum_cost :: "usage_row list \<Rightarrow> store_err + int" where
  "sum_cost rows = sql_sum (map us_cost_micros rows)"

definition reconstruct_disabled_tools :: "msg_id \<Rightarrow> session_id \<Rightarrow> db \<Rightarrow> string list" where
  "reconstruct_disabled_tools new_id sid d =
     (case last_event_of_kind sid ''ToolsToggled'' d of
        Some r \<Rightarrow> (case dec_event new_id (ev_payload r) of Some (ToolsToggled _ x) \<Rightarrow> x | _ \<Rightarrow> [])
      | None \<Rightarrow> [])"

definition fork_event_model :: "msg_id \<Rightarrow> session_id \<Rightarrow> db \<Rightarrow> model_ref option" where
  "fork_event_model new_id sid d =
     (case sql_first (\<lambda>r. ev_kind r = ''SessionForked'') (events_of sid d) of
        Some r \<Rightarrow> (case dec_event new_id (ev_payload r) of
                     Some (SessionForked _ f) \<Rightarrow> Some (fs_model_at_fork f) | _ \<Rightarrow> None)
      | None \<Rightarrow> None)"

definition reconstruct_model :: "msg_id \<Rightarrow> session_id \<Rightarrow> json option \<Rightarrow> db \<Rightarrow> store_err + model_ref" where
  "reconstruct_model new_id sid at_fork d =
     (case changed_model new_id sid d of
        Some m \<Rightarrow> Inr m
      | None \<Rightarrow>
          (case Option.bind at_fork dec_model_ref of
             Some m \<Rightarrow> Inr m
           | None \<Rightarrow> (case fork_event_model new_id sid d of Some m \<Rightarrow> Inr m | None \<Rightarrow> Inl No_Model)))"

definition snapshot :: "msg_id \<Rightarrow> session_id \<Rightarrow> store \<Rightarrow> store_err + snapshot" where
  "snapshot new_id sid st =
     (let d = st_db st in
      case session_of sid d of
        None \<Rightarrow> Inl (No_Session sid)
      | Some r \<Rightarrow>
          (let ctx = (case sql_last_by us_seq (usages_of sid d) of Some u \<Rightarrow> t_input (us_tokens u) | None \<Rightarrow> 0)
           in bind_res (sum_cost (usages_of sid d)) (\<lambda>cost.
              bind_res (reconstruct_model new_id sid (s_model r) d)
                (\<lambda>m. Inr \<lparr>sn_head = s_head r, sn_ctx = ctx, sn_cost_usd = micros_to_usd cost,
                          sn_cost_micros = cost, sn_model = m,
                          sn_disabled = reconstruct_disabled_tools new_id sid d\<rparr>))))"

end
