(* ===== verification/Store_Reproject.thy ===== *)
theory Store_Reproject
  imports Store_Session
begin

text \<open>
  \<^verbatim>\<open>kn9t-store/src/reproject.rs\<close> and the startup of \<^verbatim>\<open>db.rs\<close>: rebuilding both projection tables from
  the log, comparing the rebuilt keys with the live ones, and what opening the store does. With them
  the invariant of the tables: every stored payload decodes to the event it was written from,
  the sequence numbers of a session are gapless up to its head, and the projection tables are what a
  replay of the log yields.
\<close>

subsection \<open>Replay\<close>

definition replay_rows :: "msg_id \<Rightarrow> event_row \<Rightarrow> row list" where
  "replay_rows new_id r =
     (case dec_event new_id (ev_payload r) of
        None \<Rightarrow> []
      | Some e \<Rightarrow> project (ev_session r) (ev_ts r) e)"

definition replay_events :: "msg_id \<Rightarrow> db \<Rightarrow> db \<Rightarrow> db" where
  "replay_events new_id d d0 =
     fold (\<lambda>r. write_rows (replay_rows new_id r)) (sort_key event_key (events d)) d0"

definition reproject_db :: "msg_id \<Rightarrow> db \<Rightarrow> db" where
  "reproject_db new_id d =
     set_pref_db ''PROJECTION_VERSION'' projection_version
       (replay_events new_id d (d\<lparr>messages := [], usages := []\<rparr>))"

definition reproject :: "msg_id \<Rightarrow> store \<Rightarrow> (store_err + unit) \<times> store" where
  "reproject new_id st =
     (case begin_immediate st of
        None \<Rightarrow> (Inl Begin_Failed, st)
      | Some st1 \<Rightarrow> (Inr (), commit (st1\<lparr>st_db := reproject_db new_id (st_db st1)\<rparr>)))"

text \<open>
  The check replays into two temporary tables and reports the keys that only one side has:
  \<^verbatim>\<open>LEFT JOIN ... IS NULL\<close> both ways, under \<^verbatim>\<open>UNION\<close>.
\<close>

definition write_rows_temp ::
  "row list \<Rightarrow> message_row list \<times> usage_row list \<Rightarrow> message_row list \<times> usage_row list" where
  "write_rows_temp rows t = (fold row_messages rows (fst t), fold row_usages rows (snd t))"

definition key_diff :: "(session_id \<times> nat) list \<Rightarrow> (session_id \<times> nat) list \<Rightarrow> (session_id \<times> nat) list" where
  "key_diff ks cs =
     sort (remdups (filter (\<lambda>k. k \<notin> set cs) ks @ filter (\<lambda>k. k \<notin> set ks) cs))"

definition reproject_check :: "msg_id \<Rightarrow> db \<Rightarrow> (string \<times> session_id \<times> nat) list" where
  "reproject_check new_id d =
     (let (msgs, usgs) = fold (\<lambda>r. write_rows_temp (replay_rows new_id r)) (sort_key event_key (events d)) ([], [])
      in map (Pair ''messages'') (key_diff (map message_key (messages d)) (map message_key msgs)) @
         map (Pair ''usage'') (key_diff (map usage_key (usages d)) (map usage_key usgs)))"

definition truncate_live_messages :: "db \<Rightarrow> db" where
  "truncate_live_messages d = d\<lparr>lives := []\<rparr>"

definition check_projection_version :: "msg_id \<Rightarrow> db \<Rightarrow> db" where
  "check_projection_version new_id d =
     (case map_option snd (sql_first (\<lambda>r. fst r = ''PROJECTION_VERSION'') (meta d)) of
        None \<Rightarrow> set_pref_db ''PROJECTION_VERSION'' projection_version d
      | Some v \<Rightarrow> if v \<noteq> projection_version then reproject_db new_id d else d)"

text \<open>Opening the file a previous process left: what it had not committed is gone.\<close>

definition open_store :: "msg_id \<Rightarrow> store \<Rightarrow> store" where
  "open_store new_id old =
     \<lparr>st_db = check_projection_version new_id (truncate_live_messages (durable_db old)),
      st_txn = None, st_specs = [], st_notified = []\<rparr>"

subsection \<open>The invariant\<close>

definition row_ok :: "event_row \<Rightarrow> bool" where
  "row_ok r \<longleftrightarrow>
     (\<exists>e. event_in_range e \<and> seq e = Some (ev_seq r) \<and> enc_event e = Some (ev_payload r) \<and>
          ev_kind r = event_kind_name e) \<and>
     (ev_seq r = 0 \<longrightarrow> ev_kind r = ''SessionForked'')"

definition seqs_of_session :: "session_row \<Rightarrow> nat list" where
  "seqs_of_session r = (if s_origin r = None then [] else [0]) @ [1..<Suc (s_head r)]"

definition log_ok :: "db \<Rightarrow> session_id \<Rightarrow> bool" where
  "log_ok d sid =
     (case session_of sid d of
        None \<Rightarrow> events_of sid d = []
      | Some r \<Rightarrow> int (s_head r) \<le> i64_max \<and> map ev_seq (events_of sid d) = seqs_of_session r)"

definition replay_of :: "msg_id \<Rightarrow> event_row list \<Rightarrow> row list" where
  "replay_of new_id rs = concat (map (replay_rows new_id) rs)"

definition proj_ok :: "msg_id \<Rightarrow> db \<Rightarrow> session_id \<Rightarrow> bool" where
  "proj_ok new_id d sid \<longleftrightarrow>
     messages_of sid d = fold row_messages (replay_of new_id (events_of sid d)) [] \<and>
     usages_of sid d = fold row_usages (replay_of new_id (events_of sid d)) []"

definition db_ok :: "db \<Rightarrow> bool" where
  "db_ok d \<longleftrightarrow>
     distinct (map s_id (sessions d)) \<and> (\<forall>r \<in> set (events d). row_ok r) \<and>
     (\<forall>sid. log_ok d sid) \<and> (\<forall>new_id sid. proj_ok new_id d sid)"

lemma log_ok_cong1:
  "session_of s d' = session_of s d \<Longrightarrow> events_of s d' = events_of s d \<Longrightarrow> log_ok d' s = log_ok d s"
  by (simp add: log_ok_def cong: option.case_cong)

lemma log_ok_cong:
  "sessions d' = sessions d \<Longrightarrow> events d' = events d \<Longrightarrow> log_ok d' sid = log_ok d sid"
  by (simp add: log_ok_def of_cong [of d' d] cong: option.case_cong)

lemma seqs_of_session_sorted: "sorted (seqs_of_session r)"
  by (auto simp: seqs_of_session_def simp del: upt_Suc)

lemma seqs_of_session_head:
  "seqs_of_session (r\<lparr>s_head := Suc (s_head r)\<rparr>) = seqs_of_session r @ [Suc (s_head r)]"
  by (simp add: seqs_of_session_def)

lemma seqs_of_session_max: "n \<in> set (seqs_of_session r) \<Longrightarrow> n \<le> s_head r"
  by (auto simp: seqs_of_session_def split: if_splits)

text \<open>An operation that leaves the log tables alone keeps the invariant.\<close>

lemma db_ok_cong:
  assumes "db_ok d" and "sessions d' = sessions d" and "events d' = events d"
    and "messages d' = messages d" and "usages d' = usages d"
  shows "db_ok d'"
  using assms by (simp add: db_ok_def log_ok_cong [of d' d] proj_ok_def of_cong [of d' d])

lemma db_ok_empty: "db_ok empty_db"
  by (simp add: db_ok_def log_ok_def proj_ok_def empty_db_def session_of_def sql_first_def
      events_of_def messages_of_def usages_of_def sql_select_def replay_of_def)

lemma row_ok_decode:
  "row_ok r \<Longrightarrow> \<exists>e. dec_event new_id (ev_payload r) = Some e \<and> seq e = Some (ev_seq r) \<and>
     event_in_range e \<and> ev_kind r = event_kind_name e"
  by (auto simp: row_ok_def dest: dec_enc_event)

lemma events_of_key_sorted:
  assumes "sorted (map ev_seq (events_of sid d))"
  shows "sorted (map event_key (events_of sid d))"
proof -
  have "\<forall>r \<in> set (events_of sid d). event_key r = (sid, ev_seq r)"
    by (auto simp: events_of_def sql_select_def event_key_def)
  then have "map event_key (events_of sid d) = map (Pair sid) (map ev_seq (events_of sid d))"
    by simp
  with assms show ?thesis
    by (auto simp: sorted_map intro!: sorted_wrt_mono_rel [OF _ assms [unfolded sorted_map]])
qed

lemma log_ok_sorted: "log_ok d sid \<Longrightarrow> sorted (map ev_seq (events_of sid d))"
  by (auto simp: log_ok_def seqs_of_session_sorted split: option.splits)

lemma sort_events_of:
  assumes "log_ok d sid"
  shows "filter (\<lambda>r. ev_session r = sid) (sort_key event_key (events d)) = events_of sid d"
  using sort_key_sorted_id [OF events_of_key_sorted [OF log_ok_sorted [OF assms]]]
  by (simp add: filter_sort events_of_def sql_select_def)

lemma replay_rows_session: "x \<in> set (replay_rows new_id r) \<Longrightarrow> row_session x = ev_session r"
  by (auto simp: replay_rows_def dest: project_session split: option.splits)

lemma fold_replay_tables:
  "messages (fold (\<lambda>r. write_rows (replay_rows new_id r)) rs d) =
     fold row_messages (replay_of new_id rs) (messages d)"
  "usages (fold (\<lambda>r. write_rows (replay_rows new_id r)) rs d) =
     fold row_usages (replay_of new_id rs) (usages d)"
  by (induction rs arbitrary: d) (simp_all add: replay_of_def write_rows_def)

lemma fold_replay_frame:
  "sessions (fold (\<lambda>r. write_rows (replay_rows new_id r)) rs d) = sessions d"
  "events (fold (\<lambda>r. write_rows (replay_rows new_id r)) rs d) = events d"
  by (induction rs arbitrary: d) simp_all

lemma fold_replay_filter:
  "filter (\<lambda>x. m_session x = s) (fold row_messages (replay_of new_id rs) t) =
     fold row_messages (replay_of new_id (filter (\<lambda>r. ev_session r = s) rs)) (filter (\<lambda>x. m_session x = s) t)"
  "filter (\<lambda>x. us_session x = s) (fold row_usages (replay_of new_id rs) u) =
     fold row_usages (replay_of new_id (filter (\<lambda>r. ev_session r = s) rs)) (filter (\<lambda>x. us_session x = s) u)"
  by (induction rs arbitrary: t u)
    (simp_all add: replay_of_def fold_rows_filter [OF replay_rows_session])

lemma reproject_db_frame [simp]:
  "sessions (reproject_db new_id d) = sessions d" "events (reproject_db new_id d) = events d"
  by (simp_all add: reproject_db_def set_pref_db_def replay_events_def fold_replay_frame)

lemma reproject_db_tables:
  assumes "log_ok d sid"
  shows "messages_of sid (reproject_db new_id d) = fold row_messages (replay_of new_id (events_of sid d)) []"
    and "usages_of sid (reproject_db new_id d) = fold row_usages (replay_of new_id (events_of sid d)) []"
  using assms
  by (simp_all add: messages_of_def usages_of_def sql_select_def reproject_db_def set_pref_db_def
      replay_events_def fold_replay_tables fold_replay_filter sort_events_of)

lemma reproject_db_same:
  assumes "db_ok d"
  shows "messages_of sid (reproject_db new_id d) = messages_of sid d"
    and "usages_of sid (reproject_db new_id d) = usages_of sid d"
  using assms reproject_db_tables [of d sid new_id] by (simp_all add: db_ok_def proj_ok_def)

lemma db_ok_reproject:
  assumes "db_ok d"
  shows "db_ok (reproject_db new_id d)"
proof -
  have "log_ok (reproject_db new_id d) sid = log_ok d sid" for sid
    by (rule log_ok_cong) simp_all
  moreover have "proj_ok n (reproject_db new_id d) sid = proj_ok n d sid" for n sid
    using reproject_db_same [OF assms] by (simp add: proj_ok_def of_cong [of "reproject_db new_id d" d])
  ultimately show ?thesis
    using assms by (simp add: db_ok_def)
qed

subsection \<open>Appending keeps the invariant\<close>

lemma event_in_range_with_seq:
  "event_in_range e \<Longrightarrow> in_u64 n \<Longrightarrow> event_in_range (with_seq n e)"
  by (cases e) simp_all

lemma event_kind_name_with_seq [simp]: "event_kind_name (with_seq n e) = event_kind_name e"
  by (cases e) simp_all

lemma i64_le_u64: "int n \<le> i64_max \<Longrightarrow> in_u64 n"
  by (simp add: in_u64_def i64_max_def u64_max_def)

lemma replay_of_append_row:
  assumes "event_in_range ev" and "enc_event ev = Some p"
  shows "replay_of new_id (rs @ [event_row_of sid n ts ev p]) = replay_of new_id rs @ project sid ts ev"
  using dec_enc_event [OF assms] by (simp add: replay_of_def replay_rows_def event_row_of_def)

text \<open>
  The head of a session is at most the number of its rows, so in a database that can take one more row
  the next number is far from the end of 64 bits.
\<close>

lemma head_le_rows:
  assumes "db_ok d" and "head_of sid d = Some head"
  shows "head \<le> length (events d)"
proof -
  obtain r where r: "session_of sid d = Some r" "s_head r = head"
    using assms(2) by (auto simp: head_of_def)
  have "log_ok d sid" using assms(1) by (simp add: db_ok_def)
  then have "map ev_seq (events_of sid d) = seqs_of_session r" using r by (simp add: log_ok_def)
  then have "length (events_of sid d) = length (seqs_of_session r)" by (metis length_map)
  moreover have "length (events_of sid d) \<le> length (events d)"
    by (simp add: events_of_def sql_select_def)
  ultimately show ?thesis using r by (simp add: seqs_of_session_def split: if_splits)
qed

lemma head_in_range:
  assumes "db_ok d" and "head_of sid d = Some head" and "int (length (events d)) < sqlite_max_rows"
  shows "int head < i64_max"
  using head_le_rows [OF assms(1,2)] assms(3) by (simp add: sqlite_max_rows_def i64_max_def)

lemma appended_ok:
  assumes ok: "db_ok d" and e: "event_in_range ev" and s: "seq ev = Some (head + 1)"
    and p: "enc_event ev = Some p" and h: "head_of sid d = Some head" and b: "int head < i64_max"
  shows "db_ok (appended f now sid ev p (head + 1) d)" (is "db_ok ?d")
proof -
  have "distinct (map s_id (sessions ?d))"
    using ok by (simp add: appended_def session_ids_set_head db_ok_def)
  moreover have "\<forall>r \<in> set (events ?d). row_ok r"
    using ok e s p by (auto simp: appended_def db_ok_def row_ok_def event_row_of_def)
  moreover have "log_ok ?d s" for s
  proof (cases "s = sid")
    case True
    obtain r where r: "session_of sid d = Some r" "s_head r = head"
      using h by (auto simp: head_of_def)
    have "session_of sid ?d = Some (r\<lparr>s_head := head + 1\<rparr>)"
      using r by (simp add: appended_def session_of_set_head) (simp add: session_of_def)
    moreover have "log_ok d sid"
      using ok by (simp add: db_ok_def)
    ultimately show ?thesis
      using r b True seqs_of_session_head [of r]
      by (simp add: log_ok_def appended_events_of event_row_of_def)
  next
    case False
    have "session_of s ?d = session_of s d"
      using False by (simp add: appended_def session_of_set_head option.map_ident) (simp add: session_of_def)
    with False ok show ?thesis
      by (simp add: log_ok_def db_ok_def appended_events_of cong: option.case_cong)
  qed
  moreover have "proj_ok new_id ?d s" for new_id s
    using ok replay_of_append_row [OF e p]
    by (cases "s = sid")
      (simp_all add: db_ok_def proj_ok_def appended_events_of appended_messages_of appended_usages_of)
  ultimately show ?thesis
    by (simp add: db_ok_def)
qed

lemma log_ok_fresh_key:
  assumes "db_ok d" and "head_of sid d = Some head"
  shows "(sid, head + 1) \<notin> event_key ` set (events d)"
proof
  assume "(sid, head + 1) \<in> event_key ` set (events d)"
  then obtain r where "r \<in> set (events_of sid d)" "ev_seq r = head + 1"
    by (auto simp: event_key_def events_of_def sql_select_def)
  then have "head + 1 \<in> set (map ev_seq (events_of sid d))" by force
  moreover obtain r where r: "session_of sid d = Some r" "s_head r = head"
    using assms(2) by (auto simp: head_of_def)
  moreover have "log_ok d sid" using assms(1) by (simp add: db_ok_def)
  ultimately have "head + 1 \<in> set (seqs_of_session r)"
    by (simp only: log_ok_def option.case)
  then show False
    using seqs_of_session_max r(2) by fastforce
qed

text \<open>
  On a well-formed store that is not full an append of a durable event of an existing session succeeds.
\<close>

lemma append_succeeds:
  assumes "db_ok (st_db st)" and "st_txn st = None" and "is_durable e"
    and "head_of sid (st_db st) = Some head" and "int (length (events (st_db st))) < sqlite_max_rows"
  shows "fst (append f now sid e st) = Inr (head + 1)"
proof -
  obtain p where "enc_event (with_seq (head + 1) e) = Some p"
    using enc_event_durable [of "with_seq (head + 1) e"] assms(3) by auto
  then have "append f now sid e st = (Inr (head + 1), st\<lparr>st_db := appended f now sid (with_seq (head + 1) e) p
      (head + 1) (st_db st), st_notified := st_notified st @ [(sid, with_seq (head + 1) e)]\<rparr>)"
    using assms log_ok_fresh_key [OF assms(1,4)] by (subst append_Inr_iff) auto
  then show ?thesis by simp
qed

lemma append_ok:
  assumes "db_ok (durable_db st)" and "event_in_range e"
  shows "db_ok (durable_db (snd (append f now sid e st)))"
proof (cases "append f now sid e st")
  case (Pair r st')
  show ?thesis
  proof (cases r)
    case (Inl err)
    with Pair append_durable_db [of f now sid e st err st'] assms show ?thesis by simp
  next
    case (Inr n)
    then obtain head p where *: "is_durable e" "st_txn st = None" "head_of sid (st_db st) = Some head"
      "int (length (events (st_db st))) < sqlite_max_rows" "n = head + 1" "enc_event (with_seq n e) = Some p"
      "st' = st\<lparr>st_db := appended f now sid (with_seq n e) p n (st_db st),
        st_notified := st_notified st @ [(sid, with_seq n e)]\<rparr>"
      using Pair append_Inr_iff [of f now sid e st n st'] by auto
    have b: "int head < i64_max"
      using head_in_range [OF _ *(3,4)] assms(1) *(2) by (simp add: durable_db_def)
    have "db_ok (appended f now sid (with_seq n e) p n (st_db st))"
      unfolding *(5)
      by (rule appended_ok)
        (use assms * b in \<open>auto simp: durable_db_def intro!: event_in_range_with_seq i64_le_u64\<close>)
    with Pair * show ?thesis by (simp add: durable_db_def)
  qed
qed

lemma create_session_ok:
  assumes "db_ok (durable_db st)"
  shows "db_ok (durable_db (snd (create_session now sid cwd m st)))"
proof (cases "st_txn st")
  case (Some d)
  with assms show ?thesis
    by (auto simp: create_session_def durable_db_def split: option.splits)
next
  case None
  let ?d = "st_db st"
  have ok: "db_ok ?d" using assms None by (simp add: durable_db_def)
  show ?thesis
  proof (cases "sql_insert s_id (root_row now sid cwd m) (sessions ?d)")
    case None2: None
    with None ok show ?thesis by (simp add: create_session_def durable_db_def)
  next
    case (Some t)
    then have t: "t = sessions ?d @ [root_row now sid cwd m]" "sid \<notin> s_id ` set (sessions ?d)"
      by (auto dest!: sql_insert_SomeD simp: root_row_def)
    let ?d' = "?d\<lparr>sessions := t\<rparr>"
    have so: "session_of s ?d' = (if s = sid then Some (root_row now sid cwd m) else session_of s ?d)" for s
      using sessions_pk.first_insert [OF Some, of s] by (simp add: session_of_def root_row_def)
    have "session_of sid ?d = None"
      using t by (simp add: session_of_None)
    then have none: "events_of sid ?d = []"
      using ok by (auto simp: db_ok_def log_ok_def dest!: spec [of _ sid])
    have "log_ok ?d' s" for s
    proof (cases "s = sid")
      case True
      with none show ?thesis
        by (simp add: log_ok_def so seqs_of_session_def root_row_def i64_max_def)
    next
      case False
      then have "log_ok ?d' s = log_ok ?d s"
        by (intro log_ok_cong1) (simp_all add: so)
      with ok show ?thesis by (simp add: db_ok_def)
    qed
    moreover have "proj_ok n ?d' s = proj_ok n ?d s" for n s
      by (simp add: proj_ok_def)
    ultimately have "db_ok ?d'"
      using ok t by (auto simp: db_ok_def root_row_def)
    with Some None show ?thesis
      by (simp add: create_session_def durable_db_def)
  qed
qed

subsection \<open>The check\<close>

lemma check_tables:
  "fold (\<lambda>r. write_rows_temp (replay_rows new_id r)) rs t =
     (fold row_messages (replay_of new_id rs) (fst t), fold row_usages (replay_of new_id rs) (snd t))"
  by (induction rs arbitrary: t) (simp_all add: replay_of_def write_rows_temp_def)

lemma key_diff_Nil: "set ks = set cs \<Longrightarrow> key_diff ks cs = []"
  by (simp add: key_diff_def)

lemma keys_from_sessions:
  assumes "\<And>s. filter (\<lambda>x. m_session x = s) t = filter (\<lambda>x. m_session x = s) u"
  shows "set t = set u"
proof -
  have "x \<in> set t \<longleftrightarrow> x \<in> set u" for x
    using arg_cong [where f = set, OF assms [of "m_session x"]] by auto
  then show ?thesis by blast
qed

lemma usage_keys_from_sessions:
  assumes "\<And>s. filter (\<lambda>x. us_session x = s) t = filter (\<lambda>x. us_session x = s) u"
  shows "set t = set u"
proof -
  have "x \<in> set t \<longleftrightarrow> x \<in> set u" for x
    using arg_cong [where f = set, OF assms [of "us_session x"]] by auto
  then show ?thesis by blast
qed

lemma reproject_check_clean:
  assumes ok: "db_ok d"
  shows "reproject_check new_id d = []"
proof -
  let ?msgs = "fold row_messages (replay_of new_id (sort_key event_key (events d))) []"
  let ?usgs = "fold row_usages (replay_of new_id (sort_key event_key (events d))) []"
  have log: "log_ok d s" for s using ok by (simp add: db_ok_def)
  have m: "filter (\<lambda>x. m_session x = s) ?msgs = filter (\<lambda>x. m_session x = s) (messages d)" for s
    using ok by (simp add: fold_replay_filter sort_events_of [OF log] db_ok_def proj_ok_def
        messages_of_def sql_select_def)
  have u: "filter (\<lambda>x. us_session x = s) ?usgs = filter (\<lambda>x. us_session x = s) (usages d)" for s
    using ok by (simp add: fold_replay_filter sort_events_of [OF log] db_ok_def proj_ok_def
        usages_of_def sql_select_def)
  have "set ?msgs = set (messages d)" "set ?usgs = set (usages d)"
    using keys_from_sessions [OF m] usage_keys_from_sessions [OF u] by simp_all
  then show ?thesis
    by (simp add: reproject_check_def check_tables key_diff_Nil)
qed

subsection \<open>Opening\<close>

lemma db_ok_open:
  assumes "db_ok (durable_db st)"
  shows "db_ok (durable_db (open_store new_id st))"
proof -
  let ?d = "truncate_live_messages (durable_db st)"
  have "db_ok ?d"
    by (rule db_ok_cong [OF assms]) (simp_all add: truncate_live_messages_def)
  then have "db_ok (check_projection_version new_id ?d)"
    by (auto simp: check_projection_version_def set_pref_db_def db_ok_reproject
        intro: db_ok_cong split: option.splits)
  then show ?thesis
    by (simp add: open_store_def durable_db_def)
qed

end
