(* ===== verification/Store_Live.thy ===== *)
theory Store_Live
  imports Store_Reproject
begin

text \<open>
  \<^verbatim>\<open>kn9t-store/src/live.rs\<close>, \<^verbatim>\<open>blob.rs\<close>, \<^verbatim>\<open>cost.rs\<close> and \<^verbatim>\<open>session_delete.rs\<close>: the scratch tables of a
  turn in flight, the content-addressed blobs, the cost figures, and deleting a session. The digest
  is the parameter \<open>sha\<close>.
\<close>

subsection \<open>Partial messages\<close>

definition upsert_live_message ::
  "int \<Rightarrow> session_id \<Rightarrow> msg_id \<Rightarrow> string \<Rightarrow> content list \<Rightarrow> store \<Rightarrow> (store_err + unit) \<times> store" where
  "upsert_live_message now sid mid rl cs st =
     (if session_of sid (st_db st) = None then (Inl Foreign_Key, st)
      else (Inr (), st\<lparr>st_db := (st_db st)\<lparr>lives := sql_replace l_session
        \<lparr>l_session = sid, l_msg_id = mid, l_role = rl, l_content = enc_contents cs, l_updated_at = now\<rparr>
        (lives (st_db st))\<rparr>\<rparr>))"

definition get_live_message :: "session_id \<Rightarrow> store \<Rightarrow> json option" where
  "get_live_message sid st = map_option l_content (sql_first (\<lambda>r. l_session r = sid) (lives (st_db st)))"

definition delete_live_message :: "session_id \<Rightarrow> store \<Rightarrow> store" where
  "delete_live_message sid st =
     st\<lparr>st_db := (st_db st)\<lparr>lives := sql_delete (\<lambda>r. l_session r = sid) (lives (st_db st))\<rparr>\<rparr>"

subsection \<open>Progress of tool calls\<close>

definition max_progress_bytes :: nat where
  "max_progress_bytes = 8 * 1024"

text \<open>A UTF-8 continuation byte; a character boundary is any other position.\<close>

definition continuation :: "char \<Rightarrow> bool" where
  "continuation c \<longleftrightarrow> (let n = (of_char c :: nat) in 128 \<le> n \<and> n < 192)"

definition keep_tail :: "string \<Rightarrow> string \<times> bool" where
  "keep_tail p =
     (if max_progress_bytes < length p
      then (dropWhile continuation (drop (length p - max_progress_bytes) p), True)
      else (p, False))"

definition begin_live_tool_call ::
  "int \<Rightarrow> session_id \<Rightarrow> call_id \<Rightarrow> string \<Rightarrow> store \<Rightarrow> (store_err + unit) \<times> store" where
  "begin_live_tool_call now sid cid tool st =
     (if session_of sid (st_db st) = None then (Inl Foreign_Key, st)
      else (Inr (), st\<lparr>st_db := (st_db st)\<lparr>tool_calls := sql_replace tool_key
        \<lparr>tc_session = sid, tc_call = cid, tc_tool = tool, tc_progress = [], tc_truncated = False,
         tc_updated_at = now\<rparr> (tool_calls (st_db st))\<rparr>\<rparr>))"

definition append_live_tool_progress ::
  "int \<Rightarrow> session_id \<Rightarrow> call_id \<Rightarrow> string \<Rightarrow> store \<Rightarrow> store" where
  "append_live_tool_progress now sid cid note st =
     (case sql_first (\<lambda>r. tool_key r = (sid, cid)) (tool_calls (st_db st)) of
        None \<Rightarrow> st
      | Some row \<Rightarrow>
          (let (p, dropped) = keep_tail (tc_progress row @ note) in
           st\<lparr>st_db := (st_db st)\<lparr>tool_calls := sql_update (\<lambda>r. tool_key r = (sid, cid))
             (\<lambda>r. r\<lparr>tc_progress := p, tc_truncated := tc_truncated row \<or> dropped, tc_updated_at := now\<rparr>)
             (tool_calls (st_db st))\<rparr>\<rparr>))"

definition end_live_tool_call :: "session_id \<Rightarrow> call_id \<Rightarrow> store \<Rightarrow> store" where
  "end_live_tool_call sid cid st =
     st\<lparr>st_db := (st_db st)\<lparr>tool_calls := sql_delete (\<lambda>r. tool_key r = (sid, cid)) (tool_calls (st_db st))\<rparr>\<rparr>"

text \<open>
  The read of the salvaged progress. A backslash at the end of a line of a Rust string literal
  removes the newline and the indentation that follows, so the text of the statement is the
  concatenation below; a statement is prepared only if the word after \<^verbatim>\<open>FROM\<close> is a table.
\<close>

definition salvage_sql :: string where
  "salvage_sql = ''SELECT tool, progress, truncated FROM live_tool_calls'' @ ''WHERE session_id=?1 AND call_id=?2''"

definition schema_tables :: "string list" where
  "schema_tables = [''sessions'', ''events'', ''messages'', ''usage'', ''blobs'', ''meta'',
     ''live_messages'', ''live_tool_calls'', ''plugin_kv'']"

definition is_ident :: "char \<Rightarrow> bool" where
  "is_ident c \<longleftrightarrow>
     (let n = (of_char c :: nat) in 48 \<le> n \<and> n \<le> 57 \<or> 65 \<le> n \<and> n \<le> 90 \<or> 97 \<le> n \<and> n \<le> 122 \<or> n = 95)"

definition from_table :: "string \<Rightarrow> string" where
  "from_table sql =
     (case find_sub ''FROM '' sql of None \<Rightarrow> [] | Some i \<Rightarrow> takeWhile is_ident (drop (i + 5) sql))"

definition get_live_tool_progress ::
  "session_id \<Rightarrow> call_id \<Rightarrow> store \<Rightarrow> store_err + (string \<times> string \<times> bool) option" where
  "get_live_tool_progress sid cid st =
     (if from_table salvage_sql \<notin> set schema_tables then Inl (Bad_Statement (from_table salvage_sql))
      else Inr (map_option (\<lambda>r. (tc_tool r, tc_progress r, tc_truncated r))
                  (sql_first (\<lambda>r. tool_key r = (sid, cid)) (tool_calls (st_db st)))))"

lemma keep_tail_props:
  "length (fst (keep_tail p)) \<le> max_progress_bytes \<and> (\<exists>q. p = q @ fst (keep_tail p))"
proof (cases "max_progress_bytes < length p")
  case True
  let ?t = "drop (length p - max_progress_bytes) p"
  have "length (dropWhile continuation ?t) \<le> length ?t" by (rule length_dropWhile_le)
  moreover have "p = (take (length p - max_progress_bytes) p @ takeWhile continuation ?t) @ dropWhile continuation ?t"
    by simp
  ultimately show ?thesis
    using True by (auto simp: keep_tail_def simp del: takeWhile_dropWhile_id append_assoc)
qed (simp add: keep_tail_def)

lemma salvage_statement_bad: "from_table salvage_sql = ''live_tool_callsWHERE''"
  by code_simp

lemma get_live_tool_progress_fails:
  "get_live_tool_progress sid cid st = Inl (Bad_Statement ''live_tool_callsWHERE'')"
  by (simp add: get_live_tool_progress_def salvage_statement_bad schema_tables_def)

subsection \<open>Blobs\<close>

definition put_blob ::
  "(string \<Rightarrow> string) \<Rightarrow> int \<Rightarrow> string \<Rightarrow> string \<Rightarrow> store \<Rightarrow> string \<times> store" where
  "put_blob sha now bytes mime st =
     (let h = sha bytes in
      (h, if sql_first (\<lambda>b. b_hash b = h) (blobs (st_db st)) = None
          then st\<lparr>st_db := (st_db st)\<lparr>blobs := blobs (st_db st) @
                 [\<lparr>b_hash = h, b_mime = mime, b_bytes = bytes, b_refcount = 0, b_created_at = now\<rparr>]\<rparr>\<rparr>
          else st))"

definition get_blob :: "string \<Rightarrow> db \<Rightarrow> (string \<times> string) option" where
  "get_blob h d = map_option (\<lambda>b. (b_bytes b, b_mime b)) (sql_first (\<lambda>b. b_hash b = h) (blobs d))"

lemma put_blob_dedup:
  "snd (put_blob sha now' bytes mime' (snd (put_blob sha now bytes mime st))) = snd (put_blob sha now bytes mime st)"
  by (auto simp: put_blob_def Let_def sql_first_append sql_first_None split: option.splits)

lemma put_blob_get:
  "\<exists>m. get_blob (sha bytes) (st_db (snd (put_blob sha now bytes mime st))) = Some m"
  by (cases "sql_first (\<lambda>b. b_hash b = sha bytes) (blobs (st_db st))")
    (auto simp: put_blob_def Let_def get_blob_def sql_first_append, simp add: sql_first_def)

subsection \<open>Cost\<close>

record cost_rollup =
  cr_marginal :: int
  cr_effective :: int
  cr_family :: int
  cr_marginal_usd :: f64
  cr_effective_usd :: f64
  cr_family_usd :: f64

definition add_i64 :: "int \<Rightarrow> int \<Rightarrow> store_err + int" where
  "add_i64 a b = (if in_i64 (a + b) then Inr (a + b) else Inl Add_Overflow)"

text \<open>
  The walk up the origins. \<open>None\<close> would be a walk that does not end; \<open>fuel\<close> is the number of sessions
  it may visit, and one more than there are is enough (\<open>family_cost_total\<close> below).
\<close>

fun family_cost :: "nat \<Rightarrow> db \<Rightarrow> session_id \<Rightarrow> (store_err + int) option" where
  "family_cost 0 d sid = None"
| "family_cost (Suc fuel) d sid =
     (case sum_cost (usages_of sid d) of
        Inl e \<Rightarrow> Some (Inl e)
      | Inr own \<Rightarrow>
          (case Option.bind (session_of sid d) s_origin of
             None \<Rightarrow> Some (Inr own)
           | Some parent \<Rightarrow>
               (case family_cost fuel d parent of
                  None \<Rightarrow> None
                | Some r \<Rightarrow> Some (bind_res r (add_i64 own)))))"

definition cost_rollup :: "session_id \<Rightarrow> store \<Rightarrow> (store_err + cost_rollup) option" where
  "cost_rollup sid st =
     (let d = st_db st in
      case sum_cost (usages_of sid d) of
        Inl e \<Rightarrow> Some (Inl e)
      | Inr marginal \<Rightarrow>
          (case session_of sid d of
             None \<Rightarrow> Some (Inl (No_Session sid))
           | Some r \<Rightarrow>
               (case add_i64 marginal (s_inh_cost_micros r) of
                  Inl e \<Rightarrow> Some (Inl e)
                | Inr effective \<Rightarrow>
                    map_option (\<lambda>res. bind_res res (\<lambda>family.
                        Inr \<lparr>cr_marginal = marginal, cr_effective = effective, cr_family = family,
                             cr_marginal_usd = micros_to_usd marginal,
                             cr_effective_usd = micros_to_usd effective,
                             cr_family_usd = micros_to_usd family\<rparr>))
                      (family_cost (length (sessions d) + 1) d sid))))"

subsection \<open>Deleting a session\<close>

definition fork_count :: "session_id \<Rightarrow> db \<Rightarrow> nat" where
  "fork_count sid d = length (sql_select (\<lambda>r. s_origin r = Some sid) (sessions d))"

definition deleted :: "(json \<Rightarrow> string) \<Rightarrow> session_id \<Rightarrow> db \<Rightarrow> db" where
  "deleted text_of sid d =
     (let d1 = fold (decr_blob_refs text_of) (map m_content (messages_of sid d)) d in
      d1\<lparr>events := sql_delete (\<lambda>r. ev_session r = sid) (events d1),
         messages := sql_delete (\<lambda>r. m_session r = sid) (messages d1),
         usages := sql_delete (\<lambda>r. us_session r = sid) (usages d1),
         lives := sql_delete (\<lambda>r. l_session r = sid) (lives d1),
         tool_calls := sql_delete (\<lambda>r. tc_session r = sid) (tool_calls d1),
         kvs := sql_delete (\<lambda>r. kv_scope r = sid) (kvs d1),
         sessions := sql_delete (\<lambda>r. s_id r = sid) (sessions d1)\<rparr>)"

definition delete_session ::
  "(json \<Rightarrow> string) \<Rightarrow> session_id \<Rightarrow> store \<Rightarrow> (store_err + unit) \<times> store" where
  "delete_session text_of sid st =
     (if 0 < fork_count sid (st_db st) then (Inl (Origin_Of (fork_count sid (st_db st))), st)
      else case begin_immediate st of
        None \<Rightarrow> (Inl Begin_Failed, st)
      | Some st1 \<Rightarrow> (Inr (), commit (st1\<lparr>st_db := deleted text_of sid (st_db st1)\<rparr>)))"

lemma fold_decr_frame [simp]:
  "sessions (fold (decr_blob_refs f) cs d) = sessions d" "events (fold (decr_blob_refs f) cs d) = events d"
  "messages (fold (decr_blob_refs f) cs d) = messages d" "usages (fold (decr_blob_refs f) cs d) = usages d"
  "kvs (fold (decr_blob_refs f) cs d) = kvs d" "tool_calls (fold (decr_blob_refs f) cs d) = tool_calls d"
  "lives (fold (decr_blob_refs f) cs d) = lives d"
  by (induction cs arbitrary: d) simp_all

lemma filter_delete_key:
  "filter (\<lambda>x. k x = s) (sql_delete (\<lambda>x. k x = sid) t) = (if s = sid then [] else filter (\<lambda>x. k x = s) t)"
  by (induction t) (auto simp: sql_delete_def)

lemma deleted_of:
  "events_of s (deleted f sid d) = (if s = sid then [] else events_of s d)"
  "messages_of s (deleted f sid d) = (if s = sid then [] else messages_of s d)"
  "usages_of s (deleted f sid d) = (if s = sid then [] else usages_of s d)"
  by (simp_all add: events_of_def messages_of_def usages_of_def sql_select_def deleted_def Let_def
      filter_delete_key)

lemma deleted_session_of:
  "session_of s (deleted f sid d) = (if s = sid then None else session_of s d)"
proof (cases "s = sid")
  case True
  then show ?thesis
    by (simp add: session_of_def deleted_def Let_def sql_first_None sql_delete_def)
next
  case False
  then show ?thesis
    by (auto simp: session_of_def deleted_def Let_def sql_delete_def sql_first_filter intro!: sql_first_cong)
qed

lemma deleted_ok:
  assumes ok: "db_ok d"
  shows "db_ok (deleted f sid d)"
proof -
  have "log_ok (deleted f sid d) s" for s
  proof (cases "s = sid")
    case True
    then show ?thesis by (simp add: log_ok_def deleted_of deleted_session_of)
  next
    case False
    then have "log_ok (deleted f sid d) s = log_ok d s"
      by (intro log_ok_cong1) (simp_all add: deleted_of deleted_session_of)
    with ok show ?thesis by (simp add: db_ok_def)
  qed
  moreover have "proj_ok n (deleted f sid d) s" for n s
    using ok by (auto simp: proj_ok_def deleted_of db_ok_def replay_of_def)
  moreover have "\<forall>r \<in> set (events (deleted f sid d)). row_ok r"
    using ok by (auto simp: deleted_def Let_def sql_delete_def db_ok_def)
  moreover have "distinct (map s_id (sessions (deleted f sid d)))"
    using ok by (simp add: deleted_def Let_def db_ok_def sessions_pk.key_delete)
  ultimately show ?thesis unfolding db_ok_def by blast
qed

end
