(* ===== verification/Store_Plan.thy ===== *)
theory Store_Plan
  imports Store_Live
begin

text \<open>
  \<^verbatim>\<open>kn9t-store/src/plan.rs\<close>: folding a session into the next request. The message list is read from
  the projection, image references are resolved to inline data, unparseable tool arguments are
  repaired, calls the process never answered are closed, and when the context estimate passes the
  threshold the oldest part is proposed for compaction. Parameters: \<open>mint\<close> gives the ids
  \<^verbatim>\<open>MsgId::new\<close> hands out, \<open>b64\<close> is base64, \<open>parses\<close> says whether \<^verbatim>\<open>serde_json\<close> accepts a text.
\<close>

subsection \<open>Reading messages\<close>

fun parse_role :: "string \<Rightarrow> role" where
  "parse_role s =
     (if s = ''system'' then Role_System
      else if s = ''assistant'' then Role_Assistant
      else if s = ''tool'' then Role_Tool
      else Role_User)"

lemma parse_role_str [simp]: "parse_role (role_str r) = r"
  by (cases r) simp_all

definition strip_sha :: "string \<Rightarrow> string" where
  "strip_sha s = (if take 7 s = sha_prefix then drop 7 s else s)"

definition resolve_image :: "(string \<Rightarrow> string) \<Rightarrow> db \<Rightarrow> content \<Rightarrow> content" where
  "resolve_image b64 d c =
     (case c of
        Image sha mime \<Rightarrow>
          (case get_blob (strip_sha sha) d of
             Some (bytes, stored_mime) \<Rightarrow>
               (let m = if mime = [] then stored_mime else mime
                in Image (''data:'' @ m @ '';base64,'' @ b64 bytes) m)
           | None \<Rightarrow> Image sha mime)
      | _ \<Rightarrow> c)"

definition message_of_row :: "(string \<Rightarrow> string) \<Rightarrow> db \<Rightarrow> msg_id \<Rightarrow> message_row \<Rightarrow> message" where
  "message_of_row b64 d mid r =
     \<lparr>msg_id = mid, msg_role = parse_role (m_role r),
      msg_content = map (resolve_image b64 d)
        (case dec_contents (m_content r) of Some cs \<Rightarrow> cs | None \<Rightarrow> []),
      msg_silent = False\<rparr>"

subsection \<open>Repairing arguments\<close>

definition repair_content :: "(string \<Rightarrow> bool) \<Rightarrow> content \<Rightarrow> content" where
  "repair_content parses c =
     (case c of ToolCall i n a \<Rightarrow> if parses a then c else ToolCall i n ''{}'' | _ \<Rightarrow> c)"

definition repair_unparseable_tool_args :: "(string \<Rightarrow> bool) \<Rightarrow> message list \<Rightarrow> message list" where
  "repair_unparseable_tool_args parses msgs =
     map (\<lambda>m. m\<lparr>msg_content := map (repair_content parses) (msg_content m)\<rparr>) msgs"

subsection \<open>Orphaned tool calls\<close>

fun call_id_of :: "content \<Rightarrow> call_id option" where
  "call_id_of (ToolCall i _ _) = Some i"
| "call_id_of _ = None"

fun result_id_of :: "content \<Rightarrow> call_id option" where
  "result_id_of (ToolResult i _ _) = Some i"
| "result_id_of _ = None"

definition calls_in :: "message list \<Rightarrow> call_id list" where
  "calls_in msgs = List.map_filter call_id_of (concat (map msg_content msgs))"

definition answered :: "message list \<Rightarrow> call_id list" where
  "answered msgs = List.map_filter result_id_of (concat (map msg_content msgs))"

definition has_orphan_tool_call :: "message list \<Rightarrow> bool" where
  "has_orphan_tool_call msgs \<longleftrightarrow>
     (\<exists>m \<in> set msgs. \<exists>c \<in> set (msg_content m).
        case call_id_of c of
          None \<Rightarrow> False
        | Some i \<Rightarrow> \<not> (\<exists>m2 \<in> set msgs. \<exists>c2 \<in> set (msg_content m2). result_id_of c2 = Some i))"

text \<open>\<^verbatim>\<open>trim().is_empty()\<close>: only Unicode white space, in UTF-8.\<close>

fun blank_bytes :: "nat list \<Rightarrow> bool" where
  "blank_bytes [] = True"
| "blank_bytes (b # bs) =
     (if 9 \<le> b \<and> b \<le> 13 \<or> b = 32 then blank_bytes bs
      else case bs of
        [] \<Rightarrow> False
      | c # cs \<Rightarrow>
          if b = 194 \<and> (c = 133 \<or> c = 160) then blank_bytes cs
          else (case cs of
              [] \<Rightarrow> False
            | d # ds \<Rightarrow>
                (b = 225 \<and> c = 154 \<and> d = 128 \<or>
                 b = 226 \<and> c = 128 \<and> (128 \<le> d \<and> d \<le> 138 \<or> d = 168 \<or> d = 169 \<or> d = 175) \<or>
                 b = 226 \<and> c = 129 \<and> d = 159 \<or>
                 b = 227 \<and> c = 128 \<and> d = 128) \<and> blank_bytes ds))"

definition blank :: "string \<Rightarrow> bool" where
  "blank s = blank_bytes (map of_char s)"

definition interrupted_tool_result :: string where
  "interrupted_tool_result =
     ''Tool call interrupted: kn9t exited before this tool reported a result. '' @
     ''The call may or may not have taken effect '' @ [CHR 0xE2, CHR 0x80, CHR 0x94] @
     '' verify before relying on it.''"

definition newline :: string where
  "newline = [CHR 0x0A]"

definition salvage_text :: "(string \<times> string \<times> bool) option \<Rightarrow> string" where
  "salvage_text s =
     (case s of
        Some (_, progress, truncated) \<Rightarrow>
          if blank progress then interrupted_tool_result
          else interrupted_tool_result @ newline @ ''Partial output before the interruption:'' @
               (if truncated then newline @ ''[earlier output dropped]'' @ newline else newline) @ progress
      | None \<Rightarrow> interrupted_tool_result)"

definition orphans_of :: "call_id list \<Rightarrow> message \<Rightarrow> call_id list" where
  "orphans_of known m = filter (\<lambda>i. i \<notin> set known) (List.map_filter call_id_of (msg_content m))"

definition synth_message ::
  "(call_id \<Rightarrow> (string \<times> string \<times> bool) option) \<Rightarrow> msg_id \<Rightarrow> call_id list \<Rightarrow> message" where
  "synth_message salvage mid orphans =
     \<lparr>msg_id = mid, msg_role = Role_Tool,
      msg_content = map (\<lambda>i. ToolResult i [Text (salvage_text (salvage i))] True) orphans,
      msg_silent = False\<rparr>"

definition insert_at :: "nat \<Rightarrow> 'a \<Rightarrow> 'a list \<Rightarrow> 'a list" where
  "insert_at i x xs = take i xs @ x # drop i xs"

text \<open>One turn of the backward loop.\<close>

definition close_step ::
  "(nat \<Rightarrow> msg_id) \<Rightarrow> (call_id \<Rightarrow> (string \<times> string \<times> bool) option) \<Rightarrow> call_id list \<Rightarrow> nat \<Rightarrow>
   nat list \<times> message list \<Rightarrow> nat list \<times> message list" where
  "close_step mint salvage known i st =
     (case st of (seqs, msgs) \<Rightarrow>
        (let orphans = orphans_of known (msgs ! i) in
         if orphans = [] then (seqs, msgs)
         else (insert_at (i + 1) (if i < length seqs then seqs ! i else 1) seqs,
               insert_at (i + 1) (synth_message salvage (mint i) orphans) msgs)))"

definition close_orphan_tool_calls_with ::
  "(nat \<Rightarrow> msg_id) \<Rightarrow> (call_id \<Rightarrow> (string \<times> string \<times> bool) option) \<Rightarrow>
   nat list \<Rightarrow> message list \<Rightarrow> nat list \<times> message list" where
  "close_orphan_tool_calls_with mint salvage seqs msgs =
     fold (close_step mint salvage (answered msgs)) (rev [0..<length msgs]) (seqs, msgs)"

subsection \<open>The compaction span\<close>

record compact_span =
  cs_replaced :: seq_range
  cs_messages :: "message list"

function find_cut :: "message list \<Rightarrow> nat \<Rightarrow> nat" where
  "find_cut msgs pos =
     (if length msgs \<le> pos then pos
      else if has_orphan_tool_call (take pos msgs) then find_cut msgs (pos + 1)
      else pos)"
  by pat_completeness auto
termination
  by (relation "measure (\<lambda>(msgs, pos). length msgs - pos)") auto

declare find_cut.simps [simp del]

definition compact_span_of :: "nat list \<Rightarrow> message list \<Rightarrow> compact_span" where
  "compact_span_of seqs msgs =
     (let pos = find_cut msgs (length msgs div 2);
          start = (case seqs of [] \<Rightarrow> 1 | s # _ \<Rightarrow> s);
          stop = (if 0 < pos then seqs ! (pos - 1) else start)
      in \<lparr>cs_replaced = \<lparr>sr_start = start, sr_end = stop\<rparr>, cs_messages = take pos msgs\<rparr>)"

subsection \<open>The plan\<close>

record request_plan =
  rp_system :: "string option"
  rp_messages :: "message list"
  rp_cache :: "cache list"
  rp_compact :: "compact_span option"

text \<open>\<^verbatim>\<open>(ctx_window as f64 * 0.80) as i64\<close>.\<close>

definition compact_threshold :: "nat \<Rightarrow> int" where
  "compact_threshold ctx_window = \<lfloor>of_nat ctx_window * (4 / 5 :: f64)\<rfloor>"

definition context_estimate :: "session_id \<Rightarrow> db \<Rightarrow> int" where
  "context_estimate sid d =
     (let (last_seq, real) = (case sql_last_by us_seq (usages_of sid d) of
            Some u \<Rightarrow> (us_seq u, int (t_input (us_tokens u))) | None \<Rightarrow> (0, 0))
      in real + sum_list (map (\<lambda>r. estimate_tokens_json (m_content r))
           (filter (\<lambda>r. last_seq < m_seq r) (sort_key m_seq (messages_of sid d)))))"

definition salvage_from :: "session_id \<Rightarrow> store \<Rightarrow> call_id \<Rightarrow> (string \<times> string \<times> bool) option" where
  "salvage_from sid st cid =
     (case get_live_tool_progress sid cid st of Inr r \<Rightarrow> r | Inl _ \<Rightarrow> None)"

definition folded_messages ::
  "(nat \<Rightarrow> msg_id) \<Rightarrow> (string \<Rightarrow> string) \<Rightarrow> (string \<Rightarrow> bool) \<Rightarrow> session_id \<Rightarrow> db \<Rightarrow> message list" where
  "folded_messages mint b64 parses sid d =
     repair_unparseable_tool_args parses
       (map (\<lambda>(i, r). message_of_row b64 d (mint i) r) (enumerate 0 (sort_key m_seq (messages_of sid d))))"

definition plan_request ::
  "(nat \<Rightarrow> msg_id) \<Rightarrow> (string \<Rightarrow> string) \<Rightarrow> (string \<Rightarrow> bool) \<Rightarrow> session_id \<Rightarrow> store \<Rightarrow> request_plan" where
  "plan_request mint b64 parses sid st =
     (let d = st_db st;
          spec = get_model_spec_for_session (mint 0) sid st;
          rows = sort_key m_seq (messages_of sid d);
          total = context_estimate sid d;
          msgs0 = folded_messages mint b64 parses sid d;
          (seqs, msgs) = close_orphan_tool_calls_with (\<lambda>i. mint (length rows + i))
                           (salvage_from sid st) (map m_seq rows) msgs0;
          bps = (case spec of Some s \<Rightarrow> breakpoints msgs (ms_cache s) | None \<Rightarrow> []);
          comp = (case spec of
                    Some s \<Rightarrow> if compact_threshold (ms_ctx_window s) \<le> total \<and> 2 \<le> length msgs
                              then Some (compact_span_of seqs msgs) else None
                  | None \<Rightarrow> None)
      in \<lparr>rp_system = None, rp_messages = msgs, rp_cache = bps, rp_compact = comp\<rparr>)"

subsection \<open>Closing orphans\<close>

lemma map_filter_set: "set (List.map_filter f xs) = {y. \<exists>x \<in> set xs. f x = Some y}"
  by (auto simp: List.map_filter_def image_iff) (metis option.sel)

lemma has_orphan_iff: "has_orphan_tool_call msgs \<longleftrightarrow> \<not> set (calls_in msgs) \<subseteq> set (answered msgs)"
  by (fastforce simp: has_orphan_tool_call_def calls_in_def answered_def map_filter_set split: option.splits)

definition closed_at ::
  "(nat \<Rightarrow> msg_id) \<Rightarrow> (call_id \<Rightarrow> (string \<times> string \<times> bool) option) \<Rightarrow> call_id list \<Rightarrow> nat \<Rightarrow> message \<Rightarrow> message list" where
  "closed_at mint salvage known i m =
     m # (if orphans_of known m = [] then [] else [synth_message salvage (mint i) (orphans_of known m)])"

definition closed_seqs_at :: "call_id list \<Rightarrow> message \<Rightarrow> nat \<Rightarrow> nat list" where
  "closed_seqs_at known m s = s # (if orphans_of known m = [] then [] else [s])"

lemma close_loop:
  assumes "length seqs = length msgs" and "k \<le> length msgs"
  shows "fold (close_step mint salvage known) (rev [k..<length msgs]) (seqs, msgs) =
     (take k seqs @ concat (map (\<lambda>i. closed_seqs_at known (msgs ! i) (seqs ! i)) [k..<length msgs]),
      take k msgs @ concat (map (\<lambda>i. closed_at mint salvage known i (msgs ! i)) [k..<length msgs]))"
  using assms(2)
proof (induction k rule: inc_induct)
  case base
  with assms(1) show ?case by simp
next
  case (step k)
  then have "rev [k..<length msgs] = rev [Suc k..<length msgs] @ [k]"
    by (simp add: upt_conv_Cons)
  moreover have "take (Suc k) msgs = take k msgs @ [msgs ! k]" "take (Suc k) seqs = take k seqs @ [seqs ! k]"
    using step assms(1) by (simp_all add: take_Suc_conv_app_nth)
  ultimately show ?case
    using step assms(1)
    by (simp add: upt_conv_Cons [of k] close_step_def insert_at_def nth_append closed_at_def
        closed_seqs_at_def Let_def)
qed

lemma close_orphans_eq:
  assumes "length seqs = length msgs"
  shows "close_orphan_tool_calls_with mint salvage seqs msgs =
     (concat (map (\<lambda>i. closed_seqs_at (answered msgs) (msgs ! i) (seqs ! i)) [0..<length msgs]),
      concat (map (\<lambda>i. closed_at mint salvage (answered msgs) i (msgs ! i)) [0..<length msgs]))"
  using close_loop [OF assms, of 0] by (simp add: close_orphan_tool_calls_with_def)

lemma closed_lengths:
  assumes "length seqs = length msgs"
  shows "length (fst (close_orphan_tool_calls_with mint salvage seqs msgs)) =
         length (snd (close_orphan_tool_calls_with mint salvage seqs msgs))"
  by (simp add: close_orphans_eq [OF assms] length_concat closed_at_def closed_seqs_at_def comp_def
      if_distrib [of length] cong: if_cong)

lemma synth_ids:
  "List.map_filter call_id_of (msg_content (synth_message salvage mid os)) = []"
  "List.map_filter result_id_of (msg_content (synth_message salvage mid os)) = os"
  by (simp_all add: synth_message_def List.map_filter_def comp_def)

lemma closed_no_orphan:
  assumes "length seqs = length msgs"
  shows "\<not> has_orphan_tool_call (snd (close_orphan_tool_calls_with mint salvage seqs msgs))"
proof -
  let ?out = "snd (close_orphan_tool_calls_with mint salvage seqs msgs)"
  have mem: "m \<in> set ?out" if "m \<in> set msgs" for m
    using that by (auto simp: close_orphans_eq [OF assms] closed_at_def in_set_conv_nth)
  have ans: "set (answered msgs) \<subseteq> set (answered ?out)"
    using mem by (auto simp: answered_def map_filter_set)
  have "i \<in> set (answered ?out)" if "i \<in> set (calls_in ?out)" for i
  proof -
    from that obtain m c where mc: "m \<in> set ?out" "c \<in> set (msg_content m)" "call_id_of c = Some i"
      by (auto simp: calls_in_def map_filter_set)
    have "i \<in> set (List.map_filter call_id_of (msg_content m))"
      using mc by (auto simp: map_filter_set)
    with mc(1) obtain k where k: "k < length msgs" "m = msgs ! k"
      by (auto simp: close_orphans_eq [OF assms] closed_at_def synth_ids split: if_splits)
    show ?thesis
    proof (cases "i \<in> set (answered msgs)")
      case False
      then have o: "i \<in> set (orphans_of (answered msgs) m)"
        using mc by (auto simp: orphans_of_def map_filter_set)
      let ?s = "synth_message salvage (mint k) (orphans_of (answered msgs) m)"
      have "?s \<in> set ?out"
        using k o by (auto simp: close_orphans_eq [OF assms] closed_at_def intro!: bexI [of _ k])
      moreover have "i \<in> set (List.map_filter result_id_of (msg_content ?s))"
        using o by (simp add: synth_ids)
      ultimately show ?thesis
        by (auto simp: answered_def map_filter_set)
    qed (use ans in blast)
  qed
  then show ?thesis by (auto simp: has_orphan_iff)
qed

text \<open>The original messages stay, in order; what is added is tool-role messages of error results.\<close>

lemma closed_keeps_messages:
  assumes "length seqs = length msgs"
    and "\<forall>m \<in> set msgs. msg_id m \<notin> range mint"
  shows "filter (\<lambda>m. msg_id m \<notin> range mint) (snd (close_orphan_tool_calls_with mint salvage seqs msgs)) = msgs"
proof -
  have one: "filter (\<lambda>m. msg_id m \<notin> range mint) (closed_at mint salvage known i m) = [m]"
    if "m \<in> set msgs" for known i m
    using bspec [OF assms(2) that] by (simp add: closed_at_def synth_message_def)
  have eqn: "map (\<lambda>i. filter (\<lambda>m. msg_id m \<notin> range mint) (closed_at mint salvage known i (msgs ! i))) [0..<length msgs] =
      map (\<lambda>i. [msgs ! i]) [0..<length msgs]" for known
    by (rule map_cong) (simp_all add: one)
  show ?thesis
    unfolding close_orphans_eq [OF assms(1)] snd_conv filter_concat map_map comp_def eqn
    by (simp add: map_nth)
qed

subsection \<open>The cut\<close>

lemma find_cut_props:
  "pos \<le> length msgs \<Longrightarrow>
   pos \<le> find_cut msgs pos \<and> find_cut msgs pos \<le> length msgs \<and>
   (find_cut msgs pos = length msgs \<or> \<not> has_orphan_tool_call (take (find_cut msgs pos) msgs)) \<and>
   (\<forall>k. pos \<le> k \<and> k < find_cut msgs pos \<longrightarrow> has_orphan_tool_call (take k msgs))"
proof (induction msgs pos rule: find_cut.induct)
  case (1 msgs pos)
  show ?case
  proof (cases "length msgs \<le> pos \<or> \<not> has_orphan_tool_call (take pos msgs)")
    case True
    with 1(2) show ?thesis by (subst (1 2 3 4 5) find_cut.simps) auto
  next
    case False
    then have eq: "find_cut msgs pos = find_cut msgs (pos + 1)"
      by (subst find_cut.simps) simp
    have "k = pos \<or> pos + 1 \<le> k" if "pos \<le> k" for k using that by auto
    with False 1 show ?thesis unfolding eq by (metis Suc_eq_plus1 Suc_leD linorder_not_le not_less_eq_eq)
  qed
qed

lemma compact_span_messages:
  "cs_messages (compact_span_of seqs msgs) = take (find_cut msgs (length msgs div 2)) msgs"
  by (simp add: compact_span_of_def Let_def)

lemma compact_span_closed:
  assumes "\<not> has_orphan_tool_call msgs"
  shows "\<not> has_orphan_tool_call (cs_messages (compact_span_of seqs msgs))"
  using find_cut_props [of "length msgs div 2" msgs] assms by (auto simp: compact_span_messages)

subsection \<open>The plan as a whole\<close>

lemma length_folded: "length (folded_messages mint b64 parses sid d) = length (messages_of sid d)"
  by (simp add: folded_messages_def repair_unparseable_tool_args_def)

lemma plan_messages:
  "rp_messages (plan_request mint b64 parses sid st) =
     snd (close_orphan_tool_calls_with (\<lambda>i. mint (length (messages_of sid (st_db st)) + i))
       (salvage_from sid st) (map m_seq (sort_key m_seq (messages_of sid (st_db st))))
       (folded_messages mint b64 parses sid (st_db st)))"
  by (simp add: plan_request_def Let_def split: prod.split)

lemma plan_no_orphan: "\<not> has_orphan_tool_call (rp_messages (plan_request mint b64 parses sid st))"
  unfolding plan_messages by (rule closed_no_orphan) (simp add: length_folded)

lemma plan_compact:
  assumes "rp_compact (plan_request mint b64 parses sid st) = Some c"
  shows "\<exists>seqs. c = compact_span_of seqs (rp_messages (plan_request mint b64 parses sid st))"
    and "2 \<le> length (rp_messages (plan_request mint b64 parses sid st))"
  using assms
  by (auto simp: plan_request_def Let_def split: prod.splits option.splits if_splits)

lemma find_cut_pos: "2 \<le> length msgs \<Longrightarrow> 0 < find_cut msgs (length msgs div 2)"
  using find_cut_props [of "length msgs div 2" msgs] by auto

subsection \<open>Repaired arguments\<close>

lemma repair_parses:
  "parses ''{}'' \<Longrightarrow> ToolCall i n a \<in> set (concat (map msg_content (repair_unparseable_tool_args parses msgs))) \<Longrightarrow>
   parses a"
  by (auto simp: repair_unparseable_tool_args_def repair_content_def split: content.splits if_splits)

lemma repair_id:
  "\<forall>m \<in> set msgs. \<forall>i n a. ToolCall i n a \<in> set (msg_content m) \<longrightarrow> parses a \<Longrightarrow>
   repair_unparseable_tool_args parses msgs = msgs"
  unfolding repair_unparseable_tool_args_def
  by (intro map_idI) (auto simp: repair_content_def intro!: map_idI message.equality split: content.split)

lemma repair_calls: "calls_in (repair_unparseable_tool_args parses msgs) = calls_in msgs"
proof -
  have "call_id_of (repair_content parses c) = call_id_of c" for c
    by (cases c) (simp_all add: repair_content_def)
  then show ?thesis
    by (simp add: calls_in_def repair_unparseable_tool_args_def List.map_filter_def map_concat comp_def
        filter_map filter_concat)
qed

end
