(* ===== verification/Core_Tools.thy ===== *)
theory Core_Tools
  imports Core_Event Rust_Str
begin

text \<open>
  \<^verbatim>\<open>kn9t-core/src/toolspec.rs\<close>, \<^verbatim>\<open>registry.rs\<close> and \<^verbatim>\<open>hook.rs\<close>, and the composition of plugin hooks
  in \<^verbatim>\<open>kn9t-plugin/src/composed.rs\<close>. A plugin's answers are what the host gets back from another
  process, so a plugin is a record of functions from the arguments of a hook to its reply.
\<close>

subsection \<open>Tool specifications\<close>

datatype effect_kind = Shell | Fs_Read | Fs_Write | Network

record tool_effect =
  te_field :: string
  te_kind :: effect_kind

datatype default_policy = Policy_Allow | Policy_Ask | Policy_Deny

record tool_policy =
  tp_pattern_field :: "string option"
  tp_default :: default_policy
  tp_builtin_allow :: "string list"
  tp_builtin_deny :: "string list"

record tool_spec =
  ts_name :: string
  ts_description :: string
  ts_schema :: json
  ts_hidden :: bool
  ts_effects :: "tool_effect list"
  ts_policy :: tool_policy

subsection \<open>Wildcards\<close>

definition star :: char where
  "star = CHR ''*''"

text \<open>The loop over the parts: \<open>i\<close> is the index of the part, \<open>n\<close> their number.\<close>

fun match_parts :: "nat \<Rightarrow> nat \<Rightarrow> nat \<Rightarrow> string list \<Rightarrow> string \<Rightarrow> bool" where
  "match_parts n i pos [] v = True"
| "match_parts n i pos (p # ps) v =
     (if p = [] then match_parts n (i + 1) pos ps v
      else if i = 0 then starts_with v p \<and> match_parts n (i + 1) (length p) ps v
      else if i = n - 1 then ends_with (drop pos v) p \<and> match_parts n (i + 1) pos ps v
      else (case find_sub p (drop pos v) of
              Some idx \<Rightarrow> match_parts n (i + 1) (pos + idx + length p) ps v
            | None \<Rightarrow> False))"

definition wildcard_match :: "string \<Rightarrow> string \<Rightarrow> bool" where
  "wildcard_match pattern v =
     (if pattern = [star] then True
      else if star \<notin> set pattern then pattern = v
      else (let parts = split_on star pattern in match_parts (length parts) 0 0 parts v))"

definition matches_patterns :: "string \<Rightarrow> string list \<Rightarrow> bool" where
  "matches_patterns v patterns = (\<exists>p \<in> set patterns. wildcard_match p v)"

text \<open>The reference: a star stands for any sequence of characters, anything else for itself.\<close>

fun glob :: "string \<Rightarrow> string \<Rightarrow> bool" where
  "glob [] v = (v = [])"
| "glob (c # p) [] = (c = star \<and> glob p [])"
| "glob (c # p) (x # v) =
     (if c = star then glob p (x # v) \<or> glob (c # p) v else c = x \<and> glob p v)"

lemma glob_star: "glob (star # q) v \<longleftrightarrow> (\<exists>u w. v = u @ w \<and> glob q w)"
proof (induction v)
  case (Cons x v)
  have "(\<exists>u w. x # v = u @ w \<and> glob q w) \<longleftrightarrow> glob q (x # v) \<or> (\<exists>u w. v = u @ w \<and> glob q w)"
    by (metis append_Cons append_Nil list.exhaust list.inject)
  with Cons show ?case by simp
qed simp

lemma glob_literal: "star \<notin> set p \<Longrightarrow> glob (p @ q) v \<longleftrightarrow> (\<exists>w. v = p @ w \<and> glob q w)"
proof (induction p arbitrary: v)
  case (Cons c p)
  then show ?case by (cases v) auto
qed simp

lemma glob_exact: "star \<notin> set p \<Longrightarrow> glob p v \<longleftrightarrow> p = v"
  using glob_literal [of p "[]" v] by auto

text \<open>The parts after the first one, placed from left to right.\<close>

fun fits :: "string list \<Rightarrow> string \<Rightarrow> bool" where
  "fits [] v = (v = [])"
| "fits [p] v = (\<exists>u. v = u @ p)"
| "fits (p # q # ps) v = (\<exists>u w. v = u @ p @ w \<and> fits (q # ps) w)"

lemma fits_mono: "ps \<noteq> [] \<Longrightarrow> fits ps w \<Longrightarrow> fits ps (x @ w)"
proof (induction ps w rule: fits.induct)
  case (2 p v)
  then obtain u where "v = u @ p" by auto
  then show ?case by (simp flip: append_assoc)
next
  case (3 p q ps v)
  then obtain u w' where "v = u @ p @ w'" "fits (q # ps) w'" by auto
  then have "x @ v = (x @ u) @ p @ w' \<and> fits (q # ps) w'" by simp
  then show ?case unfolding fits.simps by blast
qed simp

lemma glob_fits:
  "ps \<noteq> [] \<Longrightarrow> \<forall>p \<in> set ps. star \<notin> set p \<Longrightarrow> glob (star # join_with star ps) v \<longleftrightarrow> fits ps v"
proof (induction ps v rule: fits.induct)
  case (2 p v)
  then show ?case by (simp add: glob_star glob_exact)
next
  case (3 p q ps v)
  then have "glob (star # join_with star (p # q # ps)) v \<longleftrightarrow>
      (\<exists>u w. v = u @ w \<and> (\<exists>w'. w = p @ w' \<and> glob (star # join_with star (q # ps)) w'))"
    using glob_literal [of p "star # join_with star (q # ps)"] by (simp add: glob_star [of "p @ _"])
  moreover have "glob (star # join_with star (q # ps)) w = fits (q # ps) w" for w
    using 3 by auto
  ultimately show ?case by auto
qed simp

lemma fits_greedy:
  assumes "ps \<noteq> []"
  shows "fits (p # ps) v \<longleftrightarrow>
     (case find_sub p v of Some i \<Rightarrow> fits ps (drop (i + length p) v) | None \<Rightarrow> False)"
proof -
  obtain q qs where ps: "ps = q # qs" using assms by (cases ps) auto
  show ?thesis
  proof (cases "find_sub p v")
    case None
    have "\<not> (\<exists>u w. v = u @ p @ w)"
    proof
      assume "\<exists>u w. v = u @ p @ w"
      then obtain u w where "v = u @ p @ w" by blast
      with find_sub_None [OF None, of "length u"] show False by simp
    qed
    with None ps show ?thesis by auto
  next
    case (Some i)
    note found = find_sub_SomeD [OF Some]
    have v: "v = take i v @ p @ drop (i + length p) v"
      using found by (metis append_take_drop_id drop_drop add.commute)
    have "fits ps (drop (i + length p) v)" if "v = u @ p @ w" "fits ps w" for u w
    proof -
      have "i \<le> length u"
        using found that(1) by (metis (no_types, lifting) append_eq_conv_conj linorder_not_le)
      then have "drop (i + length p) v = drop (i + length p) (u @ p) @ w"
        using that(1) by simp
      then show ?thesis using fits_mono [OF assms that(2)] by metis
    qed
    then have "fits (p # ps) v \<longleftrightarrow> fits ps (drop (i + length p) v)"
      unfolding ps fits.simps using v by blast
    with Some show ?thesis by simp
  qed
qed

lemma match_parts_fits:
  "1 \<le> i \<Longrightarrow> i + length ps = n \<Longrightarrow> ps \<noteq> [] \<Longrightarrow> pos \<le> length v \<Longrightarrow>
   match_parts n i pos ps v \<longleftrightarrow> fits ps (drop pos v)"
proof (induction ps arbitrary: i pos)
  case (Cons p ps)
  show ?case
  proof (cases ps)
    case Nil
    with Cons.prems show ?thesis by (auto simp: ends_with_iff)
  next
    case (Cons q qs)
    then have ps: "ps \<noteq> []" "i \<noteq> n - 1" using Cons.prems by auto
    show ?thesis
    proof (cases "p = []")
      case True
      have "fits ([] # ps) w \<longleftrightarrow> fits ps w" for w
        using fits_greedy [OF ps(1), of "[]" w] by (cases w) auto
      with True Cons.IH [of "i + 1" pos] Cons.prems ps show ?thesis by simp
    next
      case False
      have "match_parts n (i + 1) (pos + idx + length p) ps v \<longleftrightarrow> fits ps (drop (idx + length p) (drop pos v))"
        if "find_sub p (drop pos v) = Some idx" for idx
      proof -
        have "idx + length p \<le> length v - pos" using find_sub_SomeD [OF that] by auto
        with Cons.prems(4) have "pos + idx + length p \<le> length v" by arith
        then show ?thesis
          using Cons.IH [of "i + 1" "pos + idx + length p"] Cons.prems ps
          by (simp add: add.commute add.left_commute)
      qed
      with False Cons.prems ps fits_greedy [OF ps(1), of p "drop pos v"] show ?thesis
        by (auto split: option.splits)
    qed
  qed
qed simp

lemma match_parts_head:
  "match_parts n 0 0 (p # ps) v \<longleftrightarrow> starts_with v p \<and> match_parts n 1 (length p) ps v"
  by (auto simp: starts_with_iff)

lemma wildcard_match_glob: "wildcard_match pattern v \<longleftrightarrow> glob pattern v"
proof -
  consider "pattern = [star]" | "star \<notin> set pattern" | "pattern \<noteq> [star]" "star \<in> set pattern" by blast
  then show ?thesis
  proof cases
    case 1
    then show ?thesis by (simp add: wildcard_match_def glob_star)
  next
    case 2
    then show ?thesis by (auto simp: wildcard_match_def glob_exact)
  next
    case 3
    let ?parts = "split_on star pattern"
    have len: "2 \<le> length ?parts"
      using 3 by (simp add: length_split_on) (metis Suc_leI count_list_0_iff neq0_conv)
    then obtain p q ps where parts: "?parts = p # q # ps"
      by (metis One_nat_def Suc_1 Suc_le_length_iff)
    have nostar: "\<forall>x \<in> set ?parts. star \<notin> set x" by (intro ballI) (rule split_on_parts)
    have "glob pattern v = glob (p @ star # join_with star (q # ps)) v"
      using join_split [of star pattern] parts by simp
    also have "\<dots> \<longleftrightarrow> (\<exists>w. v = p @ w \<and> fits (q # ps) w)"
      using nostar parts glob_fits [of "q # ps"] by (simp add: glob_literal)
    also have "\<dots> \<longleftrightarrow> starts_with v p \<and> fits (q # ps) (drop (length p) v)"
      by (auto simp: starts_with_iff)
    also have "\<dots> \<longleftrightarrow> match_parts (length ?parts) 0 0 ?parts v"
      using match_parts_fits [of 1 "q # ps" "length ?parts" "length p" v] parts
        match_parts_head [of "length ?parts" p "q # ps" v]
      by (auto simp: starts_with_iff simp del: match_parts.simps(2))
    finally show ?thesis
      using 3 by (simp add: wildcard_match_def Let_def)
  qed
qed

subsection \<open>The registry\<close>

text \<open>A tool is its specification and what it is made of; order is insertion order.\<close>

definition reg_get :: "string \<Rightarrow> ('t \<Rightarrow> tool_spec) \<Rightarrow> 't list \<Rightarrow> 't option" where
  "reg_get name spec tools = find (\<lambda>t. ts_name (spec t) = name) tools"

definition reg_specs :: "('t \<Rightarrow> tool_spec) \<Rightarrow> 't list \<Rightarrow> tool_spec list" where
  "reg_specs spec tools = map spec tools"

definition visible_specs :: "('t \<Rightarrow> tool_spec) \<Rightarrow> 't list \<Rightarrow> tool_spec list" where
  "visible_specs spec tools = filter (\<lambda>s. \<not> ts_hidden s) (map spec tools)"

definition filter_names :: "string list \<Rightarrow> ('t \<Rightarrow> tool_spec) \<Rightarrow> 't list \<Rightarrow> 't list" where
  "filter_names names spec tools = filter (\<lambda>t. ts_name (spec t) \<in> set names) tools"

lemma reg_get_filter_names:
  "reg_get name spec (filter_names names spec tools) =
     (if name \<in> set names then reg_get name spec tools else None)"
  by (induction tools) (auto simp: reg_get_def filter_names_def find_None_iff)

lemma reg_get_append:
  "reg_get name spec (tools @ [t]) =
     (case reg_get name spec tools of
        Some x \<Rightarrow> Some x | None \<Rightarrow> if ts_name (spec t) = name then Some t else None)"
  by (induction tools) (auto simp: reg_get_def)

subsection \<open>Hooks\<close>

datatype hook_veto = Veto_Allow | Veto_Ask string | Veto_Deny string | Veto_Replace json

fun severity :: "hook_veto \<Rightarrow> nat" where
  "severity Veto_Allow = 0"
| "severity (Veto_Replace _) = 0"
| "severity (Veto_Ask _) = 1"
| "severity (Veto_Deny _) = 2"

definition is_replace :: "hook_veto \<Rightarrow> bool" where
  "is_replace v = (case v of Veto_Replace _ \<Rightarrow> True | _ \<Rightarrow> False)"

record next_turn_patch =
  np_model :: "model_ref option"
  np_thinking :: "thinking option"

definition no_patch :: next_turn_patch where
  "no_patch = \<lparr>np_model = None, np_thinking = None\<rparr>"

record hooks =
  hk_before_tool_call :: "string \<Rightarrow> json \<Rightarrow> string \<Rightarrow> hook_veto"
  hk_after_tool_call :: "string \<Rightarrow> json \<Rightarrow> string \<Rightarrow> content list \<Rightarrow> content list"
  hk_before_request :: "message list \<Rightarrow> model_ref \<Rightarrow> string option \<Rightarrow> message list"
  hk_should_stop :: "stop_reason \<Rightarrow> usage \<Rightarrow> nat \<Rightarrow> bool"
  hk_prepare_next_turn :: "stop_reason \<Rightarrow> usage \<Rightarrow> next_turn_patch"
  hk_get_steering :: "message list"
  hk_get_followup :: "message list"
  hk_get_api_key :: "string \<Rightarrow> string option"

definition noop_hooks :: hooks where
  "noop_hooks =
     \<lparr>hk_before_tool_call = (\<lambda>_ _ _. Veto_Allow), hk_after_tool_call = (\<lambda>_ _ _ r. r),
      hk_before_request = (\<lambda>ms _ _. ms), hk_should_stop = (\<lambda>_ _ _. False),
      hk_prepare_next_turn = (\<lambda>_ _. no_patch), hk_get_steering = [], hk_get_followup = [],
      hk_get_api_key = (\<lambda>_. None)\<rparr>"

text \<open>The loop over the plugins' replies, with the strictest reply so far.\<close>

fun compose_veto :: "hook_veto \<Rightarrow> hook_veto list \<Rightarrow> hook_veto" where
  "compose_veto strictest [] = strictest"
| "compose_veto strictest (v # vs) =
     (if is_replace v then v
      else compose_veto (if severity strictest < severity v then v else strictest) vs)"

definition merge_patch :: "next_turn_patch \<Rightarrow> next_turn_patch \<Rightarrow> next_turn_patch" where
  "merge_patch p q =
     \<lparr>np_model = (case np_model q of Some m \<Rightarrow> Some m | None \<Rightarrow> np_model p),
      np_thinking = (case np_thinking q of Some t \<Rightarrow> Some t | None \<Rightarrow> np_thinking p)\<rparr>"

fun first_key :: "string \<Rightarrow> hooks list \<Rightarrow> string option" where
  "first_key p [] = None"
| "first_key p (h # hs) = (case hk_get_api_key h p of Some k \<Rightarrow> Some k | None \<Rightarrow> first_key p hs)"

definition composed :: "hooks list \<Rightarrow> hooks" where
  "composed hs =
     \<lparr>hk_before_tool_call = (\<lambda>t a w. compose_veto Veto_Allow (map (\<lambda>h. hk_before_tool_call h t a w) hs)),
      hk_after_tool_call = (\<lambda>t a w r. fold (\<lambda>h r. hk_after_tool_call h t a w r) hs r),
      hk_before_request = (\<lambda>ms m s. fold (\<lambda>h ms. hk_before_request h ms m s) hs ms),
      hk_should_stop = (\<lambda>s u n. \<exists>h \<in> set hs. hk_should_stop h s u n),
      hk_prepare_next_turn = (\<lambda>s u. fold (\<lambda>h p. merge_patch p (hk_prepare_next_turn h s u)) hs no_patch),
      hk_get_steering = concat (map hk_get_steering hs),
      hk_get_followup = concat (map hk_get_followup hs),
      hk_get_api_key = (\<lambda>p. first_key p hs)\<rparr>"

lemma composed_Nil: "composed [] = noop_hooks"
  by (simp add: composed_def noop_hooks_def)

lemma compose_veto_strictest:
  "\<forall>v \<in> set vs. \<not> is_replace v \<Longrightarrow>
   compose_veto s vs \<in> insert s (set vs) \<and> (\<forall>v \<in> insert s (set vs). severity v \<le> severity (compose_veto s vs))"
proof (induction vs arbitrary: s)
  case (Cons v vs)
  let ?s = "if severity s < severity v then v else s"
  have "compose_veto ?s vs \<in> insert ?s (set vs) \<and>
      (\<forall>x \<in> insert ?s (set vs). severity x \<le> severity (compose_veto ?s vs))"
    by (rule Cons.IH) (use Cons.prems in simp)
  with Cons.prems show ?case by (auto split: if_splits)
qed simp

lemma compose_veto_replace:
  "\<forall>v \<in> set us. \<not> is_replace v \<Longrightarrow> is_replace r \<Longrightarrow> compose_veto s (us @ r # vs) = r"
  by (induction us arbitrary: s) auto

end
