(* ===== verification/Provider_Assemble.thy ===== *)
theory Provider_Assemble
  imports Core_Event
begin

text \<open>
  \<^verbatim>\<open>kn9t-provider-core/src/assemble.rs\<close>: a stream of chunks becomes one assistant message. A stream
  is the list of what the iterator yields until it ends; \<open>parses\<close> stands for
  \<^verbatim>\<open>serde_json::from_str::<Value>\<close> succeeding. The outcome is the events emitted on the way and the
  assembled message or the error. \<open>asm_text\<close> and \<open>asm_calls\<close> say what the message holds, without the
  accumulators.
\<close>

subsection \<open>Chunks and accumulators\<close>

datatype chunk =
    Chunk_Text nat string
  | Chunk_Thinking nat string
  | Chunk_ToolCall nat call_id string
  | Chunk_ToolArgs nat string
  | Chunk_Usage usage
  | Chunk_Stop stop_reason

record tool_accum =
  ta_idx :: nat
  ta_id :: call_id
  ta_name :: string
  ta_args :: string

record assembled =
  am_message :: message
  am_usage :: usage
  am_stop :: stop_reason
  am_usage_reported :: bool

record asm =
  as_text :: "(nat \<times> string) list"
  as_think :: "(nat \<times> string) list"
  as_tools :: "tool_accum list"
  as_usage :: "usage option"
  as_stop :: stop_reason

definition asm_init :: asm where
  "asm_init = \<lparr>as_text = [], as_think = [], as_tools = [], as_usage = None, as_stop = Stop\<rparr>"

text \<open>\<^verbatim>\<open>iter_mut().find(...)\<close>, then extend the entry found or push a new one.\<close>

fun push_part :: "nat \<Rightarrow> string \<Rightarrow> (nat \<times> string) list \<Rightarrow> (nat \<times> string) list" where
  "push_part i d [] = [(i, d)]"
| "push_part i d ((j, s) # ps) = (if j = i then (j, s @ d) # ps else (j, s) # push_part i d ps)"

text \<open>Arguments for a call that was not announced are dropped.\<close>

fun push_args :: "nat \<Rightarrow> string \<Rightarrow> tool_accum list \<Rightarrow> tool_accum list" where
  "push_args i d [] = []"
| "push_args i d (t # ts) =
     (if ta_idx t = i then t\<lparr>ta_args := ta_args t @ d\<rparr> # ts else t # push_args i d ts)"

fun asm_chunk :: "msg_id \<Rightarrow> chunk \<Rightarrow> asm \<Rightarrow> live_event list \<times> asm" where
  "asm_chunk m (Chunk_Text i d) s = ([TextDelta m i d], s\<lparr>as_text := push_part i d (as_text s)\<rparr>)"
| "asm_chunk m (Chunk_Thinking i d) s =
     ([ThinkingDelta m i d], s\<lparr>as_think := push_part i d (as_think s)\<rparr>)"
| "asm_chunk m (Chunk_ToolCall i c n) s =
     ([], s\<lparr>as_tools := as_tools s @ [\<lparr>ta_idx = i, ta_id = c, ta_name = n, ta_args = []\<rparr>]\<rparr>)"
| "asm_chunk m (Chunk_ToolArgs i d) s =
     ([ToolArgsDelta m i d], s\<lparr>as_tools := push_args i d (as_tools s)\<rparr>)"
| "asm_chunk m (Chunk_Usage u) s = ([], s\<lparr>as_usage := Some u\<rparr>)"
| "asm_chunk m (Chunk_Stop r) s = ([], s\<lparr>as_stop := r\<rparr>)"

fun asm_loop :: "msg_id \<Rightarrow> (prov_err + chunk) list \<Rightarrow> asm \<Rightarrow> live_event list \<times> (prov_err + asm)" where
  "asm_loop m [] s = ([], Inr s)"
| "asm_loop m (Inl e # cs) s = ([], Inl e)"
| "asm_loop m (Inr c # cs) s =
     (let (es, s') = asm_chunk m c s; (es', r) = asm_loop m cs s' in (es @ es', r))"

definition text_blocks :: "(string \<Rightarrow> content) \<Rightarrow> (nat \<times> string) list \<Rightarrow> content list" where
  "text_blocks f ps = map f (filter (\<lambda>s. s \<noteq> []) (map snd (sort_key fst ps)))"

text \<open>The calls in index order; a call whose arguments do not parse means the stream was cut.\<close>

fun call_blocks :: "(string \<Rightarrow> bool) \<Rightarrow> tool_accum list \<Rightarrow> prov_err + content list" where
  "call_blocks parses [] = Inr []"
| "call_blocks parses (t # ts) =
     (let args = if ta_args t = [] then ''{}'' else ta_args t
      in if \<not> parses args then Inl Truncated
         else bind_res (call_blocks parses ts)
           (\<lambda>cs. Inr (content.ToolCall (ta_id t) (ta_name t) args # cs)))"

definition asm_finish :: "(string \<Rightarrow> bool) \<Rightarrow> msg_id \<Rightarrow> asm \<Rightarrow> prov_err + assembled" where
  "asm_finish parses m s =
     bind_res (call_blocks parses (sort_key ta_idx (as_tools s)))
       (\<lambda>calls. Inr
         \<lparr>am_message =
            \<lparr>msg_id = m, msg_role = Role_Assistant,
             msg_content =
               text_blocks Text (as_text s) @ text_blocks (\<lambda>t. content.Thinking t None) (as_think s) @ calls,
             msg_silent = False\<rparr>,
          am_usage = (case as_usage s of Some u \<Rightarrow> u
            | None \<Rightarrow> \<lparr>u_tokens = tokens_default, u_model = \<lparr>mr_provider = [], mr_id = []\<rparr>\<rparr>),
          am_stop = as_stop s,
          am_usage_reported = (as_usage s \<noteq> None)\<rparr>)"

definition assemble ::
  "(string \<Rightarrow> bool) \<Rightarrow> msg_id \<Rightarrow> (prov_err + chunk) list \<Rightarrow> live_event list \<times> (prov_err + assembled)" where
  "assemble parses m cs =
     (let (es, r) = asm_loop m cs asm_init in (es, bind_res r (asm_finish parses m)))"

subsection \<open>What a stream says\<close>

text \<open>The deltas of one kind, with their block indices, and the text of a block.\<close>

definition text_deltas :: "chunk list \<Rightarrow> (nat \<times> string) list" where
  "text_deltas cs = concat (map (\<lambda>c. case c of Chunk_Text i d \<Rightarrow> [(i, d)] | _ \<Rightarrow> []) cs)"

definition think_deltas :: "chunk list \<Rightarrow> (nat \<times> string) list" where
  "think_deltas cs = concat (map (\<lambda>c. case c of Chunk_Thinking i d \<Rightarrow> [(i, d)] | _ \<Rightarrow> []) cs)"

definition arg_deltas :: "chunk list \<Rightarrow> (nat \<times> string) list" where
  "arg_deltas cs = concat (map (\<lambda>c. case c of Chunk_ToolArgs i d \<Rightarrow> [(i, d)] | _ \<Rightarrow> []) cs)"

definition call_heads :: "chunk list \<Rightarrow> (nat \<times> call_id \<times> string) list" where
  "call_heads cs = concat (map (\<lambda>c. case c of Chunk_ToolCall i k n \<Rightarrow> [(i, k, n)] | _ \<Rightarrow> []) cs)"

definition joined :: "(nat \<times> string) list \<Rightarrow> nat \<Rightarrow> string" where
  "joined ds i = concat (map snd (filter (\<lambda>p. fst p = i) ds))"

definition blocks_of :: "(nat \<times> string) list \<Rightarrow> string list" where
  "blocks_of ds = filter (\<lambda>s. s \<noteq> []) (map (joined ds) (sorted_list_of_set (fst ` set ds)))"

definition delta_event :: "msg_id \<Rightarrow> chunk \<Rightarrow> live_event list" where
  "delta_event m c = (case c of
     Chunk_Text i d \<Rightarrow> [TextDelta m i d] | Chunk_Thinking i d \<Rightarrow> [ThinkingDelta m i d]
   | Chunk_ToolArgs i d \<Rightarrow> [ToolArgsDelta m i d] | _ \<Rightarrow> [])"

text \<open>A stream announces a call before its arguments, once.\<close>

fun announced :: "nat set \<Rightarrow> chunk list \<Rightarrow> bool" where
  "announced A [] = True"
| "announced A (Chunk_ToolCall i c n # cs) = (i \<notin> A \<and> announced (insert i A) cs)"
| "announced A (Chunk_ToolArgs i d # cs) = (i \<in> A \<and> announced A cs)"
| "announced A (_ # cs) = announced A cs"

lemma deltas_simps [simp]:
  "text_deltas [] = []" "think_deltas [] = []" "arg_deltas [] = []" "call_heads [] = []"
  "text_deltas (c # cs) = (case c of Chunk_Text i d \<Rightarrow> [(i, d)] | _ \<Rightarrow> []) @ text_deltas cs"
  "think_deltas (c # cs) = (case c of Chunk_Thinking i d \<Rightarrow> [(i, d)] | _ \<Rightarrow> []) @ think_deltas cs"
  "arg_deltas (c # cs) = (case c of Chunk_ToolArgs i d \<Rightarrow> [(i, d)] | _ \<Rightarrow> []) @ arg_deltas cs"
  "call_heads (c # cs) = (case c of Chunk_ToolCall i k n \<Rightarrow> [(i, k, n)] | _ \<Rightarrow> []) @ call_heads cs"
  by (simp_all add: text_deltas_def think_deltas_def arg_deltas_def call_heads_def)

lemma joined_simps [simp]:
  "joined [] i = []"
  "joined ((j, d) # ds) i = (if j = i then d else []) @ joined ds i"
  by (simp_all add: joined_def)

subsection \<open>The accumulators hold it\<close>

lemma map_of_push_part:
  "map_of (push_part i d ps) j =
     (if j = i then Some (case map_of ps i of None \<Rightarrow> d | Some s \<Rightarrow> s @ d) else map_of ps j)"
  by (induction ps) auto

lemma push_part_keys:
  "fst ` set (push_part i d ps) = insert i (fst ` set ps)"
  "distinct (map fst ps) \<Longrightarrow> distinct (map fst (push_part i d ps))"
proof (induction ps)
  case (Cons p ps)
  { case 1 then show ?case using Cons(1) by (cases p) auto
  next
    case 2 then show ?case using Cons by (cases p) auto }
qed auto

lemma map_of_push_parts:
  "map_of (fold (\<lambda>(i, d). push_part i d) ds ps) j =
     (case map_of ps j of
        None \<Rightarrow> if j \<in> fst ` set ds then Some (joined ds j) else None
      | Some s \<Rightarrow> Some (s @ joined ds j))"
  by (induction ds arbitrary: ps)
    (auto simp: map_of_push_part joined_def split: option.splits)

lemma push_parts_keys:
  "distinct (map fst ps) \<Longrightarrow> distinct (map fst (fold (\<lambda>(i, d). push_part i d) ds ps)) \<and>
     fst ` set (fold (\<lambda>(i, d). push_part i d) ds ps) = fst ` set ps \<union> fst ` set ds"
proof (induction ds arbitrary: ps)
  case (Cons p ds)
  show ?case
    using Cons.IH [of "push_part (fst p) (snd p) ps"] Cons.prems
    by (cases p) (simp add: push_part_keys)
qed simp

lemma text_blocks_push_parts:
  "text_blocks f (fold (\<lambda>(i, d). push_part i d) ds []) = map f (blocks_of ds)"
proof -
  let ?ps = "fold (\<lambda>(i, d). push_part i d) ds []"
  let ?qs = "sort_key fst ?ps"
  have keys: "distinct (map fst ?ps)" "fst ` set ?ps = fst ` set ds"
    using push_parts_keys [of "[]" ds] by auto
  have "distinct (map fst ?qs)" using keys(1) by (metis distinct_map distinct_sort set_sort)
  then have order: "map fst ?qs = sorted_list_of_set (fst ` set ds)"
    using keys(2) sorted_list_of_set.idem_if_sorted_distinct [of "map fst ?qs"] by simp
  have "snd p = joined ds (fst p)" if "p \<in> set ?qs" for p
  proof -
    have "map_of ?ps (fst p) = Some (snd p)" using keys(1) that by simp
    moreover have "fst p \<in> fst ` set ds" using that keys(2) by auto
    ultimately show ?thesis by (simp add: map_of_push_parts)
  qed
  then have "map snd ?qs = map (joined ds) (map fst ?qs)" by simp
  with order show ?thesis by (simp add: text_blocks_def blocks_of_def)
qed

lemma asm_loop_ok:
  "asm_loop m (map Inr cs) s =
     (concat (map (delta_event m) cs), Inr (fold (\<lambda>c s. snd (asm_chunk m c s)) cs s))"
proof (induction cs arbitrary: s)
  case (Cons c cs)
  then show ?case by (cases c) (simp_all add: delta_event_def)
qed simp

lemma asm_loop_error:
  "asm_loop m (map Inr cs @ Inl e # rest) s = (concat (map (delta_event m) cs), Inl e)"
proof (induction cs arbitrary: s)
  case (Cons c cs)
  then show ?case by (cases c) (simp_all add: delta_event_def)
qed simp

lemma fold_asm_text:
  "as_text (fold (\<lambda>c s. snd (asm_chunk m c s)) cs s) =
     fold (\<lambda>(i, d). push_part i d) (text_deltas cs) (as_text s)"
proof (induction cs arbitrary: s)
  case (Cons c cs)
  then show ?case by (cases c) simp_all
qed simp

lemma fold_asm_think:
  "as_think (fold (\<lambda>c s. snd (asm_chunk m c s)) cs s) =
     fold (\<lambda>(i, d). push_part i d) (think_deltas cs) (as_think s)"
proof (induction cs arbitrary: s)
  case (Cons c cs)
  then show ?case by (cases c) simp_all
qed simp

lemma push_args_map:
  "distinct (map ta_idx ts) \<Longrightarrow>
   push_args i d ts = map (\<lambda>t. if ta_idx t = i then t\<lparr>ta_args := ta_args t @ d\<rparr> else t) ts"
proof (induction ts)
  case (Cons t ts)
  then have "ta_idx t = i \<Longrightarrow> map (\<lambda>t. if ta_idx t = i then t\<lparr>ta_args := ta_args t @ d\<rparr> else t) ts = ts"
    by (intro map_idI) (auto simp: image_iff)
  with Cons show ?case by auto
qed simp

lemma fold_asm_tools:
  "announced (ta_idx ` set (as_tools s)) cs \<Longrightarrow> distinct (map ta_idx (as_tools s)) \<Longrightarrow>
   as_tools (fold (\<lambda>c s. snd (asm_chunk m c s)) cs s) =
     map (\<lambda>t. t\<lparr>ta_args := ta_args t @ joined (arg_deltas cs) (ta_idx t)\<rparr>) (as_tools s) @
     map (\<lambda>(i, c, n). \<lparr>ta_idx = i, ta_id = c, ta_name = n, ta_args = joined (arg_deltas cs) i\<rparr>) (call_heads cs)"
proof (induction cs arbitrary: s)
  case (Cons c cs)
  show ?case
  proof (cases c)
    case (Chunk_ToolCall i k n)
    let ?s = "snd (asm_chunk m c s)"
    have "announced (ta_idx ` set (as_tools ?s)) cs" "distinct (map ta_idx (as_tools ?s))"
      using Cons.prems Chunk_ToolCall by auto
    from Cons.IH [OF this] show ?thesis using Chunk_ToolCall by simp
  next
    case (Chunk_ToolArgs i d)
    let ?s = "snd (asm_chunk m c s)"
    have s: "as_tools ?s = map (\<lambda>t. if ta_idx t = i then t\<lparr>ta_args := ta_args t @ d\<rparr> else t) (as_tools s)"
      using Chunk_ToolArgs Cons.prems(2) by (simp add: push_args_map)
    have idx: "map ta_idx (as_tools ?s) = map ta_idx (as_tools s)" by (simp add: s)
    then have "ta_idx ` set (as_tools ?s) = ta_idx ` set (as_tools s)" by (metis list.set_map)
    with Cons.IH [of ?s] Cons.prems idx Chunk_ToolArgs
    have "as_tools (fold (\<lambda>c s. snd (asm_chunk m c s)) cs ?s) =
        map (\<lambda>t. t\<lparr>ta_args := ta_args t @ joined (arg_deltas cs) (ta_idx t)\<rparr>) (as_tools ?s) @
        map (\<lambda>(i, c, n). \<lparr>ta_idx = i, ta_id = c, ta_name = n, ta_args = joined (arg_deltas cs) i\<rparr>) (call_heads cs)"
      by simp
    moreover have "i \<notin> fst ` set (call_heads cs)"
    proof -
      have "announced A cs \<Longrightarrow> i \<in> A \<Longrightarrow> i \<notin> fst ` set (call_heads cs)" for A
        by (induction A cs rule: announced.induct) auto
      moreover have "announced (ta_idx ` set (as_tools s)) cs" "i \<in> ta_idx ` set (as_tools s)"
        using Cons.prems(1) Chunk_ToolArgs by auto
      ultimately show ?thesis by blast
    qed
    then have "map (\<lambda>(j, c, n). \<lparr>ta_idx = j, ta_id = c, ta_name = n, ta_args = joined (arg_deltas cs) j\<rparr>) (call_heads cs)
        = map (\<lambda>(j, c, n). \<lparr>ta_idx = j, ta_id = c, ta_name = n,
            ta_args = joined ((i, d) # arg_deltas cs) j\<rparr>) (call_heads cs)"
      by (intro map_cong) (auto simp: image_iff)
    moreover have "map (\<lambda>t. t\<lparr>ta_args := ta_args t @ joined (arg_deltas cs) (ta_idx t)\<rparr>) (as_tools ?s) =
        map (\<lambda>t. t\<lparr>ta_args := ta_args t @ joined ((i, d) # arg_deltas cs) (ta_idx t)\<rparr>) (as_tools s)"
      unfolding s map_map by (intro map_cong) auto
    ultimately show ?thesis
      using Chunk_ToolArgs by simp
  qed (use Cons in \<open>simp_all\<close>)
qed (simp add: asm_init_def)

subsection \<open>Assembly\<close>

definition call_args :: "chunk list \<Rightarrow> nat \<Rightarrow> string" where
  "call_args cs i = (if joined (arg_deltas cs) i = [] then ''{}'' else joined (arg_deltas cs) i)"

definition stream_calls :: "chunk list \<Rightarrow> content list" where
  "stream_calls cs =
     map (\<lambda>(i, c, n). content.ToolCall c n (call_args cs i)) (sort_key fst (call_heads cs))"

definition stream_content :: "chunk list \<Rightarrow> content list" where
  "stream_content cs =
     map Text (blocks_of (text_deltas cs)) @
     map (\<lambda>t. content.Thinking t None) (blocks_of (think_deltas cs)) @ stream_calls cs"

lemma insort_key_map: "insort_key k (f x) (map f xs) = map f (insort_key (k \<circ> f) x xs)"
  by (induction xs) auto

lemma sort_key_map: "sort_key k (map f xs) = map f (sort_key (k \<circ> f) xs)"
  by (induction xs) (simp_all add: insort_key_map [unfolded comp_def] comp_def)

lemma call_blocks_InrD:
  "call_blocks parses ts = Inr cs \<Longrightarrow> c \<in> set cs \<Longrightarrow> \<exists>i n args. c = content.ToolCall i n args \<and> parses args"
  by (induction ts arbitrary: cs) (auto simp: Let_def bind_res_Inr_iff split: if_splits)

lemma call_blocks_eq:
  "call_blocks parses ts =
     (if \<forall>t \<in> set ts. parses (if ta_args t = [] then ''{}'' else ta_args t)
      then Inr (map (\<lambda>t. content.ToolCall (ta_id t) (ta_name t)
                  (if ta_args t = [] then ''{}'' else ta_args t)) ts)
      else Inl Truncated)"
  by (induction ts) (auto simp: Let_def)

lemma call_blocks_stream:
  assumes "announced {} cs"
  shows "call_blocks parses (sort_key ta_idx (as_tools (fold (\<lambda>c s. snd (asm_chunk m c s)) cs asm_init))) =
     (if \<forall>h \<in> set (call_heads cs). parses (call_args cs (fst h)) then Inr (stream_calls cs) else Inl Truncated)"
proof -
  let ?f = "\<lambda>(i, c, n). \<lparr>ta_idx = i, ta_id = c, ta_name = n, ta_args = joined (arg_deltas cs) i\<rparr>"
  have "as_tools (fold (\<lambda>c s. snd (asm_chunk m c s)) cs asm_init) = map ?f (call_heads cs)"
    using fold_asm_tools [of asm_init cs m] assms by (simp add: asm_init_def)
  moreover have "ta_idx \<circ> ?f = fst" by auto
  ultimately have "sort_key ta_idx (as_tools (fold (\<lambda>c s. snd (asm_chunk m c s)) cs asm_init)) =
      map ?f (sort_key fst (call_heads cs))"
    by (simp add: sort_key_map)
  then show ?thesis
    by (auto simp: call_blocks_eq stream_calls_def call_args_def split_def)
qed

lemma fold_asm_usage:
  "as_usage (fold (\<lambda>c s. snd (asm_chunk m c s)) cs s) \<noteq> None \<longleftrightarrow>
     as_usage s \<noteq> None \<or> (\<exists>u. Chunk_Usage u \<in> set cs)"
proof (induction cs arbitrary: s)
  case (Cons c cs)
  then show ?case by (cases c) auto
qed simp

lemma assemble_complete:
  assumes "announced {} cs"
  shows "fst (assemble parses m (map Inr cs)) = concat (map (delta_event m) cs) \<and>
     (case snd (assemble parses m (map Inr cs)) of
        Inl e \<Rightarrow> e = Truncated \<and> (\<exists>h \<in> set (call_heads cs). \<not> parses (call_args cs (fst h)))
      | Inr a \<Rightarrow> (\<forall>h \<in> set (call_heads cs). parses (call_args cs (fst h))) \<and>
          am_message a = \<lparr>msg_id = m, msg_role = Role_Assistant, msg_content = stream_content cs, msg_silent = False\<rparr> \<and>
          (am_usage_reported a \<longleftrightarrow> (\<exists>u. Chunk_Usage u \<in> set cs)))"
proof -
  let ?s = "fold (\<lambda>c s. snd (asm_chunk m c s)) cs asm_init"
  have texts: "text_blocks f (as_text ?s) = map f (blocks_of (text_deltas cs))"
    "text_blocks f (as_think ?s) = map f (blocks_of (think_deltas cs))" for f
    by (simp_all add: fold_asm_text fold_asm_think asm_init_def text_blocks_push_parts)
  have usage: "as_usage ?s \<noteq> None \<longleftrightarrow> (\<exists>u. Chunk_Usage u \<in> set cs)"
    by (simp only: fold_asm_usage) (simp add: asm_init_def)
  show ?thesis
    using call_blocks_stream [OF assms, of parses m] usage
    by (simp add: assemble_def asm_loop_ok asm_finish_def texts stream_content_def)
qed

text \<open>Any stream: what is emitted before the first error, and that error.\<close>

lemma assemble_error:
  "assemble parses m (map Inr cs @ Inl e # rest) = (concat (map (delta_event m) cs), Inl e)"
  by (simp add: assemble_def asm_loop_error)

lemma assemble_InrD:
  assumes "snd (assemble parses m cs) = Inr a"
  shows "\<exists>ok. cs = map Inr ok \<and> msg_id (am_message a) = m \<and> msg_role (am_message a) = Role_Assistant \<and>
     (\<forall>c n args. content.ToolCall c n args \<in> set (msg_content (am_message a)) \<longrightarrow> parses args)"
proof -
  have "(\<exists>ok. cs = map Inr ok) \<or> (\<exists>ok e rest. cs = map Inr ok @ Inl e # rest)"
  proof (induction cs)
    case (Cons c cs)
    show ?case
    proof (cases c)
      case (Inr x)
      with Cons show ?thesis by (metis append_Cons list.simps(9))
    qed (metis append_Nil list.simps(8))
  qed simp
  moreover have "\<not> (\<exists>ok e rest. cs = map Inr ok @ Inl e # rest)"
    using assms by (auto simp: assemble_error)
  ultimately obtain ok where ok: "cs = map Inr ok" by blast
  with assms show ?thesis
    by (auto simp: assemble_def asm_loop_ok asm_finish_def bind_res_Inr_iff text_blocks_def
        dest: call_blocks_InrD)
qed

end
