(* ===== verification/Provider_Retry.thy ===== *)
theory Provider_Retry
  imports Core_Event Rust_Str
begin

text \<open>
  \<^verbatim>\<open>kn9t-provider-core/src/retry.rs\<close>: the retry wrapper around opening a stream, and the
  classification of errors that decides it. \<open>attempt\<close> is the closure that is called again, with the
  state \<open>'w\<close> of everything outside; \<open>dbg\<close> is the \<^verbatim>\<open>Debug\<close> rendering of an error. What the wrapper
  does is returned as a trace: the attempts, the events it emits, the pauses.
\<close>

subsection \<open>Classification (error.rs, retry.rs)\<close>

definition prov_err_display :: "prov_err \<Rightarrow> string" where
  "prov_err_display e = (case e of
     Connect s \<Rightarrow> ''connect error: '' @ s
   | Http status body \<Rightarrow> ''http '' @ show_nat status @ '': '' @ body
   | Stream s \<Rightarrow> ''stream error: '' @ s
   | ContextOverflow \<Rightarrow> ''context overflow''
   | Truncated \<Rightarrow> ''stream truncated with unfinished tool calls''
   | Decode s \<Rightarrow> ''decode error: '' @ s)"

definition is_retryable :: "prov_err \<Rightarrow> bool" where
  "is_retryable e = (case e of
     Connect _ \<Rightarrow> True
   | Http status _ \<Rightarrow> status = 429 \<or> 500 \<le> status \<and> status \<le> 599
   | _ \<Rightarrow> False)"

definition is_context_overflow :: "nat \<Rightarrow> string \<Rightarrow> bool" where
  "is_context_overflow status body =
     (if status \<noteq> 400 \<and> status \<noteq> 413 \<and> status \<noteq> 422 then False
      else let b = map ascii_lower body in
        str_contains b ''context_length_exceeded'' \<or>
        str_contains b ''context length exceeded'' \<or>
        str_contains b ''maximum context length'' \<or>
        str_contains b ''context limit'' \<or>
        str_contains b ''reduce the length of the messages'' \<or>
        str_contains b ''prompt is too long'' \<or>
        str_contains b ''too many tokens'' \<or>
        str_contains b ''context window'' \<and>
          (str_contains b ''exceed'' \<or> str_contains b ''too long'' \<or> str_contains b ''too large''))"

text \<open>No failure is both retried as it is and answered by compacting.\<close>

lemma overflow_not_retryable:
  "is_context_overflow status body \<Longrightarrow> \<not> is_retryable (Http status body')"
  by (auto simp: is_context_overflow_def is_retryable_def split: if_splits)

subsection \<open>The retry loop\<close>

record backoff =
  bo_initial_ms :: nat
  bo_factor :: f64
  bo_max_ms :: nat

definition default_backoff :: backoff where
  "default_backoff = \<lparr>bo_initial_ms = 500, bo_factor = 2, bo_max_ms = 10000\<rparr>"

text \<open>\<^verbatim>\<open>(delay_ms as f64 * factor) as u64\<close>, a saturating cast, then the cap.\<close>

definition next_delay :: "backoff \<Rightarrow> nat \<Rightarrow> nat" where
  "next_delay b d =
     (let d' = nat (max 0 (min u64_max \<lfloor>of_nat d * bo_factor b\<rfloor>))
      in if bo_max_ms b < d' then bo_max_ms b else d')"

datatype retry_step = Attempted | Emitted live_event | Slept nat

definition retry_events :: "(prov_err \<Rightarrow> string) \<Rightarrow> nat \<Rightarrow> nat \<Rightarrow> nat \<Rightarrow> prov_err \<Rightarrow> live_event list" where
  "retry_events dbg n mx delay e =
     [RetryAttempt (n + 1) mx (dbg e) delay ''provider'',
      TurnStatus ''retrying''
        (''retry '' @ show_nat (n + 1) @ ''/'' @ show_nat mx @ '' in '' @ show_nat delay @ ''ms: '' @ dbg e)]"

function retry_loop ::
  "(prov_err \<Rightarrow> string) \<Rightarrow> nat \<Rightarrow> backoff \<Rightarrow> bool \<Rightarrow> ('w \<Rightarrow> (prov_err + 'i) \<times> 'w) \<Rightarrow> nat \<Rightarrow> nat
    \<Rightarrow> prov_err option \<Rightarrow> 'w \<Rightarrow> (prov_err + 'i) \<times> 'w \<times> retry_step list" where
  "retry_loop dbg mx b sink attempt n delay lst w =
     (if mx < n
      then (Inl (case lst of Some e \<Rightarrow> e | None \<Rightarrow> Connect ''max retries exceeded''), w, [])
      else case attempt w of
        (Inr i, w') \<Rightarrow> (Inr i, w', [Attempted])
      | (Inl e, w') \<Rightarrow>
          if n = mx then (Inl e, w', [Attempted])
          else if \<not> is_retryable e then (Inl e, w', [Attempted])
          else (case retry_loop dbg mx b sink attempt (n + 1) (next_delay b delay) (Some e) w' of
                  (r, w'', tr) \<Rightarrow>
                    (r, w'', [Attempted] @ (if sink then map Emitted (retry_events dbg n mx delay e) else []) @
                       [Slept delay] @ tr)))"
  by pat_completeness auto
termination
  by (relation "measure (\<lambda>(_, mx, _, _, _, n, _). Suc mx - n)") auto

declare retry_loop.simps [simp del]

definition with_retry_with_sink ::
  "(prov_err \<Rightarrow> string) \<Rightarrow> nat \<Rightarrow> backoff \<Rightarrow> bool \<Rightarrow> ('w \<Rightarrow> (prov_err + 'i) \<times> 'w) \<Rightarrow> 'w
    \<Rightarrow> (prov_err + 'i) \<times> 'w \<times> retry_step list" where
  "with_retry_with_sink dbg mx b sink attempt w =
     retry_loop dbg mx b sink attempt 0 (bo_initial_ms b) None w"

definition with_retry ::
  "(prov_err \<Rightarrow> string) \<Rightarrow> nat \<Rightarrow> backoff \<Rightarrow> ('w \<Rightarrow> (prov_err + 'i) \<times> 'w) \<Rightarrow> 'w
    \<Rightarrow> (prov_err + 'i) \<times> 'w \<times> retry_step list" where
  "with_retry dbg mx b attempt w = with_retry_with_sink dbg mx b False attempt w"

subsection \<open>What it does\<close>

text \<open>The outcomes of calling the closure again and again, as far as the loop looks at them.\<close>

fun outcomes :: "('w \<Rightarrow> (prov_err + 'i) \<times> 'w) \<Rightarrow> nat \<Rightarrow> 'w \<Rightarrow> (prov_err + 'i) list" where
  "outcomes attempt 0 w = []"
| "outcomes attempt (Suc k) w = (let (r, w') = attempt w in r # outcomes attempt k w')"

definition final :: "prov_err + 'i \<Rightarrow> bool" where
  "final r = (case r of Inr _ \<Rightarrow> True | Inl e \<Rightarrow> \<not> is_retryable e)"

definition attempts :: "retry_step list \<Rightarrow> nat" where
  "attempts tr = length (filter (\<lambda>s. s = Attempted) tr)"

definition pauses :: "retry_step list \<Rightarrow> nat list" where
  "pauses tr = concat (map (\<lambda>s. case s of Slept d \<Rightarrow> [d] | _ \<Rightarrow> []) tr)"

text \<open>The pauses of an exponential backoff.\<close>

fun backoffs :: "backoff \<Rightarrow> nat \<Rightarrow> nat \<Rightarrow> nat list" where
  "backoffs b d 0 = []"
| "backoffs b d (Suc k) = d # backoffs b (next_delay b d) k"

text \<open>The result is the first final outcome, or the last one when the budget runs out.\<close>

lemma retry_loop_final:
  "n \<le> mx \<Longrightarrow> attempt w = (x, w1) \<Longrightarrow> final x \<or> n = mx \<Longrightarrow>
   retry_loop dbg mx b sink attempt n d l w = (x, w1, [Attempted])"
  by (cases x) (auto simp: retry_loop.simps [of dbg mx b sink attempt n] final_def)

lemma retry_loop_again:
  "n < mx \<Longrightarrow> attempt w = (Inl e, w1) \<Longrightarrow> is_retryable e \<Longrightarrow>
   retry_loop dbg mx b sink attempt n d l w =
     (case retry_loop dbg mx b sink attempt (n + 1) (next_delay b d) (Some e) w1 of
        (r, w2, tr) \<Rightarrow>
          (r, w2, [Attempted] @ (if sink then map Emitted (retry_events dbg n mx d e) else []) @
             [Slept d] @ tr))"
  by (simp add: retry_loop.simps [of dbg mx b sink attempt n])

lemma retry_loop_spec:
  assumes "n \<le> mx" and "retry_loop dbg mx b sink attempt n d l w = (r, w', tr)"
  shows "\<exists>k. k \<le> mx - n \<and> attempts tr = Suc k \<and> pauses tr = backoffs b d k \<and>
     (let rs = outcomes attempt (Suc k) w in
        r = last rs \<and> (\<forall>x \<in> set (butlast rs). \<not> final x) \<and> (final r \<or> k = mx - n))"
  using assms
proof (induction "mx - n" arbitrary: n d l w r w' tr)
  case (0 n)
  then have n: "n = mx" by simp
  obtain x w1 where a: "attempt w = (x, w1)" by fastforce
  show ?case
    using 0(3) n a retry_loop_final [of n mx attempt w x w1] by (auto simp: attempts_def pauses_def)
next
  case (Suc m n)
  obtain x w1 where a: "attempt w = (x, w1)" by fastforce
  show ?case
  proof (cases "final x")
    case True
    then show ?thesis
      using Suc.hyps(2) Suc.prems a
        retry_loop_final [of n mx attempt w x w1]
      by (intro exI [of _ 0]) (auto simp: attempts_def pauses_def)
  next
    case False
    then obtain e where x: "x = Inl e" "is_retryable e" by (cases x) (auto simp: final_def)
    obtain r2 w2 tr2 where rec:
      "retry_loop dbg mx b sink attempt (n + 1) (next_delay b d) (Some e) w1 = (r2, w2, tr2)"
      by (metis prod_cases3)
    have eqs: "r = r2"
      "tr = [Attempted] @ (if sink then map Emitted (retry_events dbg n mx d e) else []) @ [Slept d] @ tr2"
      using Suc.prems Suc.hyps(2) a x rec retry_loop_again [of n mx attempt w e w1] by auto
    have "m = mx - (n + 1)" "n + 1 \<le> mx" using Suc.hyps(2) by auto
    from Suc.hyps(1) [OF this rec] obtain k where k: "k \<le> mx - (n + 1)" "attempts tr2 = Suc k"
      "pauses tr2 = backoffs b (next_delay b d) k"
      "r2 = last (outcomes attempt (Suc k) w1)"
      "\<forall>y \<in> set (butlast (outcomes attempt (Suc k) w1)). \<not> final y" "final r2 \<or> k = mx - (n + 1)"
      by (auto simp: Let_def)
    have "pauses tr = backoffs b d (Suc k)" "attempts tr = Suc (Suc k)"
      using k(2,3) eqs(2) by (auto simp: pauses_def attempts_def retry_events_def)
    moreover have "outcomes attempt (Suc k) w1 \<noteq> []" by (simp add: split_def Let_def)
    moreover have "outcomes attempt (Suc (Suc k)) w = x # outcomes attempt (Suc k) w1"
      using a by simp
    ultimately show ?thesis
      using k(1,4-6) eqs(1) False Suc.hyps(2) by (intro exI [of _ "Suc k"]) (auto simp: Let_def)
  qed
qed

lemma backoffs_bounded:
  "0 \<le> bo_factor b \<Longrightarrow> d \<le> max (bo_initial_ms b) (bo_max_ms b) \<Longrightarrow>
   \<forall>x \<in> set (backoffs b d k). x \<le> max (bo_initial_ms b) (bo_max_ms b)"
proof (induction k arbitrary: d)
  case (Suc k)
  have "next_delay b d \<le> max (bo_initial_ms b) (bo_max_ms b)"
    by (auto simp: next_delay_def Let_def)
  with Suc show ?case by auto
qed simp

end
