(* ===== verification/React_Env.thy ===== *)
theory React_Env
  imports Store_Plan Core_Tools Provider_Assemble Provider_Retry
begin

text \<open>
  What the loop of \<^verbatim>\<open>kn9t-react\<close> works on. The struct owns only trait objects, so the loop is
  parameterized by an \<open>env\<close> of their methods: the store acts on a state \<open>'s\<close>, everything else
  (provider, hooks, tools, approver, the cancel flag, the clock) on a state \<open>'x\<close> that holds whatever
  the rest of the process does meanwhile. A method that may panic returns \<open>None\<close> for it where the
  loop can observe the panic (hooks are called under \<^verbatim>\<open>catch_unwind\<close>, tools run on threads). The methods
  are functions, so each call returns: a provider, hook or sequential tool that hangs is not expressed, and
  what the theorems say of a turn or a run they say of one that returned. A method handed the sink also returns what it emits.

  The \<open>world\<close> adds what the loop itself does: the events emitted on the bus, in order, the worker
  threads of the tool batches, and \<open>w_log\<close>, the events whose append the store accepted, which only
  the theorems read.
\<close>

subsection \<open>Data (traits.rs, provider.rs, loop_.rs)\<close>

record request =
  rq_model :: model_spec
  rq_system :: "string option"
  rq_messages :: "message list"
  rq_tools :: "tool_spec list"
  rq_thinking :: thinking
  rq_max_tokens :: "nat option"
  rq_cache :: "cache list"
  rq_session :: "session_id option"

record handoff_plan =
  hp_keep :: "call_id list"
  hp_summarize :: "handoff_summary list"
  hp_drop_ids :: "call_id list"
  hp_resume_actions :: "string list"

record compaction_plan =
  cp_summary :: message
  cp_handoff :: "handoff_plan option"

record tool_call =
  tc_id :: call_id
  tc_name :: string
  tc_args :: string

datatype decision = Decide_Allow | Decide_Deny string | Decide_Ask | Decide_HardDeny string

record tool_output =
  to_content :: "content list"
  to_details :: "json option"
  to_is_error :: bool

record 'x tool =
  tl_spec :: tool_spec
  tl_parallel_safe :: bool
  tl_execute :: "json \<Rightarrow> call_id \<Rightarrow> 'x \<Rightarrow> live_event list \<times> (string + tool_output) option \<times> 'x"

record react_config =
  rc_truncation_attempts :: nat
  rc_truncation_ladder :: "nat list"
  rc_max_context_replans :: nat
  rc_max_turns :: "nat option"
  rc_tool_cancel_grace :: nat

text \<open>The grace is in milliseconds, like the clock.\<close>

definition default_config :: react_config where
  "default_config =
     \<lparr>rc_truncation_attempts = 4, rc_truncation_ladder = [150, 100, 50, 25, 10],
      rc_max_context_replans = 1, rc_max_turns = None, rc_tool_cancel_grace = 1500\<rparr>"

record run_params =
  pr_session :: session_id
  pr_model :: model_spec
  pr_thinking :: thinking
  pr_max_tokens :: "nat option"
  pr_cwd :: string
  pr_config :: react_config
  pr_system :: "string option"
  pr_disabled_tools :: "string list"
  pr_reactivation_reminder :: "message option"

datatype react_error =
    Err_Store string
  | Err_Provider string
  | CompactionLoop
  | CompactionUnavailable
  | TruncationGaveUp
  | TurnLimit

text \<open>How a call ends when it does not return a value: with an \<^verbatim>\<open>Err\<close>, or by unwinding.\<close>

datatype react_exit = Returned react_error | Unwound

subsection \<open>Threads\<close>

text \<open>A worker of a parallel batch: it announces itself, runs the tool, reports and sends.\<close>

datatype worker_phase =
    Wk_Start
  | Wk_Run
  | Wk_Report "content list" bool
  | Wk_Sent "content list" bool
  | Wk_Panicked

record 'x worker =
  wk_tool :: "'x tool"
  wk_args :: json
  wk_id :: call_id
  wk_name :: string
  wk_phase :: worker_phase

record ('s, 'x) world =
  w_store :: 's
  w_ext :: 'x
  w_out :: "live_event list"
  w_workers :: "'x worker list"
  w_log :: "event list"

subsection \<open>The trait objects\<close>

text \<open>
  \<open>e_poll\<close> is the wait of one poll interval: it says which workers make a step meanwhile.
  \<open>e_parse\<close> and \<open>e_render\<close> are \<^verbatim>\<open>serde_json\<close>'s parser and printer, \<open>e_dbg_prov\<close> and
  \<open>e_dbg_react\<close> the \<^verbatim>\<open>Debug\<close> renderings of errors, \<open>e_new_id\<close> is \<^verbatim>\<open>MsgId::new\<close>.
\<close>

record ('s, 'x) env =
  e_plan :: "session_id \<Rightarrow> 's \<Rightarrow> (string + request_plan) \<times> 's"
  e_append :: "session_id \<Rightarrow> event \<Rightarrow> 's \<Rightarrow> (string + nat) \<times> 's"
  e_stream :: "request \<Rightarrow> 'x \<Rightarrow> live_event list \<times> (prov_err + (prov_err + chunk) list) \<times> 'x"
  e_cancelled :: "'x \<Rightarrow> bool \<times> 'x"
  e_compactor :: "(compact_span \<Rightarrow> model_ref \<Rightarrow> 'x \<Rightarrow> (string + compaction_plan) \<times> 'x) option"
  e_tools :: "'x \<Rightarrow> 'x tool list \<times> 'x"
  e_blocked :: "'x \<Rightarrow> string list \<times> 'x"
  e_approve :: "tool_call \<Rightarrow> string \<Rightarrow> string \<Rightarrow> session_id \<Rightarrow> 'x \<Rightarrow> live_event list \<times> decision \<times> 'x"
  e_before_request :: "message list \<Rightarrow> model_ref \<Rightarrow> string option \<Rightarrow> 'x \<Rightarrow> message list option \<times> 'x"
  e_before_tool_call :: "string \<Rightarrow> json \<Rightarrow> string \<Rightarrow> 'x \<Rightarrow> hook_veto option \<times> 'x"
  e_after_tool_call :: "string \<Rightarrow> json \<Rightarrow> string \<Rightarrow> content list \<Rightarrow> 'x \<Rightarrow> content list option \<times> 'x"
  e_should_stop :: "stop_reason \<Rightarrow> usage \<Rightarrow> nat \<Rightarrow> 'x \<Rightarrow> bool option \<times> 'x"
  e_prepare_next_turn :: "stop_reason \<Rightarrow> usage \<Rightarrow> 'x \<Rightarrow> next_turn_patch option \<times> 'x"
  e_get_steering :: "'x \<Rightarrow> message list option \<times> 'x"
  e_get_followup :: "'x \<Rightarrow> message list option \<times> 'x"
  e_clock :: "'x \<Rightarrow> nat \<times> 'x"
  e_poll :: "'x \<Rightarrow> nat list \<times> 'x"
  e_new_id :: "'x \<Rightarrow> msg_id \<times> 'x"
  e_parse :: "string \<Rightarrow> string + json"
  e_render :: "json \<Rightarrow> string"
  e_dbg_prov :: "prov_err \<Rightarrow> string"
  e_dbg_react :: "react_error \<Rightarrow> string"

definition emit :: "live_event \<Rightarrow> ('s, 'x) world \<Rightarrow> ('s, 'x) world" where
  "emit l w = w\<lparr>w_out := w_out w @ [l]\<rparr>"

definition emits :: "live_event list \<Rightarrow> ('s, 'x) world \<Rightarrow> ('s, 'x) world" where
  "emits ls w = w\<lparr>w_out := w_out w @ ls\<rparr>"

definition ext :: "('x \<Rightarrow> 'a \<times> 'x) \<Rightarrow> ('s, 'x) world \<Rightarrow> 'a \<times> ('s, 'x) world" where
  "ext f w = (let (a, x) = f (w_ext w) in (a, w\<lparr>w_ext := x\<rparr>))"

definition status :: "string \<Rightarrow> string \<Rightarrow> live_event" where
  "status phase text = TurnStatus phase text"

text \<open>The dash of the messages, in UTF-8.\<close>

definition em_dash :: string where
  "em_dash = [CHR 0xE2, CHR 0x80, CHR 0x94]"

subsection \<open>Tool sources (loop_.rs)\<close>

text \<open>\<^verbatim>\<open>FilteredTools\<close>: the filter is applied to every snapshot.\<close>

definition filtered_tools :: "string list \<Rightarrow> ('s, 'x) env \<Rightarrow> ('s, 'x) env" where
  "filtered_tools names env =
     env\<lparr>e_tools := (\<lambda>x. let (ts, x') = e_tools env x in (filter_names names tl_spec ts, x'))\<rparr>"

text \<open>\<^verbatim>\<open>StaticTools\<close>: a fixed registry, nothing blocked.\<close>

definition static_tools :: "'x tool list \<Rightarrow> ('s, 'x) env \<Rightarrow> ('s, 'x) env" where
  "static_tools ts env = env\<lparr>e_tools := (\<lambda>x. (ts, x)), e_blocked := (\<lambda>x. ([], x))\<rparr>"

subsection \<open>The store, and usage (hooks.rs)\<close>

definition react_append ::
  "('s, 'x) env \<Rightarrow> run_params \<Rightarrow> event \<Rightarrow> ('s, 'x) world \<Rightarrow> (react_exit + nat) \<times> ('s, 'x) world" where
  "react_append env p ev w =
     (case e_append env (pr_session p) ev (w_store w) of
        (Inl e, s) \<Rightarrow> (Inl (Returned (Err_Store e)), w\<lparr>w_store := s\<rparr>)
      | (Inr n, s) \<Rightarrow> (Inr n, w\<lparr>w_store := s, w_log := w_log w @ [ev]\<rparr>))"

text \<open>\<^verbatim>\<open>for m in ms { self.append(..)?; }\<close>\<close>

fun append_messages ::
  "('s, 'x) env \<Rightarrow> run_params \<Rightarrow> message list \<Rightarrow> ('s, 'x) world \<Rightarrow> (react_exit + unit) \<times> ('s, 'x) world" where
  "append_messages env p [] w = (Inr (), w)"
| "append_messages env p (m # ms) w =
     try_st (react_append env p (MessageAppended 0 m) w) (\<lambda>_ w. append_messages env p ms w)"

definition usage_event :: "run_params \<Rightarrow> usage \<Rightarrow> usage_kind \<Rightarrow> bool \<Rightarrow> event" where
  "usage_event p u kind estimated =
     (let cost = cost_micros (u_tokens u) (ms_price (pr_model p))
      in UsageRecorded 0
        \<lparr>ur_provider = mr_provider (ms_ref (pr_model p)), ur_model = mr_id (ms_ref (pr_model p)),
         ur_kind = kind, ur_tokens = u_tokens u, ur_price = ms_price (pr_model p),
         ur_cost_micros = cost, ur_cost_usd = micros_to_usd cost, ur_estimated = estimated\<rparr>)"

definition record_usage ::
  "('s, 'x) env \<Rightarrow> run_params \<Rightarrow> usage \<Rightarrow> usage_kind \<Rightarrow> bool \<Rightarrow> ('s, 'x) world
    \<Rightarrow> (react_exit + unit) \<times> ('s, 'x) world" where
  "record_usage env p u kind estimated w =
     try_st (react_append env p (usage_event p u kind estimated) w) (\<lambda>_ w. (Inr (), w))"

subsection \<open>Hooks and what their failure means (hooks.rs)\<close>

definition hook_failed :: "hook_name \<Rightarrow> string \<Rightarrow> ('s, 'x) world \<Rightarrow> ('s, 'x) world" where
  "hook_failed h reason w = emit (HookFailed ''host'' h reason) w"

text \<open>\<^verbatim>\<open>catch_unwind\<close> around a hook: on a panic the fallback is used and the failure reported.\<close>

definition guarded ::
  "hook_name \<Rightarrow> 'a \<Rightarrow> ('x \<Rightarrow> 'a option \<times> 'x) \<Rightarrow> ('s, 'x) world \<Rightarrow> 'a \<times> ('s, 'x) world" where
  "guarded h fallback f w =
     (case ext f w of
        (Some v, w') \<Rightarrow> (v, w')
      | (None, w') \<Rightarrow> (fallback, hook_failed h ''hook panicked'' w'))"

definition hook_before_request ::
  "('s, 'x) env \<Rightarrow> message list \<Rightarrow> model_ref \<Rightarrow> string option \<Rightarrow> ('s, 'x) world
    \<Rightarrow> message list \<times> ('s, 'x) world" where
  "hook_before_request env msgs m system = guarded BeforeRequest msgs (e_before_request env msgs m system)"

definition hook_before_tool_call ::
  "('s, 'x) env \<Rightarrow> string \<Rightarrow> json \<Rightarrow> string \<Rightarrow> ('s, 'x) world \<Rightarrow> hook_veto \<times> ('s, 'x) world" where
  "hook_before_tool_call env tool args cwd =
     guarded BeforeToolCall (Veto_Deny ''before_tool_call hook failed; denied (fail closed)'')
       (e_before_tool_call env tool args cwd)"

definition hook_after_tool_call ::
  "('s, 'x) env \<Rightarrow> string \<Rightarrow> json \<Rightarrow> string \<Rightarrow> content list \<Rightarrow> ('s, 'x) world
    \<Rightarrow> content list \<times> ('s, 'x) world" where
  "hook_after_tool_call env tool args cwd result =
     guarded AfterToolCall result (e_after_tool_call env tool args cwd result)"

definition hook_should_stop ::
  "('s, 'x) env \<Rightarrow> stop_reason \<Rightarrow> usage \<Rightarrow> nat \<Rightarrow> ('s, 'x) world \<Rightarrow> bool \<times> ('s, 'x) world" where
  "hook_should_stop env stop u turn = guarded ShouldStopAfterTurn False (e_should_stop env stop u turn)"

definition collect_steering :: "('s, 'x) env \<Rightarrow> ('s, 'x) world \<Rightarrow> message list \<times> ('s, 'x) world" where
  "collect_steering env = guarded GetSteering [] (e_get_steering env)"

definition collect_followup :: "('s, 'x) env \<Rightarrow> ('s, 'x) world \<Rightarrow> message list \<times> ('s, 'x) world" where
  "collect_followup env = guarded GetFollowup [] (e_get_followup env)"

definition apply_prepare_next_turn ::
  "('s, 'x) env \<Rightarrow> run_params \<Rightarrow> stop_reason \<Rightarrow> usage \<Rightarrow> ('s, 'x) world \<Rightarrow> run_params \<times> ('s, 'x) world" where
  "apply_prepare_next_turn env p stop u w =
     (case guarded PrepareNextTurn no_patch (e_prepare_next_turn env stop u) w of (patch, w') \<Rightarrow>
        (let p1 = (case np_thinking patch of Some t \<Rightarrow> p\<lparr>pr_thinking := t\<rparr> | None \<Rightarrow> p);
             p2 = (case np_model patch of
                     Some m \<Rightarrow> p1\<lparr>pr_model := (pr_model p1)\<lparr>ms_ref := m\<rparr>\<rparr> | None \<Rightarrow> p1)
         in (p2, w')))"

subsection \<open>Frames\<close>

lemma emit_frame [simp]:
  "w_store (emit l w) = w_store w" "w_ext (emit l w) = w_ext w" "w_log (emit l w) = w_log w"
  "w_workers (emit l w) = w_workers w" "w_out (emit l w) = w_out w @ [l]"
  by (simp_all add: emit_def)

lemma emits_frame [simp]:
  "w_store (emits ls w) = w_store w" "w_ext (emits ls w) = w_ext w" "w_log (emits ls w) = w_log w"
  "w_workers (emits ls w) = w_workers w" "w_out (emits ls w) = w_out w @ ls"
  by (simp_all add: emits_def)

lemma ext_frame [simp]:
  "w_store (snd (ext f w)) = w_store w" "w_log (snd (ext f w)) = w_log w"
  "w_out (snd (ext f w)) = w_out w" "w_workers (snd (ext f w)) = w_workers w"
  by (simp_all add: ext_def split: prod.splits)

lemma guarded_frame [simp]:
  "w_store (snd (guarded h d f w)) = w_store w" "w_log (snd (guarded h d f w)) = w_log w"
  "w_workers (snd (guarded h d f w)) = w_workers w"
  by (auto simp: guarded_def hook_failed_def ext_def split: prod.splits option.splits)

lemma ext_keeps:
  "ext f w = (a, w') \<Longrightarrow> w_store w' = w_store w \<and> w_log w' = w_log w \<and> w_out w' = w_out w \<and> w_workers w' = w_workers w"
  by (metis ext_frame snd_conv)

lemma guarded_keeps:
  "guarded h d f w = (a, w') \<Longrightarrow> w_store w' = w_store w \<and> w_log w' = w_log w \<and> w_workers w' = w_workers w"
  by (metis guarded_frame snd_conv)

end
