(* ===== verification/React_Tools.thy ===== *)
theory React_Tools
  imports React_Env
begin

text \<open>
  The tool part of \<^verbatim>\<open>kn9t-react/src/exec.rs\<close>: authorization, one call, and the batch with its
  threads. Worker threads make their steps where the loop waits: after a spawn, after a sequential
  call, and during a poll, as \<open>e_poll\<close> says. Waiting for a worker that never reports, while nothing
  is cancelled, does not return; such a call is \<open>None\<close>.
\<close>

subsection \<open>Results\<close>

definition synth_error :: "call_id \<Rightarrow> string \<Rightarrow> content" where
  "synth_error i text = ToolResult i [Text text] True"

definition ensure_nonempty_content :: "content list \<Rightarrow> content list" where
  "ensure_nonempty_content cs =
     (if \<forall>c \<in> set cs. case c of Text t \<Rightarrow> t = [] | _ \<Rightarrow> False then [Text ''(no output)''] else cs)"

subsection \<open>Authorization\<close>

datatype call_plan = Plan_Execute json | Plan_Deny string

definition request_approval ::
  "('s, 'x) env \<Rightarrow> run_params \<Rightarrow> tool_call \<Rightarrow> json \<Rightarrow> string \<Rightarrow> ('s, 'x) world
    \<Rightarrow> call_plan \<times> ('s, 'x) world" where
  "request_approval env p call args reason w =
     (let dispatch = call\<lparr>tc_args := e_render env args\<rparr>
      in case e_approve env dispatch (pr_cwd p) reason (pr_session p) (w_ext w) of (ls, d, x) \<Rightarrow>
        (case d of
           Decide_Allow \<Rightarrow> Plan_Execute args
         | Decide_Deny r \<Rightarrow> Plan_Deny r
         | Decide_HardDeny r \<Rightarrow> Plan_Deny r
         | Decide_Ask \<Rightarrow> Plan_Deny ''approval required'',
         (emits ls w)\<lparr>w_ext := x\<rparr>))"

definition call_label :: "tool_call \<Rightarrow> string" where
  "call_label call = ''tool '' @ [CHR 0x27] @ tc_name call @ [CHR 0x27] @ '' (call '' @ tc_id call @ '')''"

definition quoted :: "string \<Rightarrow> string" where
  "quoted s = [CHR 0x27] @ s @ [CHR 0x27]"

definition authorize ::
  "('s, 'x) env \<Rightarrow> run_params \<Rightarrow> tool_call \<Rightarrow> ('s, 'x) world \<Rightarrow> call_plan \<times> ('s, 'x) world" where
  "authorize env p call w =
     (if tc_name call \<in> set (pr_disabled_tools p)
      then (Plan_Deny (''blocked: tool '' @ quoted (tc_name call) @
              '' is disabled for this session. Do not retry '' @ quoted (tc_name call) @
              ''; use another tool or ask the user to re-enable it.''),
            emit (Error (call_label call @ '': blocked '' @ em_dash @ '' disabled for this session'')) w)
      else case ext (e_blocked env) w of (blocked, w1) \<Rightarrow>
        if tc_name call \<in> set blocked
        then (Plan_Deny (''blocked: tool '' @ quoted (tc_name call) @
                '' belongs to a plugin that is currently stopped. Start the plugin again before retrying '' @
                quoted (tc_name call) @ ''.''),
              emit (Error (call_label call @ '': blocked '' @ em_dash @ '' owning plugin is stopped'')) w1)
        else (case e_parse env (tc_args call) of
            Inl e \<Rightarrow>
              (Plan_Deny (''malformed tool args_json: '' @ e),
               emit (Error (call_label call @ '': malformed args_json: '' @ e)) w1)
          | Inr args \<Rightarrow>
              if \<not> is_object args
              then (Plan_Deny (''tool args must be a JSON object, got: '' @ e_render env args),
                    emit (Error (call_label call @ '': args_json is not a JSON object: '' @ tc_args call)) w1)
              else (case hook_before_tool_call env (tc_name call) args (pr_cwd p) w1 of (v, w2) \<Rightarrow>
                  (case v of
                     Veto_Allow \<Rightarrow> (Plan_Execute args, w2)
                   | Veto_Deny r \<Rightarrow> (Plan_Deny r, w2)
                   | Veto_Ask r \<Rightarrow> request_approval env p call args r w2
                   | Veto_Replace args' \<Rightarrow> (Plan_Execute args', w2)))))"

fun authorize_all ::
  "('s, 'x) env \<Rightarrow> run_params \<Rightarrow> tool_call list \<Rightarrow> ('s, 'x) world \<Rightarrow> call_plan list \<times> ('s, 'x) world" where
  "authorize_all env p [] w = ([], w)"
| "authorize_all env p (c # cs) w =
     (case authorize env p c w of (plan, w1) \<Rightarrow>
        (case authorize_all env p cs w1 of (plans, w2) \<Rightarrow> (plan # plans, w2)))"

subsection \<open>One call\<close>

definition outcome_content :: "(string + tool_output) \<Rightarrow> content list \<times> bool" where
  "outcome_content out =
     (case out of Inr t \<Rightarrow> (to_content t, to_is_error t) | Inl e \<Rightarrow> ([Text e], True))"

definition execute_one ::
  "('s, 'x) env \<Rightarrow> run_params \<Rightarrow> 'x tool list \<Rightarrow> tool_call \<Rightarrow> call_plan \<Rightarrow> ('s, 'x) world
    \<Rightarrow> (react_exit + content) \<times> ('s, 'x) world" where
  "execute_one env p registry call plan w =
     (case plan of
        Plan_Deny reason \<Rightarrow> (Inr (synth_error (tc_id call) reason), w)
      | Plan_Execute args \<Rightarrow>
          (case ext (e_cancelled env) w of (cancelled, w1) \<Rightarrow>
             if cancelled then (Inr (synth_error (tc_id call) ''aborted by user''), w1)
             else (case reg_get (tc_name call) tl_spec registry of
                 None \<Rightarrow>
                   (Inr (synth_error (tc_id call) (''unknown tool `'' @ tc_name call @ ''`'')), w1)
               | Some tool \<Rightarrow>
                   (let w2 = emit (ToolStarted (tc_id call) (tc_name call)) w1
                    in case tl_execute tool args (tc_id call) (w_ext w2) of (ls, out, x) \<Rightarrow>
                      (let w3 = (emits ls w2)\<lparr>w_ext := x\<rparr>
                       in case out of
                          None \<Rightarrow> (Inl Unwound, w3)
                        | Some r \<Rightarrow>
                            (case outcome_content r of (inner, is_error) \<Rightarrow>
                               (let w4 = emit (ToolFinished (tc_id call) is_error) w3
                                in case hook_after_tool_call env (tc_name call) args (pr_cwd p) inner w4 of
                                  (patched, w5) \<Rightarrow>
                                    (Inr (ToolResult (tc_id call) (ensure_nonempty_content patched) is_error),
                                     w5))))))))"

subsection \<open>Workers\<close>

definition set_phase :: "nat \<Rightarrow> worker_phase \<Rightarrow> ('s, 'x) world \<Rightarrow> ('s, 'x) world" where
  "set_phase h ph w = w\<lparr>w_workers := (w_workers w)[h := (w_workers w ! h)\<lparr>wk_phase := ph\<rparr>]\<rparr>"

definition step_worker :: "nat \<Rightarrow> ('s, 'x) world \<Rightarrow> ('s, 'x) world" where
  "step_worker h w =
     (if length (w_workers w) \<le> h then w
      else let k = w_workers w ! h in
        case wk_phase k of
          Wk_Start \<Rightarrow> set_phase h Wk_Run (emit (ToolStarted (wk_id k) (wk_name k)) w)
        | Wk_Run \<Rightarrow>
            (case tl_execute (wk_tool k) (wk_args k) (wk_id k) (w_ext w) of (ls, out, x) \<Rightarrow>
               (let w' = (emits ls w)\<lparr>w_ext := x\<rparr>
                in case out of
                   None \<Rightarrow> set_phase h Wk_Panicked w'
                 | Some r \<Rightarrow>
                     (case outcome_content r of (inner, is_error) \<Rightarrow>
                        set_phase h (Wk_Report inner is_error) w')))
        | Wk_Report inner is_error \<Rightarrow>
            set_phase h (Wk_Sent inner is_error) (emit (ToolFinished (wk_id k) is_error) w)
        | _ \<Rightarrow> w)"

definition run_workers :: "('s, 'x) env \<Rightarrow> ('s, 'x) world \<Rightarrow> ('s, 'x) world" where
  "run_workers env w = (case ext (e_poll env) w of (hs, w') \<Rightarrow> fold step_worker hs w')"

datatype parallel_failure = Worker_Panicked | Worker_Abandoned

partial_function (option) recv_parallel_result ::
  "('s, 'x) env \<Rightarrow> nat \<Rightarrow> nat \<Rightarrow> nat option \<Rightarrow> ('s, 'x) world
    \<Rightarrow> ((parallel_failure + (content list \<times> bool)) \<times> ('s, 'x) world) option" where
  "recv_parallel_result env h grace give_up_at w =
     (let w1 = run_workers env w
      in case wk_phase (w_workers w1 ! h) of
           Wk_Sent c b \<Rightarrow> Some (Inr (c, b), w1)
         | Wk_Panicked \<Rightarrow> Some (Inl Worker_Panicked, w1)
         | _ \<Rightarrow>
             (case ext (e_cancelled env) w1 of (cancelled, w2) \<Rightarrow>
                if \<not> cancelled then recv_parallel_result env h grace give_up_at w2
                else (case (case give_up_at of
                              Some d \<Rightarrow> (d, w2)
                            | None \<Rightarrow> (case ext (e_clock env) w2 of (now, w') \<Rightarrow> (now + grace, w'))) of
                    (deadline, w3) \<Rightarrow>
                      (case ext (e_clock env) w3 of (now, w4) \<Rightarrow>
                         if deadline \<le> now then Some (Inl Worker_Abandoned, w4)
                         else recv_parallel_result env h grace (Some deadline) w4))))"

declare recv_parallel_result.simps [code]

subsection \<open>The batch\<close>

text \<open>A handle: the call's index, its worker, the name, arguments and id kept for the hook.\<close>

type_synonym handle = "nat \<times> nat \<times> string \<times> json \<times> call_id"

fun launch ::
  "('s, 'x) env \<Rightarrow> 'x tool list \<Rightarrow> (nat \<times> tool_call \<times> call_plan) list \<Rightarrow> ('s, 'x) world
    \<Rightarrow> handle list \<times> ('s, 'x) world" where
  "launch env registry [] w = ([], w)"
| "launch env registry ((i, call, plan) # rest) w =
     (case plan of
        Plan_Deny _ \<Rightarrow> launch env registry rest w
      | Plan_Execute args \<Rightarrow>
          (case reg_get (tc_name call) tl_spec registry of
             None \<Rightarrow> launch env registry rest w
           | Some tool \<Rightarrow>
               if \<not> tl_parallel_safe tool then launch env registry rest w
               else (case ext (e_cancelled env) w of (cancelled, w1) \<Rightarrow>
                   if cancelled then launch env registry rest w1
                   else
                     (let h = length (w_workers w1);
                          w2 = w1\<lparr>w_workers := w_workers w1 @
                                 [\<lparr>wk_tool = tool, wk_args = args, wk_id = tc_id call,
                                   wk_name = tc_name call, wk_phase = Wk_Start\<rparr>]\<rparr>
                      in case launch env registry rest (run_workers env w2) of (handles, w3) \<Rightarrow>
                        ((i, h, tc_name call, args, tc_id call) # handles, w3)))))"

fun sequential_pass ::
  "('s, 'x) env \<Rightarrow> run_params \<Rightarrow> 'x tool list \<Rightarrow> nat list \<Rightarrow> (nat \<times> tool_call \<times> call_plan) list
    \<Rightarrow> content option list \<Rightarrow> ('s, 'x) world \<Rightarrow> (react_exit + content option list) \<times> ('s, 'x) world" where
  "sequential_pass env p registry launched [] results w = (Inr results, w)"
| "sequential_pass env p registry launched ((i, call, plan) # rest) results w =
     (if i \<in> set launched then sequential_pass env p registry launched rest results w
      else try_st (execute_one env p registry call plan w) (\<lambda>c w1.
        sequential_pass env p registry launched rest (results[i := Some c]) (run_workers env w1)))"

definition collected ::
  "('s, 'x) env \<Rightarrow> run_params \<Rightarrow> handle \<Rightarrow> parallel_failure + (content list \<times> bool) \<Rightarrow> ('s, 'x) world
    \<Rightarrow> content \<times> ('s, 'x) world" where
  "collected env p hn r w =
     (case hn of (i, h, name, args, cid) \<Rightarrow>
        (case r of
           Inr (inner, is_error) \<Rightarrow>
             (case hook_after_tool_call env name args (pr_cwd p) inner w of (patched, w') \<Rightarrow>
                (ToolResult cid (ensure_nonempty_content patched) is_error, w'))
         | Inl Worker_Panicked \<Rightarrow> (synth_error cid ''tool thread panicked'', w)
         | Inl Worker_Abandoned \<Rightarrow>
             (synth_error cid ''aborted by user (tool did not stop; abandoned)'',
              emit (ToolFinished cid True)
                (emit (Error (''tool '' @ quoted name @ '' (call '' @ cid @
                    '') did not stop after cancellation; abandoning it'')) w))))"

fun collect_results ::
  "('s, 'x) env \<Rightarrow> run_params \<Rightarrow> handle list \<Rightarrow> content option list \<Rightarrow> ('s, 'x) world
    \<Rightarrow> (content option list \<times> ('s, 'x) world) option" where
  "collect_results env p [] results w = Some (results, w)"
| "collect_results env p (hn # hns) results w =
     (case recv_parallel_result env (fst (snd hn)) (rc_tool_cancel_grace (pr_config p)) None w of
        None \<Rightarrow> None
      | Some (r, w1) \<Rightarrow>
          (case collected env p hn r w1 of (c, w2) \<Rightarrow>
             collect_results env p hns (results[fst hn := Some c]) w2))"

definition fill_results :: "tool_call list \<Rightarrow> content option list \<Rightarrow> content list" where
  "fill_results calls results =
     map (\<lambda>(call, r). case r of Some c \<Rightarrow> c | None \<Rightarrow> synth_error (tc_id call) ''aborted by user'')
       (zip calls results)"

definition run_tool_batch ::
  "('s, 'x) env \<Rightarrow> run_params \<Rightarrow> tool_call list \<Rightarrow> ('s, 'x) world
    \<Rightarrow> ((react_exit + content list) \<times> ('s, 'x) world) option" where
  "run_tool_batch env p calls w =
     (case authorize_all env p calls w of (plans, w1) \<Rightarrow>
        (case ext (e_tools env) w1 of (registry, w2) \<Rightarrow>
           (let batch = zip [0..<length calls] (zip calls plans)
            in case launch env registry batch w2 of (handles, w3) \<Rightarrow>
              (case sequential_pass env p registry (map fst handles) batch
                      (replicate (length calls) None) w3 of
                 (Inl e, w4) \<Rightarrow> Some (Inl e, w4)
               | (Inr results, w4) \<Rightarrow>
                   (case collect_results env p handles results w4 of
                      None \<Rightarrow> None
                    | Some (results', w5) \<Rightarrow> Some (Inr (fill_results calls results'), w5))))))"

subsection \<open>Authorization fails closed\<close>

lemma ext_eq: "ext f w = (fst (f (w_ext w)), w\<lparr>w_ext := snd (f (w_ext w))\<rparr>)"
  by (simp add: ext_def split: prod.splits)

lemma authorize_Execute:
  assumes "authorize env p call w = (Plan_Execute args, w')"
  defines "x1 \<equiv> snd (e_blocked env (w_ext w))"
  shows "tc_name call \<notin> set (pr_disabled_tools p) \<and> tc_name call \<notin> set (fst (e_blocked env (w_ext w))) \<and>
     (\<exists>j v. e_parse env (tc_args call) = Inr j \<and> is_object j \<and>
        fst (e_before_tool_call env (tc_name call) j (pr_cwd p) x1) = Some v \<and>
        (v = Veto_Allow \<and> args = j \<or> v = Veto_Replace args \<or>
         (\<exists>r. v = Veto_Ask r \<and> args = j \<and>
            fst (snd (e_approve env (call\<lparr>tc_args := e_render env j\<rparr>) (pr_cwd p) r (pr_session p)
              (snd (e_before_tool_call env (tc_name call) j (pr_cwd p) x1)))) = Decide_Allow)))"
  using assms(1)
  by (auto simp: authorize_def ext_eq x1_def hook_before_tool_call_def guarded_def request_approval_def Let_def
      split: if_splits sum.splits option.splits hook_veto.splits decision.splits prod.splits)

lemma authorize_refused_early:
  assumes "tc_name call \<in> set (pr_disabled_tools p)"
  shows "\<exists>r. fst (authorize env p call w) = Plan_Deny r" "w_ext (snd (authorize env p call w)) = w_ext w"
  using assms by (simp_all add: authorize_def)

lemma authorize_frame [simp]:
  "w_store (snd (authorize env p call w)) = w_store w"
  "w_log (snd (authorize env p call w)) = w_log w"
  "w_workers (snd (authorize env p call w)) = w_workers w"
  by (auto simp: authorize_def ext_eq hook_before_tool_call_def guarded_def hook_failed_def
      request_approval_def Let_def
      split: if_splits sum.splits option.splits hook_veto.splits prod.splits)

lemma authorize_all_frame [simp]:
  "w_store (snd (authorize_all env p cs w)) = w_store w"
  "w_log (snd (authorize_all env p cs w)) = w_log w"
  "w_workers (snd (authorize_all env p cs w)) = w_workers w"
  "length (fst (authorize_all env p cs w)) = length cs"
  by (induct cs arbitrary: w) (simp_all add: split_def)

subsection \<open>Frames of the batch\<close>

lemma execute_one_frame [simp]:
  "w_store (snd (execute_one env p registry call plan w)) = w_store w"
  "w_log (snd (execute_one env p registry call plan w)) = w_log w"
  "w_workers (snd (execute_one env p registry call plan w)) = w_workers w"
  by (auto simp: execute_one_def ext_eq hook_after_tool_call_def Let_def guarded_def hook_failed_def
      split: call_plan.splits option.splits prod.splits)

lemma set_phase_frame [simp]:
  "w_store (set_phase h ph w) = w_store w" "w_log (set_phase h ph w) = w_log w"
  "w_ext (set_phase h ph w) = w_ext w" "length (w_workers (set_phase h ph w)) = length (w_workers w)"
  "w_out (set_phase h ph w) = w_out w"
  by (simp_all add: set_phase_def)

lemma step_worker_frame [simp]:
  "w_store (step_worker h w) = w_store w" "w_log (step_worker h w) = w_log w"
  "length (w_workers (step_worker h w)) = length (w_workers w)"
  by (auto simp: step_worker_def Let_def split: worker_phase.splits option.splits prod.splits)

lemma fold_step_worker_frame [simp]:
  "w_store (fold step_worker hs w) = w_store w" "w_log (fold step_worker hs w) = w_log w"
  "length (w_workers (fold step_worker hs w)) = length (w_workers w)"
  by (induction hs arbitrary: w) simp_all

lemma run_workers_frame [simp]:
  "w_store (run_workers env w) = w_store w" "w_log (run_workers env w) = w_log w"
  "length (w_workers (run_workers env w)) = length (w_workers w)"
  by (simp_all add: run_workers_def ext_eq)

lemma launch_frame [simp]:
  "w_store (snd (launch env registry xs w)) = w_store w"
  "w_log (snd (launch env registry xs w)) = w_log w"
proof (induct xs arbitrary: w)
  case (Cons a xs)
  obtain i call plan where a: "a = (i, call, plan)" by (metis prod_cases3)
  { case 1 show ?case
      using Cons by (simp add: a Let_def ext_eq split_def split: call_plan.split option.split)
  next
    case 2 show ?case
      using Cons by (simp add: a Let_def ext_eq split_def split: call_plan.split option.split) }
qed simp_all

lemma sequential_pass_frames:
  "w_store (snd (sequential_pass env p registry launched xs results w)) = w_store w \<and>
   w_log (snd (sequential_pass env p registry launched xs results w)) = w_log w"
proof (induct xs arbitrary: w results)
  case (Cons a xs)
  obtain i call plan where a: "a = (i, call, plan)" by (metis prod_cases3)
  obtain r w1 where e: "execute_one env p registry call plan w = (r, w1)" by fastforce
  have f: "w_store w1 = w_store w" "w_log w1 = w_log w"
    using execute_one_frame [of env p registry call plan w] e by simp_all
  show ?case using Cons f by (cases r) (simp_all add: a e)
qed simp

lemmas sequential_pass_frame [simp] = sequential_pass_frames [THEN conjunct1] sequential_pass_frames [THEN conjunct2]

lemma recv_frame:
  assumes "recv_parallel_result env h grace g w = Some y"
  shows "w_store (snd y) = w_store w \<and> w_log (snd y) = w_log w"
proof (rule recv_parallel_result.raw_induct [where P = "\<lambda>_ _ _ _ w y. w_store (snd y) = w_store w \<and> w_log (snd y) = w_log w", OF _ assms], goal_cases)
  case (1 rec env h grace g w y)
  have IH: "rec env h grace g' v = Some y \<Longrightarrow> w_store (snd y) = w_store v \<and> w_log (snd y) = w_log v"
    for g' v by (rule 1(1))
  let ?w1 = "run_workers env w"
  have IH1: "rec env h grace g' (?w1\<lparr>w_ext := x\<rparr>) = Some y \<Longrightarrow> w_store (snd y) = w_store w \<and> w_log (snd y) = w_log w"
    for g' x using IH [of g' "?w1\<lparr>w_ext := x\<rparr>"] by simp
  from 1(2) show ?case
    by (auto simp: Let_def ext_eq split_def split: worker_phase.splits if_splits option.splits dest!: IH1)
qed

lemma collected_frame [simp]:
  "w_store (snd (collected env p hn r w)) = w_store w" "w_log (snd (collected env p hn r w)) = w_log w"
  by (auto simp: collected_def hook_after_tool_call_def split_def split: sum.splits parallel_failure.splits)

lemma collect_results_frame:
  "collect_results env p hs results w = Some (results', w') \<Longrightarrow> w_store w' = w_store w \<and> w_log w' = w_log w"
proof (induct hs arbitrary: results w)
  case (Cons hn hs)
  then obtain r w1 where r: "recv_parallel_result env (fst (snd hn)) (rc_tool_cancel_grace (pr_config p)) None w = Some (r, w1)"
    by (auto split: option.splits)
  with Cons.prems have
    "collect_results env p hs (results[fst hn := Some (fst (collected env p hn r w1))]) (snd (collected env p hn r w1)) = Some (results', w')"
    by (simp add: split_def)
  from Cons.hyps [OF this] recv_frame [OF r] show ?case by simp
qed simp

lemma run_tool_batch_frame:
  "run_tool_batch env p calls w = Some (r, w') \<Longrightarrow> w_store w' = w_store w \<and> w_log w' = w_log w"
proof -
  assume a: "run_tool_batch env p calls w = Some (r, w')"
  let ?w1 = "snd (authorize_all env p calls w)"
  let ?w2 = "snd (ext (e_tools env) ?w1)"
  let ?batch = "zip [0..<length calls] (zip calls (fst (authorize_all env p calls w)))"
  let ?reg = "fst (ext (e_tools env) ?w1)"
  let ?l = "launch env ?reg ?batch ?w2"
  let ?s = "sequential_pass env p ?reg (map fst (fst ?l)) ?batch (replicate (length calls) None) (snd ?l)"
  have "w_store (snd ?s) = w_store w" "w_log (snd ?s) = w_log w" by simp_all
  with a show ?thesis
    by (cases "fst ?s"; cases ?s)
      (auto simp: run_tool_batch_def split_def Let_def split: option.splits dest!: collect_results_frame)
qed

subsection \<open>One result per call\<close>

lemma synth_error_id [simp]: "result_id_of (synth_error i t) = Some i"
  by (simp add: synth_error_def)

lemma execute_one_result:
  "execute_one env p registry call plan w = (Inr c, w') \<Longrightarrow> result_id_of c = Some (tc_id call)"
  by (auto simp: execute_one_def Let_def split_def split: call_plan.splits option.splits if_splits)

lemma execute_one_denied:
  "execute_one env p registry call (Plan_Deny reason) w = (Inr (synth_error (tc_id call) reason), w)"
  by (simp add: execute_one_def)

definition answers :: "tool_call list \<Rightarrow> content option list \<Rightarrow> bool" where
  "answers calls results \<longleftrightarrow>
     length results = length calls \<and>
     (\<forall>i < length calls. \<forall>c. results ! i = Some c \<longrightarrow> result_id_of c = Some (tc_id (calls ! i)))"

lemma answers_update:
  "answers calls results \<Longrightarrow> i < length calls \<Longrightarrow> result_id_of c = Some (tc_id (calls ! i)) \<Longrightarrow>
   answers calls (results[i := Some c])"
  by (auto simp: answers_def nth_list_update)

lemma sequential_pass_answers:
  "sequential_pass env p registry launched xs results w = (Inr results', w') \<Longrightarrow>
   answers calls results \<Longrightarrow>
   \<forall>(i, call, plan) \<in> set xs. i < length calls \<and> calls ! i = call \<Longrightarrow> answers calls results'"
proof (induct xs arbitrary: w results)
  case (Cons a xs)
  obtain i call plan where a: "a = (i, call, plan)" by (metis prod_cases3)
  obtain r w1 where e: "execute_one env p registry call plan w = (r, w1)" by fastforce
  show ?case
  proof (cases "i \<in> set launched")
    case True
    with Cons a show ?thesis by auto
  next
    case False
    with Cons.prems(1) a e obtain c where c: "r = Inr c"
      and rest: "sequential_pass env p registry launched xs (results[i := Some c]) (run_workers env w1) = (Inr results', w')"
      by (cases r) auto
    have "answers calls (results[i := Some c])"
      using Cons.prems(2,3) a e c execute_one_result by (intro answers_update) auto
    from Cons.hyps [OF rest this] Cons.prems(3) show ?thesis by auto
  qed
qed simp

lemma launch_handles:
  "(i, h, name, args, cid) \<in> set (fst (launch env registry xs w)) \<Longrightarrow>
   \<exists>call. (i, call, Plan_Execute args) \<in> set xs \<and> cid = tc_id call \<and> name = tc_name call"
proof (induct xs arbitrary: w)
  case (Cons a xs)
  obtain j call plan where a: "a = (j, call, plan)" by (metis prod_cases3)
  show ?case
    using Cons(2)
    by (auto simp: a Let_def ext_eq split_def split: call_plan.splits option.splits if_splits dest: Cons(1))
qed simp

lemma collected_result:
  "result_id_of (fst (collected env p (i, h, name, args, cid) r w)) = Some cid"
  by (auto simp: collected_def split_def split: sum.splits parallel_failure.splits)

lemma collect_results_answers:
  "collect_results env p hs results w = Some (results', w') \<Longrightarrow> answers calls results \<Longrightarrow>
   \<forall>(i, h, name, args, cid) \<in> set hs. i < length calls \<and> cid = tc_id (calls ! i) \<Longrightarrow>
   answers calls results'"
proof (induct hs arbitrary: results w)
  case (Cons hn hs)
  obtain i h name args cid where hn: "hn = (i, h, name, args, cid)" by (metis prod_cases5)
  from Cons.prems(1) obtain r w1 where
    r: "collect_results env p hs (results[i := Some (fst (collected env p hn r w1))]) (snd (collected env p hn r w1)) = Some (results', w')"
    by (auto simp: hn split_def split: option.splits)
  have "answers calls (results[i := Some (fst (collected env p hn r w1))])"
    using Cons.prems(2,3) by (intro answers_update) (auto simp: hn collected_result)
  from Cons.hyps [OF r this] Cons.prems(3) show ?case by auto
qed simp

lemma batch_results:
  assumes "run_tool_batch env p calls w = Some (Inr cs, w')"
  shows "map result_id_of cs = map (Some \<circ> tc_id) calls"
proof -
  obtain plans w1 where auth: "authorize_all env p calls w = (plans, w1)" by fastforce
  obtain registry w2 where reg: "ext (e_tools env) w1 = (registry, w2)" by fastforce
  let ?batch = "zip [0..<length calls] (zip calls plans)"
  obtain handles w3 where l: "launch env registry ?batch w2 = (handles, w3)" by fastforce
  from assms obtain results w4 results' where
    s: "sequential_pass env p registry (map fst handles) ?batch (replicate (length calls) None) w3 = (Inr results, w4)"
    and c: "collect_results env p handles results w4 = Some (results', w')"
    and cs: "cs = fill_results calls results'"
    by (auto simp: run_tool_batch_def auth reg l split: option.splits sum.splits prod.splits)
  have batch: "\<forall>(i, call, plan) \<in> set ?batch. i < length calls \<and> calls ! i = call"
    by (auto simp: set_zip)
  have "answers calls results"
    by (rule sequential_pass_answers [OF s _ batch]) (simp add: answers_def)
  moreover have "\<forall>(i, h, name, args, cid) \<in> set handles. i < length calls \<and> cid = tc_id (calls ! i)"
    using launch_handles [of _ _ _ _ _ env registry ?batch w2] batch l by fastforce
  ultimately have "answers calls results'" by (rule collect_results_answers [OF c])
  then show ?thesis
    by (intro nth_equalityI) (auto simp: cs fill_results_def answers_def split: option.split)
qed

subsection \<open>A cancelled batch returns\<close>

text \<open>
  \<open>I\<close> describes the states in which the turn has been cancelled: the flag reads true and stays so,
  the clock is monotone and a poll takes time. Tools that are still running must not undo that.
\<close>

definition settled :: "('s, 'x) env \<Rightarrow> ('x \<Rightarrow> bool) \<Rightarrow> ('x \<Rightarrow> nat) \<Rightarrow> bool" where
  "settled env I time \<longleftrightarrow>
     (\<forall>x. I x \<longrightarrow>
        fst (e_cancelled env x) \<and> I (snd (e_cancelled env x)) \<and> time x \<le> time (snd (e_cancelled env x)) \<and>
        fst (e_clock env x) = time x \<and> I (snd (e_clock env x)) \<and> time x \<le> time (snd (e_clock env x)) \<and>
        I (snd (e_poll env x)) \<and> time x < time (snd (e_poll env x)) \<and>
        (\<forall>n a c r. I (snd (e_after_tool_call env n a c r x))))"

definition tool_settled :: "('x \<Rightarrow> bool) \<Rightarrow> ('x \<Rightarrow> nat) \<Rightarrow> 'x tool \<Rightarrow> bool" where
  "tool_settled I time t \<longleftrightarrow>
     (\<forall>a c x. I x \<longrightarrow> I (snd (snd (tl_execute t a c x))) \<and> time x \<le> time (snd (snd (tl_execute t a c x))))"

definition world_settled :: "('x \<Rightarrow> bool) \<Rightarrow> ('x \<Rightarrow> nat) \<Rightarrow> ('s, 'x) world \<Rightarrow> bool" where
  "world_settled I time w \<longleftrightarrow> I (w_ext w) \<and> (\<forall>k \<in> set (w_workers w). tool_settled I time (wk_tool k))"

lemma set_phase_settled [simp]:
  "world_settled I time (set_phase h ph w) = world_settled I time w"
proof -
  have tools: "map wk_tool (w_workers (set_phase h ph w)) = map wk_tool (w_workers w)"
    by (cases "h < length (w_workers w)") (simp_all add: set_phase_def map_update list_update_same_conv list_update_beyond)
  have "world_settled I time v \<longleftrightarrow> I (w_ext v) \<and> (\<forall>t \<in> set (map wk_tool (w_workers v)). tool_settled I time t)"
    for v :: "('b, 'a) world" by (simp add: world_settled_def)
  then show ?thesis by (simp only: tools set_phase_frame)
qed

lemma world_settled_cong [simp]:
  "world_settled I time (emit l w) = world_settled I time w"
  "world_settled I time (emits ls w) = world_settled I time w"
  by (simp_all add: world_settled_def)

lemma world_settled_ext:
  "world_settled I time w \<Longrightarrow> I x \<Longrightarrow> world_settled I time (w\<lparr>w_ext := x\<rparr>)"
  by (simp add: world_settled_def)

lemma step_worker_settled:
  assumes "world_settled I time w"
  shows "world_settled I time (step_worker h w) \<and> time (w_ext w) \<le> time (w_ext (step_worker h w))"
proof (cases "h < length (w_workers w)")
  case True
  let ?k = "w_workers w ! h"
  let ?x = "snd (snd (tl_execute (wk_tool ?k) (wk_args ?k) (wk_id ?k) (w_ext w)))"
  have "tool_settled I time (wk_tool ?k)" using True assms by (simp add: world_settled_def)
  then have "I ?x" "time (w_ext w) \<le> time ?x" using assms by (auto simp: tool_settled_def world_settled_def)
  moreover have "world_settled I time (emits ls w\<lparr>w_ext := ?x\<rparr>)" for ls
    using assms \<open>I ?x\<close> by (intro world_settled_ext) auto
  ultimately show ?thesis
    using True assms
    by (auto simp: step_worker_def Let_def split_def split: worker_phase.split option.split)
qed (use assms in \<open>simp add: step_worker_def\<close>)

lemma fold_step_worker_settled:
  "world_settled I time w \<Longrightarrow>
   world_settled I time (fold step_worker hs w) \<and> time (w_ext w) \<le> time (w_ext (fold step_worker hs w))"
proof (induction hs arbitrary: w)
  case (Cons h hs)
  from step_worker_settled [OF Cons.prems, of h] Cons.IH [of "step_worker h w"] show ?case by fastforce
qed simp

lemma run_workers_settled:
  assumes "settled env I time" and "world_settled I time w"
  shows "world_settled I time (run_workers env w) \<and> time (w_ext w) < time (w_ext (run_workers env w))"
proof -
  let ?w = "w\<lparr>w_ext := snd (e_poll env (w_ext w))\<rparr>"
  have "I (snd (e_poll env (w_ext w)))" "time (w_ext w) < time (w_ext ?w)"
    using assms by (auto simp: settled_def world_settled_def)
  with fold_step_worker_settled [OF world_settled_ext [OF assms(2) this(1)], of "fst (e_poll env (w_ext w))"]
  show ?thesis by (auto simp: run_workers_def ext_eq)
qed

lemma recv_returns_deadline:
  assumes "settled env I time"
  shows "world_settled I time w \<Longrightarrow>
     \<exists>r w'. recv_parallel_result env h grace (Some d) w = Some (r, w') \<and> world_settled I time w'"
proof (induction "d - time (w_ext w)" arbitrary: w rule: less_induct)
  case less
  let ?w1 = "run_workers env w"
  let ?x2 = "snd (e_cancelled env (w_ext ?w1))"
  let ?w4 = "?w1\<lparr>w_ext := snd (e_clock env ?x2)\<rparr>"
  from run_workers_settled [OF assms less.prems]
  have w1: "world_settled I time ?w1" "time (w_ext w) < time (w_ext ?w1)" by auto
  then have x2: "fst (e_cancelled env (w_ext ?w1))" "I ?x2" "time (w_ext ?w1) \<le> time ?x2"
    using assms by (auto simp: settled_def world_settled_def)
  then have x4: "fst (e_clock env ?x2) = time ?x2" "I (w_ext ?w4)" "time ?x2 \<le> time (w_ext ?w4)"
    using assms by (auto simp: settled_def)
  have w4: "world_settled I time ?w4" using w1(1) x4(2) by (intro world_settled_ext) auto
  have rec: "\<not> d \<le> time ?x2 \<Longrightarrow>
      \<exists>r w'. recv_parallel_result env h grace (Some d) ?w4 = Some (r, w') \<and> world_settled I time w'"
    using w1(2) x2(3) x4(3) by (intro less.hyps [OF _ w4]) linarith
  show ?case
    using x2(1) x4(1) w1(1) w4 rec
    by (cases "d \<le> time ?x2")
      (auto simp: recv_parallel_result.simps [of env h grace "Some d" w] Let_def ext_eq split: worker_phase.split)
qed

lemma recv_returns:
  assumes "settled env I time" and "world_settled I time w"
  shows "\<exists>r w'. recv_parallel_result env h grace None w = Some (r, w') \<and> world_settled I time w'"
proof -
  let ?w1 = "run_workers env w"
  let ?x2 = "snd (e_cancelled env (w_ext ?w1))"
  let ?x3 = "snd (e_clock env ?x2)"
  let ?w4 = "?w1\<lparr>w_ext := snd (e_clock env ?x3)\<rparr>"
  from run_workers_settled [OF assms] have w1: "world_settled I time ?w1" by auto
  then have x2: "fst (e_cancelled env (w_ext ?w1))" "I ?x2" using assms(1) by (auto simp: settled_def world_settled_def)
  then have "I ?x3" using assms(1) by (auto simp: settled_def)
  then have "I (w_ext ?w4)" using assms(1) by (auto simp: settled_def)
  then have w4: "world_settled I time ?w4" using w1 by (intro world_settled_ext) auto
  show ?thesis
    using x2(1) w1 w4 recv_returns_deadline [OF assms(1) w4, of h grace "fst (e_clock env ?x2) + grace"]
    by (auto simp: recv_parallel_result.simps [of env h grace None w] Let_def ext_eq split: worker_phase.split)
qed

lemma collected_settled:
  "settled env I time \<Longrightarrow> world_settled I time w \<Longrightarrow> world_settled I time (snd (collected env p hn r w))"
proof -
  assume a: "settled env I time" "world_settled I time w"
  obtain i h name args cid where hn: "hn = (i, h, name, args, cid)" by (metis prod_cases5)
  have "I (snd (e_after_tool_call env name args (pr_cwd p) c (w_ext w)))" for c
    using a by (auto simp: settled_def world_settled_def)
  with a(2) show ?thesis
    by (auto simp: collected_def hn hook_after_tool_call_def guarded_def hook_failed_def ext_eq split_def
        intro!: world_settled_ext split: sum.split parallel_failure.split option.split)
qed

lemma collect_returns:
  "settled env I time \<Longrightarrow> world_settled I time w \<Longrightarrow> collect_results env p hs results w \<noteq> None"
proof (induction hs arbitrary: results w)
  case (Cons hn hs)
  from recv_returns [OF Cons.prems] obtain r w1 where
    r: "recv_parallel_result env (fst (snd hn)) (rc_tool_cancel_grace (pr_config p)) None w = Some (r, w1)"
      "world_settled I time w1" by blast
  from Cons.IH [OF Cons.prems(1) collected_settled [OF Cons.prems(1) r(2)]] r(1) show ?case
    by (simp add: split_def)
qed simp

end
