(* ===== verification/React_Loop.thy ===== *)
theory React_Loop
  imports React_Tools
begin

text \<open>
  The turn machinery of \<^verbatim>\<open>kn9t-react\<close>: one provider attempt and the compaction before it
  (\<^verbatim>\<open>exec.rs\<close>), the attempt loop, the turn and the run (\<^verbatim>\<open>turn.rs\<close>). The attempt loop is a total
  function: each repetition charges one of two budgets. \<open>run\<close> has no bound of its own, so it is a
  partial function, \<open>None\<close> when it never ends.
\<close>

subsection \<open>One attempt (exec.rs)\<close>

datatype attempt =
    Completed assembled
  | AbortedInStream assembled
  | Attempt_Truncated
  | Attempt_Overflow

definition estimated_assembled :: "model_ref \<Rightarrow> msg_id \<Rightarrow> assembled" where
  "estimated_assembled m i =
     \<lparr>am_message = \<lparr>msg_id = i, msg_role = Role_Assistant, msg_content = [], msg_silent = False\<rparr>,
      am_usage = \<lparr>u_tokens = tokens_default, u_model = m\<rparr>, am_stop = Aborted,
      am_usage_reported = False\<rparr>"

definition aborted_attempt ::
  "('s, 'x) env \<Rightarrow> model_ref \<Rightarrow> ('s, 'x) world \<Rightarrow> (react_exit + attempt) \<times> ('s, 'x) world" where
  "aborted_attempt env m w =
     (case ext (e_new_id env) (emit (status ''aborted'' '''') w) of
        (i, w') \<Rightarrow> (Inr (AbortedInStream (estimated_assembled m i)), w'))"

definition provider_attempt ::
  "('s, 'x) env \<Rightarrow> request \<Rightarrow> model_ref \<Rightarrow> ('s, 'x) world \<Rightarrow> (react_exit + attempt) \<times> ('s, 'x) world" where
  "provider_attempt env req m w0 =
     (let w = emit (status ''thinking'' '''') w0
      in case e_stream env req (w_ext w) of (ls, opened, x) \<Rightarrow>
        (let w1 = (emits ls w)\<lparr>w_ext := x\<rparr>
         in case opened of
            Inl ContextOverflow \<Rightarrow> (Inr Attempt_Overflow, w1)
          | Inl Truncated \<Rightarrow> (Inr Attempt_Truncated, w1)
          | Inl e \<Rightarrow>
              (case ext (e_cancelled env) w1 of (cancelled, w2) \<Rightarrow>
                 if cancelled then aborted_attempt env m w2
                 else (Inl (Returned (Err_Provider (prov_err_display e))),
                       emits [status ''failed'' (e_dbg_prov env e),
                              Error (''provider failed: '' @ e_dbg_prov env e)] w2))
          | Inr stream \<Rightarrow>
              (case ext (e_new_id env) (emit (status ''streaming'' '''') w1) of (i, w2) \<Rightarrow>
                (case assemble (\<lambda>t. case e_parse env t of Inl _ \<Rightarrow> False | Inr _ \<Rightarrow> True) i stream of
                   (deltas, r) \<Rightarrow>
                     (let w3 = emits deltas w2
                      in case r of
                         Inr a \<Rightarrow>
                           (let a' = a\<lparr>am_usage := (am_usage a)\<lparr>u_model := m\<rparr>\<rparr>
                            in case ext (e_cancelled env) w3 of (cancelled, w4) \<Rightarrow>
                              if cancelled
                              then (Inr (AbortedInStream a'), emit (status ''aborted'' '''') w4)
                              else (Inr (Completed a'), w4))
                       | Inl ContextOverflow \<Rightarrow> (Inr Attempt_Overflow, w3)
                       | Inl Truncated \<Rightarrow> (Inr Attempt_Truncated, w3)
                       | Inl e \<Rightarrow>
                           (case ext (e_cancelled env) w3 of (cancelled, w4) \<Rightarrow>
                              if cancelled then aborted_attempt env m w4
                              else (Inl (Returned (Err_Provider (prov_err_display e))),
                                    emits [status ''failed'' (''provider stream failed mid-stream: '' @ e_dbg_prov env e),
                                           Error (''provider stream failed: '' @ e_dbg_prov env e)] w4)))))))"

subsection \<open>The compaction sub-turn (exec.rs)\<close>

definition handoff_err_text :: "handoff_err \<Rightarrow> string" where
  "handoff_err_text e = (case e of
     Unknown_KeepDrop i \<Rightarrow> ''Handoff cites unknown CallId in keep/drop: '' @ i
   | Unknown_Summarize i \<Rightarrow> ''Handoff cites unknown CallId in summarize: '' @ i)"

definition handoff_event :: "handoff_plan \<Rightarrow> event" where
  "handoff_event h = Handoff 0 (hp_keep h) (hp_summarize h) (hp_drop_ids h) (hp_resume_actions h)"

text \<open>The compactor's plan is appended, its handoff after it.\<close>

definition persist_compaction ::
  "('s, 'x) env \<Rightarrow> run_params \<Rightarrow> compact_span \<Rightarrow> compaction_plan \<Rightarrow> ('s, 'x) world
    \<Rightarrow> (react_exit + attempt) \<times> ('s, 'x) world" where
  "persist_compaction env p sp plan w =
     try_st (react_append env p (Compacted 0 (cs_replaced sp) (cp_summary plan)) w) (\<lambda>_ w1.
     try_st (case cp_handoff plan of
               None \<Rightarrow> (Inr 0, w1)
             | Some h \<Rightarrow> react_append env p (handoff_event h) w1) (\<lambda>_ w2.
       (Inr (Completed
          \<lparr>am_message = cp_summary plan,
           am_usage = \<lparr>u_tokens = tokens_default, u_model = ms_ref (pr_model p)\<rparr>,
           am_stop = Stop, am_usage_reported = False\<rparr>), w2)))"

definition run_compaction ::
  "('s, 'x) env \<Rightarrow> run_params \<Rightarrow> compact_span \<Rightarrow> ('s, 'x) world \<Rightarrow> (react_exit + attempt) \<times> ('s, 'x) world" where
  "run_compaction env p sp w =
     (let m = ms_ref (pr_model p)
      in case ext (e_cancelled env) w of (cancelled, w1) \<Rightarrow>
        if cancelled then aborted_attempt env m w1
        else (case e_compactor env of
            None \<Rightarrow>
              (Inl (Returned CompactionUnavailable),
               emit (Error (''context overflow '' @ em_dash @
                 '' compaction required but no compactor plugin is installed; session cannot continue'')) w1)
          | Some compactor \<Rightarrow>
              (case ext (compactor sp m) w1 of
                 (Inl e, w2) \<Rightarrow>
                   (Inl (Returned (Err_Provider (''compactor failed: '' @ e))),
                    emit (Error (''compactor failed: '' @ e)) w2)
               | (Inr plan, w2) \<Rightarrow>
                   (case (case cp_handoff plan of
                            None \<Rightarrow> Inr ()
                          | Some h \<Rightarrow> validate_handoff (handoff_event h) (calls_in (cs_messages sp))) of
                      Inl e \<Rightarrow>
                        (let t = ''compactor handoff validation failed: '' @ handoff_err_text e
                         in (Inl (Returned (Err_Provider t)), emit (Error t) w2))
                    | Inr _ \<Rightarrow> persist_compaction env p sp plan w2))))"

subsection \<open>Planning and the attempt (exec.rs)\<close>

definition react_plan ::
  "('s, 'x) env \<Rightarrow> run_params \<Rightarrow> ('s, 'x) world \<Rightarrow> (react_exit + request_plan) \<times> ('s, 'x) world" where
  "react_plan env p w =
     (case e_plan env (pr_session p) (w_store w) of
        (Inl e, s) \<Rightarrow> (Inl (Returned (Err_Store e)), w\<lparr>w_store := s\<rparr>)
      | (Inr plan, s) \<Rightarrow> (Inr plan, w\<lparr>w_store := s\<rparr>))"

text \<open>What is done about a span the store wants compacted: the plan to go on with, or the abort.\<close>

definition compact_first ::
  "('s, 'x) env \<Rightarrow> run_params \<Rightarrow> nat \<Rightarrow> compact_span \<Rightarrow> ('s, 'x) world
    \<Rightarrow> (react_exit + (assembled + request_plan)) \<times> ('s, 'x) world" where
  "compact_first env p replans sp w =
     (let mx = rc_max_context_replans (pr_config p);
          w1 = emits
            [RetryAttempt replans mx ''context_overflow'' 0 ''compaction'',
             status ''retrying'' (''context overflow '' @ em_dash @ '' compaction replan '' @
               show_nat replans @ ''/'' @ show_nat mx)] w
      in if mx < replans then (Inl (Returned CompactionLoop), w1)
         else try_st (run_compaction env p sp w1) (\<lambda>r w2.
           case r of
             AbortedInStream a \<Rightarrow> (Inr (Inl a), w2)
           | Attempt_Truncated \<Rightarrow>
               (Inl (Returned (Err_Provider ''compaction truncated: malformed-incomplete'')),
                emit (Error ''compaction truncated: malformed-incomplete'') w2)
           | Attempt_Overflow \<Rightarrow>
               (Inl (Returned (Err_Provider ''compaction context overflow'')),
                emit (Error ''compaction context overflow'') w2)
           | Completed _ \<Rightarrow>
               try_st (react_plan env p w2) (\<lambda>plan w3.
                 if rp_compact plan \<noteq> None then (Inl (Returned CompactionLoop), w3)
                 else (Inr (Inr plan), w3))))"

definition attempt_with_plan ::
  "('s, 'x) env \<Rightarrow> run_params \<Rightarrow> message list \<Rightarrow> request_plan \<Rightarrow> ('s, 'x) world
    \<Rightarrow> (react_exit + attempt) \<times> ('s, 'x) world" where
  "attempt_with_plan env p reminders plan w =
     (let system = (case pr_system p of Some s \<Rightarrow> Some s | None \<Rightarrow> rp_system plan)
      in case hook_before_request env (rp_messages plan) (ms_ref (pr_model p)) system w of (msgs, w1) \<Rightarrow>
        (case ext (e_tools env) w1 of (registry, w2) \<Rightarrow>
          provider_attempt env
            \<lparr>rq_model = pr_model p, rq_system = system, rq_messages = msgs @ reminders,
             rq_tools = visible_specs tl_spec registry, rq_thinking = pr_thinking p,
             rq_max_tokens = pr_max_tokens p, rq_cache = rp_cache plan,
             rq_session = Some (pr_session p)\<rparr>
            (ms_ref (pr_model p)) w2))"

text \<open>The attempt and the re-plans charged so far, \<open>replans\<close> on entry.\<close>

definition one_attempt ::
  "('s, 'x) env \<Rightarrow> run_params \<Rightarrow> message list \<Rightarrow> nat \<Rightarrow> ('s, 'x) world
    \<Rightarrow> (react_exit + (attempt \<times> nat)) \<times> ('s, 'x) world" where
  "one_attempt env p reminders replans w =
     (let mx = rc_max_context_replans (pr_config p)
      in try_st (react_plan env p w) (\<lambda>plan w1.
        (case rp_compact plan of
           Some sp \<Rightarrow>
             try_st (compact_first env p (replans + 1) sp w1) (\<lambda>r w2.
               (case r of
                  Inl a \<Rightarrow> (Inr (AbortedInStream a, replans + 1), w2)
                | Inr plan' \<Rightarrow>
                    try_st (attempt_with_plan env p reminders plan' w2) (\<lambda>a w3. (Inr (a, replans + 1), w3))))
         | None \<Rightarrow>
             try_st (attempt_with_plan env p reminders plan w1) (\<lambda>a w2.
               if a \<noteq> Attempt_Overflow then (Inr (a, replans), w2)
               else if mx < replans + 1
               then (Inl (Returned (Err_Provider ''provider reported context overflow with no compaction available'')),
                     emit (Error (''context overflow reported by the provider, but the store has '' @
                       ''nothing left to compact (check the model'' @ [CHR 0x27] @
                       ''s ctx_window); ending the turn instead of retrying an identical request'')) w2)
               else (Inr (a, replans + 1),
                     emit (status ''retrying'' (''provider reported context overflow '' @ em_dash @
                       '' re-plan '' @ show_nat (replans + 1) @ ''/'' @ show_nat mx)) w2)))))"

lemma react_plan_frame [simp]: "w_log (snd (react_plan env p w)) = w_log w"
  by (simp add: react_plan_def split: prod.split sum.split)

lemma compact_first_within:
  "compact_first env p n sp w = (Inr r, w') \<Longrightarrow> n \<le> rc_max_context_replans (pr_config p)"
  by (auto simp: compact_first_def Let_def split: if_splits)

lemma one_attempt_replans:
  assumes "one_attempt env p reminders n w = (Inr (a, n'), w')"
  shows "n \<le> n' \<and> (a = Attempt_Overflow \<longrightarrow> n < n' \<and> n' \<le> rc_max_context_replans (pr_config p))"
proof (cases "rp_compact (projr (fst (react_plan env p w)))")
  case None
  with assms show ?thesis
    by (auto simp: one_attempt_def try_st_Inr_iff Let_def split: if_split_asm)
next
  case (Some sp)
  with assms obtain r w1 w2 where r: "compact_first env p (n + 1) sp w1 = (Inr r, w2)"
    and "(case r of Inl a \<Rightarrow> (Inr (AbortedInStream a, n + 1), w2)
      | Inr plan' \<Rightarrow> try_st (attempt_with_plan env p reminders plan' w2) (\<lambda>a w3. (Inr (a, n + 1), w3))) = (Inr (a, n'), w')"
    by (auto simp: one_attempt_def try_st_Inr_iff Let_def)
  then show ?thesis
    using compact_first_within [OF r] by (cases r) (auto simp: try_st_Inr_iff)
qed

subsection \<open>The attempt loop (turn.rs)\<close>

definition reminder_message :: "msg_id \<Rightarrow> nat \<Rightarrow> message" where
  "reminder_message i lines =
     \<lparr>msg_id = i, msg_role = Role_System,
      msg_content = [Text (''Your previous response was truncated. Write files in chunks of at most '' @
        show_nat lines @ '' lines per tool call, then continue in a follow-up call.'')],
      msg_silent = False\<rparr>"

text \<open>
  \<open>Inl\<close> of a partial message when the stream was aborted, \<open>Inr\<close> of the complete one. Indexing an
  empty ladder panics.
\<close>

function attempt_loop ::
  "('s, 'x) env \<Rightarrow> run_params \<Rightarrow> message list \<Rightarrow> nat \<Rightarrow> nat \<Rightarrow> ('s, 'x) world
    \<Rightarrow> (react_exit + (assembled + assembled)) \<times> ('s, 'x) world" where
  "attempt_loop env p reminders trunc_n replans w =
     (case one_attempt env p reminders replans w of
        (Inl e, w1) \<Rightarrow> (Inl e, w1)
      | (Inr (a, replans'), w1) \<Rightarrow>
          (case a of
             Completed r \<Rightarrow> (Inr (Inr r), w1)
           | AbortedInStream r \<Rightarrow> (Inr (Inl r), w1)
           | Attempt_Overflow \<Rightarrow> attempt_loop env p reminders trunc_n replans' w1
           | Attempt_Truncated \<Rightarrow>
               (let n = trunc_n + 1;
                    attempts = rc_truncation_attempts (pr_config p);
                    ladder = rc_truncation_ladder (pr_config p);
                    idx = min (n - 1) (length ladder - 1)
                in if attempts < n
                   then (Inl (Returned TruncationGaveUp),
                         emits [status ''failed'' (''truncation ladder exhausted after '' @ show_nat (n - 1) @ '' attempts''),
                                Error (''truncation ladder exhausted after '' @ show_nat (n - 1) @ '' attempts'')] w1)
                   else if length ladder \<le> idx then (Inl Unwound, w1)
                   else (let lines = ladder ! idx;
                             w2 = emits
                               [RetryAttempt n attempts ''truncated'' 0 ''truncation'',
                                status ''retrying'' (''truncated '' @ em_dash @ '' retry '' @ show_nat n @ ''/'' @
                                  show_nat attempts @ '' with '' @ show_nat lines @ '' lines limit'')] w1
                         in case ext (e_new_id env) w2 of (i, w3) \<Rightarrow>
                           attempt_loop env p (reminders @ [reminder_message i lines]) n replans' w3))))"
  by pat_completeness auto
termination
proof (relation "measure (\<lambda>(env, p, reminders, t, n, w).
    (Suc (rc_truncation_attempts (pr_config p)) - t) + (Suc (rc_max_context_replans (pr_config p)) - n))", goal_cases)
  case (2 env p reminders t n w res w1 y a n')
  from 2(1-4) have "one_attempt env p reminders n w = (Inr (Attempt_Truncated, n'), w1)" by metis
  from one_attempt_replans [OF this] have "n \<le> n'" by blast
  moreover have "Suc t \<le> rc_truncation_attempts (pr_config p)" using 2(5,6,9) by simp
  ultimately show ?case using 2(5) by simp
next
  case (3 env p reminders t n w res w1 y a n')
  then have "one_attempt env p reminders n w = (Inr (Attempt_Overflow, n'), w1)" by simp
  from one_attempt_replans [OF this] show ?case by auto
qed simp_all

declare attempt_loop.simps [simp del]

subsection \<open>The turn (turn.rs)\<close>

datatype turn_outcome = Continue | Idle stop_reason

text \<open>The accumulated tool calls of the assistant message, in emission order.\<close>

definition collect_tool_calls :: "message \<Rightarrow> tool_call list" where
  "collect_tool_calls m =
     List.map_filter (\<lambda>c. case c of
        content.ToolCall i n a \<Rightarrow> Some \<lparr>tc_id = i, tc_name = n, tc_args = a\<rparr> | _ \<Rightarrow> None) (msg_content m)"

definition persist_answer ::
  "('s, 'x) env \<Rightarrow> run_params \<Rightarrow> assembled \<Rightarrow> ('s, 'x) world \<Rightarrow> (react_exit + unit) \<times> ('s, 'x) world" where
  "persist_answer env p a w =
     try_st (react_append env p (MessageAppended 0 (am_message a)) w) (\<lambda>_ w1.
       record_usage env p (am_usage a) Main (\<not> am_usage_reported a) w1)"

text \<open>No tool calls: stop, or go on with what the followup queue holds.\<close>

definition finish_turn ::
  "('s, 'x) env \<Rightarrow> run_params \<Rightarrow> nat \<Rightarrow> assembled \<Rightarrow> ('s, 'x) world
    \<Rightarrow> (react_exit + (turn_outcome \<times> run_params)) \<times> ('s, 'x) world" where
  "finish_turn env p turn a w =
     (case hook_should_stop env (am_stop a) (am_usage a) turn w of (stop_now, w1) \<Rightarrow>
        if stop_now then (Inr (Idle (am_stop a), p), w1)
        else (case collect_followup env w1 of (followup, w2) \<Rightarrow>
            if followup = [] then (Inr (Idle (am_stop a), p), w2)
            else try_st (append_messages env p followup w2) (\<lambda>_ w3. (Inr (Continue, p), w3))))"

definition tool_message :: "msg_id \<Rightarrow> content list \<Rightarrow> message" where
  "tool_message i results =
     \<lparr>msg_id = i, msg_role = Role_Tool, msg_content = results, msg_silent = False\<rparr>"

definition after_batch ::
  "('s, 'x) env \<Rightarrow> run_params \<Rightarrow> assembled \<Rightarrow> content list \<Rightarrow> ('s, 'x) world
    \<Rightarrow> (react_exit + (turn_outcome \<times> run_params)) \<times> ('s, 'x) world" where
  "after_batch env p a results w =
     (case ext (e_new_id env) w of (i, w1) \<Rightarrow>
        try_st (react_append env p (MessageAppended 0 (tool_message i results)) w1) (\<lambda>_ w2.
          (case ext (e_cancelled env) w2 of (cancelled, w3) \<Rightarrow>
             if cancelled then (Inr (Idle Aborted, p), w3)
             else (case collect_steering env w3 of (steer, w4) \<Rightarrow>
                 try_st (append_messages env p steer w4) (\<lambda>_ w5.
                   (case apply_prepare_next_turn env p (am_stop a) (am_usage a) w5 of (p', w6) \<Rightarrow>
                      (Inr (Continue, p'), w6)))))))"

definition tool_turn ::
  "('s, 'x) env \<Rightarrow> run_params \<Rightarrow> assembled \<Rightarrow> tool_call list \<Rightarrow> ('s, 'x) world
    \<Rightarrow> ((react_exit + (turn_outcome \<times> run_params)) \<times> ('s, 'x) world) option" where
  "tool_turn env p a calls w =
     (case run_tool_batch env p calls
         (emit (status ''tool'' (''running '' @ show_nat (length calls) @ '' tool(s)'')) w) of
        None \<Rightarrow> None
      | Some (Inl e, w1) \<Rightarrow> Some (Inl e, w1)
      | Some (Inr results, w1) \<Rightarrow> Some (after_batch env p a results w1))"

definition turn_reminders ::
  "('s, 'x) env \<Rightarrow> run_params \<Rightarrow> nat \<Rightarrow> ('s, 'x) world \<Rightarrow> message list \<times> ('s, 'x) world" where
  "turn_reminders env p turn w =
     (let first = (case pr_reactivation_reminder p of Some m \<Rightarrow> [m] | None \<Rightarrow> [])
      in if turn = 1
         then (case collect_steering env w of (steer, w') \<Rightarrow> (first @ steer, w'))
         else (first, w))"

text \<open>
  One turn: \<open>None\<close> when the wait for a tool on a thread never ends. The calls of the provider, the hooks
  and the sequential tools in it are functions of the environment and return.
\<close>

definition execute_turn ::
  "('s, 'x) env \<Rightarrow> run_params \<Rightarrow> nat \<Rightarrow> ('s, 'x) world
    \<Rightarrow> ((react_exit + (turn_outcome \<times> run_params)) \<times> ('s, 'x) world) option" where
  "execute_turn env p0 turn w =
     (let p = p0\<lparr>pr_reactivation_reminder := None\<rparr>
      in case turn_reminders env p0 turn w of (reminders, w1) \<Rightarrow>
        (case attempt_loop env p reminders 0 0 w1 of
           (Inl e, w2) \<Rightarrow> Some (Inl e, w2)
         | (Inr (Inl a), w2) \<Rightarrow>
             Some (try_st (record_usage env p (am_usage a) Main (\<not> am_usage_reported a) w2)
               (\<lambda>_ w3. (Inr (Idle Aborted, p), w3)))
         | (Inr (Inr a), w2) \<Rightarrow>
             (case persist_answer env p a w2 of
                (Inl e, w3) \<Rightarrow> Some (Inl e, w3)
              | (Inr _, w3) \<Rightarrow>
                  (let calls = collect_tool_calls (am_message a)
                   in if calls = [] then Some (finish_turn env p turn a w3)
                      else tool_turn env p a calls w3))))"

subsection \<open>The run (turn.rs)\<close>

definition end_turn :: "nat \<Rightarrow> stop_reason \<Rightarrow> ('s, 'x) world \<Rightarrow> ('s, 'x) world" where
  "end_turn turn stop w = emits [TurnFinishing turn stop, TurnEnded turn stop] w"

partial_function (option) run_from ::
  "('s, 'x) env \<Rightarrow> run_params \<Rightarrow> nat \<Rightarrow> ('s, 'x) world
    \<Rightarrow> ((react_exit + stop_reason) \<times> ('s, 'x) world) option" where
  "run_from env p turn w =
     (if (case rc_max_turns (pr_config p) of None \<Rightarrow> False | Some n \<Rightarrow> n \<le> turn)
      then (let n = show_nat (the (rc_max_turns (pr_config p)))
            in Some (Inl (Returned TurnLimit),
              end_turn turn Aborted
                (emits [status ''failed'' (''turn limit reached ('' @ n @ '' turns)''),
                        Error (''turn limit reached after '' @ n @
                          '' turns without going idle; the run was stopped because [server] max_turns is set'')] w)))
      else (case execute_turn env p (turn + 1) (emit (TurnStarted (turn + 1)) w) of
          None \<Rightarrow> None
        | Some (r, w') \<Rightarrow>
            (case r of
               Inr (Continue, p') \<Rightarrow> run_from env p' (turn + 1) w'
             | Inr (Idle stop, p') \<Rightarrow>
                 Some (Inr stop, end_turn (turn + 1) stop (emit (status ''idle'' '''') w'))
             | Inl (Returned e) \<Rightarrow>
                 Some (Inl (Returned e),
                   end_turn (turn + 1) Aborted
                     (emits [status ''failed'' (e_dbg_react env e), Error (e_dbg_react env e)] w'))
             | Inl Unwound \<Rightarrow> Some (Inl Unwound, w'))))"

declare run_from.simps [code]

definition run :: "('s, 'x) env \<Rightarrow> run_params \<Rightarrow> ('s, 'x) world
    \<Rightarrow> ((react_exit + stop_reason) \<times> ('s, 'x) world) option" where
  "run env p w = run_from env p 0 w"

end

