(* ===== verification/React_Turns.thy ===== *)
theory React_Turns
  imports React_Loop
begin

text \<open>
  What a turn and a run of the loop do: what they append, in which order, how they end, how often
  they call the provider, and what they leave of the store's state.
\<close>

subsection \<open>Appending\<close>

lemma react_append_Inr:
  "react_append env p ev w = (Inr n, w') \<Longrightarrow> w_log w' = w_log w @ [ev]"
  by (auto simp: react_append_def split: prod.splits sum.splits)

lemma react_append_Inl:
  "react_append env p ev w = (Inl e, w') \<Longrightarrow> w_log w' = w_log w"
  by (auto simp: react_append_def split: prod.splits sum.splits)

lemma append_messages_Inr:
  "append_messages env p ms w = (Inr u, w') \<Longrightarrow> w_log w' = w_log w @ map (MessageAppended 0) ms"
  by (induction ms arbitrary: w) (auto simp: try_st_Inr_iff dest!: react_append_Inr)

lemma record_usage_Inr:
  "record_usage env p u k est w = (Inr x, w') \<Longrightarrow> w_log w' = w_log w @ [usage_event p u k est]"
  by (auto simp: record_usage_def try_st_Inr_iff dest!: react_append_Inr)

subsection \<open>What an attempt appends\<close>

definition compaction_event :: "event \<Rightarrow> bool" where
  "compaction_event e = (case e of Compacted _ _ _ \<Rightarrow> True | Handoff _ _ _ _ _ \<Rightarrow> True | _ \<Rightarrow> False)"

definition logs :: "(event \<Rightarrow> bool) \<Rightarrow> ('s, 'x) world \<Rightarrow> ('s, 'x) world \<Rightarrow> bool" where
  "logs P w w' \<longleftrightarrow> (\<exists>es. w_log w' = w_log w @ es \<and> (\<forall>e \<in> set es. P e))"

lemma logs_refl: "w_log w' = w_log w \<Longrightarrow> logs P w w'"
  by (simp add: logs_def)

lemma logs_trans: "logs P u v \<Longrightarrow> logs P v w \<Longrightarrow> logs P u w"
  by (fastforce simp: logs_def)

lemma logs_mono: "logs P u v \<Longrightarrow> (\<And>e. P e \<Longrightarrow> Q e) \<Longrightarrow> logs Q u v"
  by (auto simp: logs_def)

lemma logs_cong: "w_log w = w_log v \<Longrightarrow> w_log w' = w_log v' \<Longrightarrow> logs P w w' = logs P v v'"
  by (simp add: logs_def)

lemma logs_append: "react_append env p ev w = (r, w') \<Longrightarrow> P ev \<Longrightarrow> logs P w w'"
  by (cases r) (auto simp: logs_def dest: react_append_Inr react_append_Inl)

lemma snd_try_st: "snd (try_st r f) = (case fst r of Inl e \<Rightarrow> snd r | Inr a \<Rightarrow> snd (f a (snd r)))"
  by (cases r) (simp add: try_st_def split: sum.split)

lemma logs_try:
  "logs P w (snd r) \<Longrightarrow> (\<And>a. logs P (snd r) (snd (f a (snd r)))) \<Longrightarrow> logs P w (snd (try_st r f))"
  by (auto simp: snd_try_st intro: logs_trans split: sum.split)

lemma logs_append_snd: "P ev \<Longrightarrow> logs P w (snd (react_append env p ev w))"
  by (rule logs_append [where r = "fst (react_append env p ev w)"]) simp

lemma aborted_attempt_log [simp]:
  "w_log (snd (aborted_attempt env m w)) = w_log w" "w_store (snd (aborted_attempt env m w)) = w_store w"
  by (simp_all add: aborted_attempt_def ext_eq)

lemma provider_attempt_frame [simp]:
  "w_log (snd (provider_attempt env req m w)) = w_log w"
  "w_store (snd (provider_attempt env req m w)) = w_store w"
  by (simp_all add: provider_attempt_def ext_eq Let_def split_def split: sum.split prov_err.split)

lemma attempt_with_plan_frame [simp]:
  "w_log (snd (attempt_with_plan env p reminders plan w)) = w_log w"
  "w_store (snd (attempt_with_plan env p reminders plan w)) = w_store w"
  by (simp_all add: attempt_with_plan_def hook_before_request_def Let_def split_def)

lemma persist_compaction_logs: "logs compaction_event w (snd (persist_compaction env p sp plan w))"
  unfolding persist_compaction_def
  by (intro logs_try logs_append_snd)
    (auto simp: compaction_event_def handoff_event_def logs_refl split: option.split intro!: logs_append_snd)

lemma run_compaction_logs:
  fixes env :: "('s, 'x) env"
  shows "logs compaction_event w (snd (run_compaction env p sp w))"
proof -
  have "logs compaction_event w (snd (persist_compaction env p sp plan (snd (ext f (snd (ext g w))))))"
    for plan and f :: "'x \<Rightarrow> (string + compaction_plan) \<times> 'x" and g :: "'x \<Rightarrow> bool \<times> 'x"
    using persist_compaction_logs [of "snd (ext f (snd (ext g w)))" env p sp plan] by (simp add: logs_def)
  then show ?thesis
    by (simp add: run_compaction_def Let_def split_def logs_refl split: option.split sum.split)
qed

lemma logs_frame: "w_log v' = w_log v \<Longrightarrow> logs P w v \<Longrightarrow> logs P w v'"
  by (simp add: logs_def)

lemma compact_first_logs: "logs compaction_event w (snd (compact_first env p n sp w))"
proof -
  have run: "logs compaction_event w (snd (run_compaction env p sp (emits ls w)))" for ls
    using run_compaction_logs [of "emits ls w" env p sp] by (simp add: logs_def)
  have rest: "logs compaction_event w2 (snd (case r of
             AbortedInStream a \<Rightarrow> (Inr (Inl a), w2)
           | Attempt_Truncated \<Rightarrow> (Inl (Returned (Err_Provider t1)), emit e1 w2)
           | Attempt_Overflow \<Rightarrow> (Inl (Returned (Err_Provider t2)), emit e2 w2)
           | Completed _ \<Rightarrow>
               try_st (react_plan env p w2) (\<lambda>plan w3.
                 if rp_compact plan \<noteq> None then (Inl (Returned CompactionLoop), w3)
                 else (Inr (Inr plan), w3))))" for r and w2 :: "('a, 'b) world" and t1 t2 e1 e2
    by (auto simp: logs_refl snd_try_st split: attempt.split sum.split)
  show ?thesis
    unfolding compact_first_def Let_def by (auto simp: logs_refl intro!: logs_try run rest)
qed

lemma one_attempt_logs: "logs compaction_event w (snd (one_attempt env p reminders n w))"
  unfolding one_attempt_def Let_def
  by (intro logs_try)
    (auto simp: logs_refl snd_try_st intro!: logs_try compact_first_logs
      logs_frame [OF attempt_with_plan_frame(1)] split: option.split sum.split)

text \<open>What every attempt and the steps between them keep, the loop keeps.\<close>

lemma attempt_loop_inv:
  assumes "\<And>rs n v. Q v \<Longrightarrow> Q (snd (one_attempt env p rs n v))"
    and "\<And>ls v. Q v \<Longrightarrow> Q (emits ls v)" and "\<And>v. Q v \<Longrightarrow> Q (snd (ext (e_new_id env) v))"
  shows "Q w \<Longrightarrow> Q (snd (attempt_loop env p reminders t n w))"
  using assms
proof (induction env p reminders t n w rule: attempt_loop.induct)
  case (1 env p reminders t n w)
  obtain r w1 where one: "one_attempt env p reminders n w = (r, w1)" by fastforce
  have first: "Q w1" using 1(4) [OF 1(3), of reminders n] one by simp
  show ?case
  proof (cases r)
    case (Inr y)
    obtain a n' where y: "y = (a, n')" by (cases y)
    show ?thesis
    proof (cases a)
      case Attempt_Overflow
      from 1(2) [OF one [symmetric] Inr y [symmetric] Attempt_Overflow first 1(4-6)] one Inr y Attempt_Overflow
      show ?thesis by (simp add: attempt_loop.simps [of env p reminders t n w])
    next
      case Attempt_Truncated
      from 1(1) [OF one [symmetric] Inr y [symmetric] Attempt_Truncated refl refl refl refl _ _ refl refl
          surjective_pairing [symmetric]]
        one Inr y Attempt_Truncated 1(4-6) first
      show ?thesis
        by (simp add: attempt_loop.simps [of env p reminders t n w] Let_def split_def)
    qed (use first one Inr y in \<open>simp_all add: attempt_loop.simps [of env p reminders t n w]\<close>)
  qed (use first one in \<open>simp add: attempt_loop.simps [of env p reminders t n w]\<close>)
qed

lemma attempt_loop_logs: "logs compaction_event w (snd (attempt_loop env p reminders t n w))"
  by (rule attempt_loop_inv)
    (auto intro: logs_trans one_attempt_logs logs_frame [of "emits _ _"] logs_frame [of "snd (ext _ _)"] logs_refl)

subsection \<open>What a turn appends\<close>

definition main_usage :: "event \<Rightarrow> bool" where
  "main_usage e = (case e of UsageRecorded n u \<Rightarrow> n = 0 \<and> ur_kind u = Main | _ \<Rightarrow> False)"

lemma main_usage_iff: "main_usage e \<longleftrightarrow> (\<exists>u. e = UsageRecorded 0 u \<and> ur_kind u = Main)"
  by (cases e) (auto simp: main_usage_def)

definition messages_of_calls :: "tool_call list \<Rightarrow> message \<Rightarrow> bool" where
  "messages_of_calls calls m \<longleftrightarrow>
     msg_role m = Role_Tool \<and> map result_id_of (msg_content m) = map (Some \<circ> tc_id) calls"

text \<open>
  Where an answer comes from: the provider opened a stream for a request of this session and model, and
  the answer is what the stream assembles to, under the name of the model. What is recorded for an
  attempt that was cancelled before is the empty answer with no tokens.
\<close>

definition streamed :: "('s, 'x) env \<Rightarrow> request \<Rightarrow> model_ref \<Rightarrow> assembled \<Rightarrow> bool" where
  "streamed env req m a \<longleftrightarrow>
     (\<exists>x ls stream x' i b. e_stream env req x = (ls, Inr stream, x') \<and>
        snd (assemble (\<lambda>t. case e_parse env t of Inl _ \<Rightarrow> False | Inr _ \<Rightarrow> True) i stream) = Inr b \<and>
        a = b\<lparr>am_usage := (am_usage b)\<lparr>u_model := m\<rparr>\<rparr>)"

definition answer_of :: "('s, 'x) env \<Rightarrow> run_params \<Rightarrow> assembled \<Rightarrow> bool" where
  "answer_of env p a \<longleftrightarrow>
     (\<exists>req. rq_model req = pr_model p \<and> rq_session req = Some (pr_session p) \<and>
        streamed env req (ms_ref (pr_model p)) a)"

definition aborted_answer_of :: "('s, 'x) env \<Rightarrow> run_params \<Rightarrow> assembled \<Rightarrow> bool" where
  "aborted_answer_of env p a \<longleftrightarrow> answer_of env p a \<or> (\<exists>i. a = estimated_assembled (ms_ref (pr_model p)) i)"

text \<open>The usage record of an answer.\<close>

definition usage_of_answer :: "run_params \<Rightarrow> assembled \<Rightarrow> event \<Rightarrow> bool" where
  "usage_of_answer p a e \<longleftrightarrow>
     (\<exists>u. e = UsageRecorded 0 u \<and> ur_kind u = Main \<and> ur_tokens u = u_tokens (am_usage a) \<and>
        ur_provider u = mr_provider (ms_ref (pr_model p)) \<and> ur_model u = mr_id (ms_ref (pr_model p)) \<and>
        ur_cost_micros u = cost_micros (u_tokens (am_usage a)) (ms_price (pr_model p)) \<and>
        ur_estimated u = (\<not> am_usage_reported a))"

text \<open>
  The events of a turn that ended well, after those of a compaction: the usage of an aborted stream
  alone; or the answer, its usage, and either the followups the hook gave or one tool message with the
  results of the batch and the steering the hook gave.
\<close>

definition turn_shape :: "('s, 'x) env \<Rightarrow> run_params \<Rightarrow> event list \<Rightarrow> turn_outcome \<Rightarrow> bool" where
  "turn_shape env p es out \<longleftrightarrow>
     (\<exists>a u. es = [u] \<and> aborted_answer_of env p a \<and> usage_of_answer p a u \<and> out = Idle Aborted) \<or>
     (\<exists>a u ms. es = MessageAppended 0 (am_message a) # u # map (MessageAppended 0) ms \<and>
        answer_of env p a \<and> usage_of_answer p a u \<and> collect_tool_calls (am_message a) = [] \<and>
        (if ms = [] then out = Idle (am_stop a)
         else out = Continue \<and> (\<exists>v v'. collect_followup env v = (ms, v')))) \<or>
     (\<exists>a u i results ms. es = MessageAppended 0 (am_message a) # u #
          MessageAppended 0 (tool_message i results) # map (MessageAppended 0) ms \<and>
        answer_of env p a \<and> usage_of_answer p a u \<and> collect_tool_calls (am_message a) \<noteq> [] \<and>
        (\<exists>v v'. run_tool_batch env p (collect_tool_calls (am_message a)) v = Some (Inr results, v')) \<and>
        messages_of_calls (collect_tool_calls (am_message a)) (tool_message i results) \<and>
        (out = Continue \<and> (\<exists>v v'. collect_steering env v = (ms, v')) \<or> out = Idle Aborted \<and> ms = []))"

lemma usage_event_answer:
  "usage_of_answer p a (usage_event p (am_usage a) Main (\<not> am_usage_reported a))"
  by (simp add: usage_of_answer_def usage_event_def Let_def)

lemma turn_shapeI:
  "aborted_answer_of env p a \<Longrightarrow> usage_of_answer p a u \<Longrightarrow> turn_shape env p [u] (Idle Aborted)"
  "answer_of env p a \<Longrightarrow> usage_of_answer p a u \<Longrightarrow> collect_tool_calls (am_message a) = [] \<Longrightarrow>
   (if ms = [] then out = Idle (am_stop a)
    else out = Continue \<and> (\<exists>v v'. collect_followup env v = (ms, v'))) \<Longrightarrow>
   turn_shape env p (MessageAppended 0 (am_message a) # u # map (MessageAppended 0) ms) out"
  "answer_of env p a \<Longrightarrow> usage_of_answer p a u \<Longrightarrow> collect_tool_calls (am_message a) \<noteq> [] \<Longrightarrow>
   run_tool_batch env p (collect_tool_calls (am_message a)) v = Some (Inr results, v') \<Longrightarrow>
   messages_of_calls (collect_tool_calls (am_message a)) (tool_message i results) \<Longrightarrow>
   out = Continue \<and> (\<exists>v v'. collect_steering env v = (ms, v')) \<or> out = Idle Aborted \<and> ms = [] \<Longrightarrow>
   turn_shape env p (MessageAppended 0 (am_message a) # u # MessageAppended 0 (tool_message i results) #
     map (MessageAppended 0) ms) out"
  unfolding turn_shape_def
  subgoal by blast
  subgoal by (rule disjI2, rule disjI1, rule exI [of _ a], rule exI [of _ u], rule exI [of _ ms]) simp
  subgoal
    by (rule disjI2, rule disjI2, rule exI [of _ a], rule exI [of _ u], rule exI [of _ i], rule exI [of _ results],
        rule exI [of _ ms]) blast
  done

lemma streamedI:
  "e_stream env req x = (ls, Inr stream, x') \<Longrightarrow>
   assemble (\<lambda>t. case e_parse env t of Inl _ \<Rightarrow> False | Inr _ \<Rightarrow> True) i stream = (ds, Inr b) \<Longrightarrow>
   streamed env req m (b\<lparr>am_usage := (am_usage b)\<lparr>u_model := m\<rparr>\<rparr>)"
  unfolding streamed_def by (metis snd_conv)

lemma provider_attempt_answer:
  assumes "provider_attempt env req m w = (Inr r, w')"
  shows "r = Completed a \<Longrightarrow> streamed env req m a"
    and "r = AbortedInStream a \<Longrightarrow> streamed env req m a \<or> (\<exists>i. a = estimated_assembled m i)"
  using assms
  by (auto simp: provider_attempt_def aborted_attempt_def Let_def intro: streamedI
      split: prod.splits sum.splits prov_err.splits if_splits)

lemma attempt_with_plan_answer:
  assumes "attempt_with_plan env p reminders plan w = (Inr r, w')"
  shows "r = Completed a \<Longrightarrow> answer_of env p a"
    and "r = AbortedInStream a \<Longrightarrow> aborted_answer_of env p a"
proof -
  obtain req v where req: "rq_model req = pr_model p" "rq_session req = Some (pr_session p)"
    and at: "provider_attempt env req (ms_ref (pr_model p)) v = (Inr r, w')"
    by (rule that [rotated 2, OF assms [unfolded attempt_with_plan_def Let_def split_def]]) simp_all
  show "answer_of env p a" if "r = Completed a"
    using req provider_attempt_answer(1) [OF at that] unfolding answer_of_def by blast
  show "aborted_answer_of env p a" if "r = AbortedInStream a"
    using req provider_attempt_answer(2) [OF at that] unfolding aborted_answer_of_def answer_of_def by blast
qed

lemma run_compaction_aborted:
  "run_compaction env p sp w = (Inr (AbortedInStream a), w') \<Longrightarrow> aborted_answer_of env p a"
  by (auto simp: run_compaction_def aborted_attempt_def persist_compaction_def try_st_Inr_iff Let_def
      aborted_answer_of_def split: prod.splits sum.splits option.splits if_splits)

lemma compact_first_aborted:
  assumes "compact_first env p n sp w = (Inr (Inl a), w')"
  shows "aborted_answer_of env p a"
proof -
  from assms obtain x u v where x: "run_compaction env p sp u = (Inr x, v)"
    and "(case x of
             AbortedInStream a \<Rightarrow> (Inr (Inl a), v)
           | Attempt_Truncated \<Rightarrow>
               (Inl (Returned (Err_Provider ''compaction truncated: malformed-incomplete'')),
                emit (Error ''compaction truncated: malformed-incomplete'') v)
           | Attempt_Overflow \<Rightarrow>
               (Inl (Returned (Err_Provider ''compaction context overflow'')),
                emit (Error ''compaction context overflow'') v)
           | Completed _ \<Rightarrow>
               try_st (react_plan env p v) (\<lambda>plan w3.
                 if rp_compact plan \<noteq> None then (Inl (Returned CompactionLoop), w3)
                 else (Inr (Inr plan), w3))) = (Inr (Inl a), w')"
    unfolding compact_first_def Let_def by (auto simp only: try_st_Inr_iff split: if_split_asm)
  then show ?thesis
    by (cases x) (auto simp: try_st_Inr_iff intro: run_compaction_aborted split: if_split_asm)
qed

lemma one_attempt_answer:
  assumes "one_attempt env p reminders n w = (Inr (r, n'), w')"
  shows "r = Completed a \<Longrightarrow> answer_of env p a"
    and "r = AbortedInStream a \<Longrightarrow> aborted_answer_of env p a"
proof -
  have "(r = Completed a \<longrightarrow> answer_of env p a) \<and> (r = AbortedInStream a \<longrightarrow> aborted_answer_of env p a)"
  proof (cases "rp_compact (projr (fst (react_plan env p w)))")
    case None
    with assms show ?thesis
      by (auto simp: one_attempt_def try_st_Inr_iff Let_def intro: attempt_with_plan_answer split: if_split_asm)
  next
    case (Some sp)
    with assms obtain x w1 w2 where x: "compact_first env p (n + 1) sp w1 = (Inr x, w2)"
      and "(case x of Inl a \<Rightarrow> (Inr (AbortedInStream a, n + 1), w2)
        | Inr plan' \<Rightarrow> try_st (attempt_with_plan env p reminders plan' w2) (\<lambda>a w3. (Inr (a, n + 1), w3))) = (Inr (r, n'), w')"
      by (auto simp: one_attempt_def try_st_Inr_iff Let_def)
    then show ?thesis
      using compact_first_aborted [of env p "n + 1" sp w1]
      by (cases x) (auto simp: try_st_Inr_iff intro: attempt_with_plan_answer)
  qed
  then show "r = Completed a \<Longrightarrow> answer_of env p a" and "r = AbortedInStream a \<Longrightarrow> aborted_answer_of env p a"
    by simp_all
qed

lemma attempt_loop_answer:
  assumes "attempt_loop env p reminders t n w = (Inr x, w')"
  shows "case x of Inl a \<Rightarrow> aborted_answer_of env p a | Inr a \<Rightarrow> answer_of env p a"
  using assms
proof (induction env p reminders t n w rule: attempt_loop.induct)
  case (1 env p reminders t n w)
  from 1(3) obtain a n' w1 where one: "one_attempt env p reminders n w = (Inr (a, n'), w1)"
    by (subst (asm) attempt_loop.simps) (auto split: prod.splits sum.splits)
  show ?case
  proof (cases a)
    case Attempt_Overflow
    with 1(2) [OF one [symmetric] refl refl Attempt_Overflow] 1(3) one show ?thesis
      by (simp add: attempt_loop.simps [of env p reminders t n w])
  next
    case Attempt_Truncated
    from 1(1) [OF one [symmetric] refl refl Attempt_Truncated refl refl refl refl _ _ refl refl
        surjective_pairing [symmetric]] 1(3) one Attempt_Truncated
    show ?thesis
      by (simp add: attempt_loop.simps [of env p reminders t n w] Let_def split_def split: if_splits)
  qed (use 1(3) one one_attempt_answer [OF one] in \<open>auto simp: attempt_loop.simps [of env p reminders t n w]\<close>)
qed

lemma usage_event_main [simp]: "main_usage (usage_event p u Main est)"
  by (simp add: main_usage_def usage_event_def Let_def)

lemma persist_answer_Inr:
  "persist_answer env p a w = (Inr x, w') \<Longrightarrow>
   w_log w' = w_log w @ [MessageAppended 0 (am_message a), usage_event p (am_usage a) Main (\<not> am_usage_reported a)]"
  by (auto simp: persist_answer_def try_st_Inr_iff dest!: react_append_Inr record_usage_Inr)

lemma finish_turn_Inr:
  assumes "finish_turn env p turn a w = (Inr (out, p'), w')"
  shows "\<exists>ms. w_log w' = w_log w @ map (MessageAppended 0) ms \<and> p' = p \<and>
     (if ms = [] then out = Idle (am_stop a)
      else out = Continue \<and> (\<exists>v v'. collect_followup env v = (ms, v')))"
proof -
  obtain stop_now w1 where s: "hook_should_stop env (am_stop a) (am_usage a) turn w = (stop_now, w1)" by fastforce
  obtain fu w2 where f: "collect_followup env w1 = (fu, w2)" by fastforce
  have "w_log w1 = w_log w"
    using s by (auto simp: hook_should_stop_def dest!: guarded_keeps)
  moreover have "w_log w2 = w_log w1"
    using f by (auto simp: collect_followup_def dest!: guarded_keeps)
  ultimately have logs: "w_log w1 = w_log w" "w_log w2 = w_log w" by simp_all
  show ?thesis
  proof (cases "stop_now \<or> fu = []")
    case True
    with assms logs show ?thesis
      by (intro exI [of _ "[]"]) (auto simp: finish_turn_def s f split: if_splits)
  next
    case False
    with assms have "try_st (append_messages env p fu w2) (\<lambda>_ w3. (Inr (Continue, p), w3)) = (Inr (out, p'), w')"
      by (simp add: finish_turn_def s f)
    then obtain u where a: "append_messages env p fu w2 = (Inr u, w')" and "out = Continue" "p' = p"
      unfolding try_st_Inr_iff by blast
    moreover have "\<exists>v v'. collect_followup env v = (fu, v')" using f by blast
    ultimately show ?thesis
      using append_messages_Inr [OF a] logs False by (intro exI [of _ fu]) simp
  qed
qed

lemma apply_prepare_frame [simp]:
  "w_log (snd (apply_prepare_next_turn env p s u w)) = w_log w"
  "w_store (snd (apply_prepare_next_turn env p s u w)) = w_store w"
  "pr_config (fst (apply_prepare_next_turn env p s u w)) = pr_config p"
  "pr_session (fst (apply_prepare_next_turn env p s u w)) = pr_session p"
  by (simp_all add: apply_prepare_next_turn_def split_def Let_def split: option.split)

lemma after_batch_Inr:
  assumes "after_batch env p a results w = (Inr (out, p'), w')"
  shows "\<exists>i ms. w_log w' = w_log w @ MessageAppended 0 (tool_message i results) # map (MessageAppended 0) ms \<and>
     (out = Continue \<and> (\<exists>v v'. collect_steering env v = (ms, v')) \<or> out = Idle Aborted \<and> ms = [])"
proof -
  obtain i w1 where i: "ext (e_new_id env) w = (i, w1)" by fastforce
  from assms obtain n w2 where a: "react_append env p (MessageAppended 0 (tool_message i results)) w1 = (Inr n, w2)"
    by (auto simp: after_batch_def i try_st_Inr_iff)
  obtain c w3 where c: "ext (e_cancelled env) w2 = (c, w3)" by fastforce
  obtain st w4 where st: "collect_steering env w3 = (st, w4)" by fastforce
  have logs: "w_log w1 = w_log w" "w_log w3 = w_log w2" "w_log w4 = w_log w3"
    using ext_keeps [OF i] ext_keeps [OF c] guarded_keeps [OF st [unfolded collect_steering_def]] by simp_all
  have w2: "w_log w2 = w_log w @ [MessageAppended 0 (tool_message i results)]"
    using react_append_Inr [OF a] logs(1) by simp
  show ?thesis
  proof (cases c)
    case True
    with assms i a c w2 logs show ?thesis
      by (intro exI [of _ i] exI [of _ "[]"]) (auto simp: after_batch_def)
  next
    case False
    with assms i a c st obtain w5 where w5: "append_messages env p st w4 = (Inr (), w5)" "out = Continue"
      "w' = snd (apply_prepare_next_turn env p (am_stop a) (am_usage a) w5)"
      by (auto simp: after_batch_def try_st_Inr_iff split_def)
    show ?thesis
      using append_messages_Inr [OF w5(1)] w5(2,3) w2 logs
      by (intro exI [of _ i] exI [of _ st]) (use st in auto)
  qed
qed

lemma turn_reminders_frame [simp]:
  "w_log (snd (turn_reminders env p turn w)) = w_log w"
  "w_store (snd (turn_reminders env p turn w)) = w_store w"
  by (simp_all add: turn_reminders_def collect_steering_def split_def Let_def)

lemma turn_log:
  assumes "execute_turn env p turn w = Some (Inr (out, p'), w')"
  shows "\<exists>cs es. w_log w' = w_log w @ cs @ es \<and> (\<forall>e \<in> set cs. compaction_event e) \<and> turn_shape env (p\<lparr>pr_reactivation_reminder := None\<rparr>) es out"
proof -
  let ?p = "p\<lparr>pr_reactivation_reminder := None\<rparr>"
  obtain rs w1 where rs: "turn_reminders env p turn w = (rs, w1)" by fastforce
  then have w1: "w_log w1 = w_log w" using turn_reminders_frame(1) [of env p turn w] by simp
  obtain r w2 where r: "attempt_loop env ?p rs 0 0 w1 = (r, w2)" by fastforce
  obtain cs where cs: "w_log w2 = w_log w @ cs" "\<forall>e \<in> set cs. compaction_event e"
    using attempt_loop_logs [of w1 env ?p rs 0 0] r w1 by (auto simp: logs_def)
  have shape: "w_log w' = w_log w2 @ es \<Longrightarrow> turn_shape env (p\<lparr>pr_reactivation_reminder := None\<rparr>) es out \<Longrightarrow> ?thesis" for es
    using cs by (intro exI [of _ cs] exI [of _ es]) simp
  from assms rs r obtain x where x: "r = Inr x"
    by (cases r) (auto simp: execute_turn_def Let_def)
  have origin: "case x of Inl a \<Rightarrow> aborted_answer_of env ?p a | Inr a \<Rightarrow> answer_of env ?p a"
    using attempt_loop_answer [OF r [unfolded x]] .
  show ?thesis
  proof (cases x)
    case (Inl a)
    with assms rs r x obtain y w3 where u: "record_usage env ?p (am_usage a) Main (\<not> am_usage_reported a) w2 = (Inr y, w3)"
      "out = Idle Aborted" "w' = w3"
      by (auto simp: execute_turn_def Let_def try_st_Inr_iff)
    show ?thesis
      by (rule shape [OF record_usage_Inr [OF u(1), folded u(3)]])
        (use turn_shapeI(1) [OF _ usage_event_answer [of ?p a]] origin Inl u(2) in simp)
  next
    case (Inr a)
    let ?calls = "collect_tool_calls (am_message a)"
    from assms rs r x Inr obtain w3 where pa: "persist_answer env ?p a w2 = (Inr (), w3)"
      and rest: "(if ?calls = [] then Some (finish_turn env ?p turn a w3) else tool_turn env ?p a ?calls w3)
        = Some (Inr (out, p'), w')"
      by (auto simp: execute_turn_def Let_def split: prod.splits sum.splits)
    let ?u = "usage_event ?p (am_usage a) Main (\<not> am_usage_reported a)"
    show ?thesis
    proof (cases "?calls = []")
      case True
      with rest have "finish_turn env ?p turn a w3 = (Inr (out, p'), w')" by simp
      from finish_turn_Inr [OF this] obtain ms where
        ms: "w_log w' = w_log w3 @ map (MessageAppended 0) ms"
          "if ms = [] then out = Idle (am_stop a) else out = Continue \<and> (\<exists>v v'. collect_followup env v = (ms, v'))"
        by blast
      have "turn_shape env ?p (MessageAppended 0 (am_message a) # ?u # map (MessageAppended 0) ms) out"
        using turn_shapeI(2) [OF _ usage_event_answer [of ?p a] True ms(2)] origin Inr by simp
      with ms(1) persist_answer_Inr [OF pa] show ?thesis
        by (intro shape [of "MessageAppended 0 (am_message a) # ?u # map (MessageAppended 0) ms"]) simp_all
    next
      case False
      with rest obtain results w4 where
        b: "run_tool_batch env ?p ?calls (emit (status ''tool'' (''running '' @ show_nat (length ?calls) @ '' tool(s)'')) w3)
          = Some (Inr results, w4)"
        and ab: "after_batch env ?p a results w4 = (Inr (out, p'), w')"
        by (auto simp: tool_turn_def split: option.splits prod.splits sum.splits)
      obtain i ms where ms: "w_log w' = w_log w4 @ MessageAppended 0 (tool_message i results) # map (MessageAppended 0) ms"
        "out = Continue \<and> (\<exists>v v'. collect_steering env v = (ms, v')) \<or> out = Idle Aborted \<and> ms = []"
        using after_batch_Inr [OF ab] by blast
      have w4: "w_log w4 = w_log w3" using run_tool_batch_frame [OF b] by simp
      have "messages_of_calls ?calls (tool_message i results)"
        using batch_results [OF b] by (simp add: messages_of_calls_def tool_message_def)
      then have "turn_shape env ?p (MessageAppended 0 (am_message a) # ?u #
          MessageAppended 0 (tool_message i results) # map (MessageAppended 0) ms) out"
        using turn_shapeI(3) [OF _ usage_event_answer [of ?p a] False b _ ms(2)] origin Inr by simp
      with ms(1) w4 persist_answer_Inr [OF pa] show ?thesis
        by (intro shape [of "MessageAppended 0 (am_message a) # ?u #
            MessageAppended 0 (tool_message i results) # map (MessageAppended 0) ms"]) simp_all
    qed
  qed
qed

subsection \<open>What a run keeps\<close>

text \<open>The only events the loop appends.\<close>

definition loop_event :: "event \<Rightarrow> bool" where
  "loop_event e \<longleftrightarrow> compaction_event e \<or> main_usage e \<or> (\<exists>m. e = MessageAppended 0 m)"

text \<open>
  A property of the world that depends on the store and the log alone, and that appends of the
  loop's events to its session and plans keep.
\<close>

lemma after_batch_params:
  "after_batch env p a results w = (Inr (out, p'), w') \<Longrightarrow> pr_session p' = pr_session p \<and> pr_config p' = pr_config p"
  by (auto simp: after_batch_def try_st_Inr_iff split_def split: if_split_asm)

lemma execute_turn_session:
  "execute_turn env p turn v = Some (Inr (out, p'), v') \<Longrightarrow> pr_session p' = pr_session p \<and> pr_config p' = pr_config p"
  using after_batch_params finish_turn_Inr
  by (fastforce simp: execute_turn_def Let_def tool_turn_def try_st_Inr_iff split_def
      split: sum.split_asm if_split_asm option.split_asm)

locale loop_keeps =
  fixes env :: "('s, 'x) env" and sid :: session_id and Q :: "('s, 'x) world \<Rightarrow> bool"
  assumes frame: "w_store v' = w_store v \<Longrightarrow> w_log v' = w_log v \<Longrightarrow> Q v \<Longrightarrow> Q v'"
    and append_keeps: "pr_session p = sid \<Longrightarrow> loop_event ev \<Longrightarrow> Q v \<Longrightarrow> Q (snd (react_append env p ev v))"
    and plan_keeps: "pr_session p = sid \<Longrightarrow> Q v \<Longrightarrow> Q (snd (react_plan env p v))"
begin

lemma try_keeps: "Q (snd r) \<Longrightarrow> (\<And>a v. Q v \<Longrightarrow> Q (snd (f a v))) \<Longrightarrow> Q (snd (try_st r f))"
  by (auto simp: snd_try_st split: sum.split)

lemma basic_keeps:
  "Q v \<Longrightarrow> Q (emit l v)" "Q v \<Longrightarrow> Q (emits ls v)" "Q v \<Longrightarrow> Q (snd (ext f v))"
  "Q v \<Longrightarrow> Q (snd (guarded h d g v))" "Q v \<Longrightarrow> Q (snd (attempt_with_plan env p rs plan v))"
  "Q v \<Longrightarrow> Q (snd (aborted_attempt env m v))"
  by (erule frame [rotated 2]; simp)+

lemma messages_keep: "pr_session p = sid \<Longrightarrow> Q v \<Longrightarrow> Q (snd (append_messages env p ms v))"
  by (induction ms arbitrary: v) (auto intro!: try_keeps append_keeps simp: loop_event_def)

lemma usage_keeps: "pr_session p = sid \<Longrightarrow> Q v \<Longrightarrow> Q (snd (record_usage env p u Main est v))"
  by (auto simp: record_usage_def loop_event_def intro!: try_keeps append_keeps)

lemma persist_compaction_keeps:
  "pr_session p = sid \<Longrightarrow> Q v \<Longrightarrow> Q (snd (persist_compaction env p sp plan v))"
  unfolding persist_compaction_def
  by (intro try_keeps append_keeps)
    (auto simp: loop_event_def compaction_event_def handoff_event_def intro!: append_keeps split: option.split)

lemma run_compaction_keeps: "pr_session p = sid \<Longrightarrow> Q v \<Longrightarrow> Q (snd (run_compaction env p sp v))"
  unfolding run_compaction_def Let_def
  by (auto simp: split_def intro!: basic_keeps persist_compaction_keeps split: option.split sum.split)

lemma compact_first_keeps: "pr_session p = sid \<Longrightarrow> Q v \<Longrightarrow> Q (snd (compact_first env p n sp v))"
  unfolding compact_first_def Let_def
  by (auto intro!: try_keeps run_compaction_keeps plan_keeps basic_keeps split: attempt.split)

lemma one_attempt_keeps: "pr_session p = sid \<Longrightarrow> Q v \<Longrightarrow> Q (snd (one_attempt env p rs n v))"
  unfolding one_attempt_def Let_def
  by (auto intro!: try_keeps compact_first_keeps plan_keeps basic_keeps split: option.split sum.split)

lemma attempt_loop_keeps: "pr_session p = sid \<Longrightarrow> Q v \<Longrightarrow> Q (snd (attempt_loop env p rs t n v))"
  by (rule attempt_loop_inv) (auto intro: one_attempt_keeps basic_keeps)

lemma finish_turn_keeps: "pr_session p = sid \<Longrightarrow> Q v \<Longrightarrow> Q (snd (finish_turn env p turn a v))"
  by (auto simp: finish_turn_def hook_should_stop_def collect_followup_def split_def
      intro!: try_keeps messages_keep basic_keeps)

lemma after_batch_keeps: "pr_session p = sid \<Longrightarrow> Q v \<Longrightarrow> Q (snd (after_batch env p a results v))"
  by (auto simp: after_batch_def collect_steering_def split_def loop_event_def
      intro!: try_keeps append_keeps messages_keep basic_keeps frame [OF apply_prepare_frame(2,1)])

lemma execute_turn_keeps:
  assumes "pr_session p = sid" and "Q v" and "execute_turn env p turn v = Some (r, v')"
  shows "Q v'"
proof -
  let ?p = "p\<lparr>pr_reactivation_reminder := None\<rparr>"
  have sid: "pr_session ?p = sid" using assms(1) by simp
  obtain rs v1 where rs: "turn_reminders env p turn v = (rs, v1)" by fastforce
  then have v1: "Q v1" using frame [OF turn_reminders_frame(2,1) assms(2), of env p turn] by simp
  obtain r2 v2 where r2: "attempt_loop env ?p rs 0 0 v1 = (r2, v2)" by fastforce
  have v2: "Q v2" using attempt_loop_keeps [OF sid v1, of rs 0 0] r2 by simp
  have abort: "Q (snd (try_st (record_usage env ?p u Main e v2) (\<lambda>_ w3. (Inr (Idle Aborted, ?p), w3))))" for u e
    by (intro try_keeps usage_keeps sid v2) simp
  have answer: "Q (snd (persist_answer env ?p a v2))" for a
    unfolding persist_answer_def
    by (intro try_keeps append_keeps usage_keeps sid v2) (auto simp: loop_event_def sid)
  show ?thesis
  proof (cases r2)
    case (Inl e)
    with assms(3) rs r2 v2 show ?thesis by (simp add: execute_turn_def Let_def)
  next
    case (Inr x)
    show ?thesis
    proof (cases x)
      case (Inl a)
      with assms(3) rs r2 Inr abort [of "am_usage a" "\<not> am_usage_reported a"] show ?thesis
        by (simp add: execute_turn_def Let_def)
    next
      case a: (Inr a)
      obtain y v3 where pa: "persist_answer env ?p a v2 = (y, v3)" by fastforce
      have v3: "Q v3" using answer [of a] pa by simp
      show ?thesis
      proof (cases y)
        case (Inl e)
        with assms(3) rs r2 Inr a pa v3 show ?thesis by (simp add: execute_turn_def Let_def)
      next
        case y: (Inr u)
        let ?calls = "collect_tool_calls (am_message a)"
        show ?thesis
        proof (cases "?calls = []")
          case True
          with assms(3) rs r2 Inr a pa y finish_turn_keeps [OF sid v3, of turn a] show ?thesis
            by (simp add: execute_turn_def Let_def)
        next
          case False
          with assms(3) rs r2 Inr a pa y have tt: "tool_turn env ?p a ?calls v3 = Some (r, v')"
            by (simp add: execute_turn_def Let_def)
          let ?v3 = "emit (status ''tool'' (''running '' @ show_nat (length ?calls) @ '' tool(s)'')) v3"
          from tt obtain b v4 where b: "run_tool_batch env ?p ?calls ?v3 = Some (b, v4)"
            by (auto simp: tool_turn_def split: option.splits)
          have v4: "Q v4" using frame [of v4 ?v3] run_tool_batch_frame [OF b] basic_keeps(1) [OF v3] by blast
          show ?thesis
          proof (cases b)
            case (Inl e)
            with tt b v4 show ?thesis by (simp add: tool_turn_def)
          next
            case (Inr results)
            with tt b have "after_batch env ?p a results v4 = (r, v')" by (simp add: tool_turn_def)
            with after_batch_keeps [OF sid v4, of a results] show ?thesis by simp
          qed
        qed
      qed
    qed
  qed
qed

lemma run_from_keeps:
  assumes "run_from env p turn v = Some y" and "pr_session p = sid" and "Q v"
  shows "Q (snd y)"
proof -
  show ?thesis
  proof (rule run_from.raw_induct [where P = "\<lambda>env' p turn v y. env' = env \<longrightarrow> pr_session p = sid \<longrightarrow> Q v \<longrightarrow> Q (snd y)",
        OF _ assms(1), rule_format, OF _ refl assms(2,3)], goal_cases)
    case (1 rec env' p turn v y)
    show ?case
    proof (cases "case rc_max_turns (pr_config p) of None \<Rightarrow> False | Some n \<Rightarrow> n \<le> turn")
      case True
      with 1 show ?thesis by (auto simp: Let_def end_turn_def intro!: basic_keeps)
    next
      case False
      with 1(2,3) obtain r w1 where
        e: "execute_turn env p (turn + 1) (emit (TurnStarted (turn + 1)) v) = Some (r, w1)"
        by (auto split: option.splits)
      have w1: "Q w1" by (rule execute_turn_keeps [OF 1(4) basic_keeps(1) [OF 1(5)] e])
      show ?thesis
      proof (cases r)
        case (Inl x)
        with 1(2,3) False e w1 show ?thesis
          by (cases x) (auto simp: end_turn_def intro!: basic_keeps)
      next
        case (Inr z)
        obtain out p' where z: "z = (out, p')" by (cases z)
        have "pr_session p' = sid" using execute_turn_session e Inr z 1(4) by blast
        with Inr z 1 False e w1 show ?thesis
          by (cases out) (auto simp: end_turn_def intro!: basic_keeps)
      qed
    qed
  qed
qed

end

end

