(* ===== verification/Store_Fork.thy ===== *)
theory Store_Fork
  imports Store_Reproject
begin

text \<open>
  \<^verbatim>\<open>kn9t-store/src/fork.rs\<close>: forking a session at a sequence number. A fork has a \<open>SessionForked\<close>
  event at sequence 0 with the totals inherited up to the fork point, then the copied events
  renumbered from 1 with the ranges of their compactions remapped. An error after \<^verbatim>\<open>BEGIN\<close> returns
  without a rollback, so it leaves the transaction open with whatever was written so far.
\<close>

subsection \<open>The head of a fork\<close>

record fork_args =
  fa_origin :: session_id
  fa_new :: session_id
  fa_seq :: nat
  fa_reason :: fork_reason
  fa_budget :: "f64 option"
  fa_cwd :: string

definition up_to :: "nat \<Rightarrow> nat \<Rightarrow> bool" where
  "up_to limit n \<longleftrightarrow> int n \<le> wrap_i64 (int limit)"

definition fork_snapshot_of ::
  "fork_args \<Rightarrow> int \<Rightarrow> int \<Rightarrow> int \<Rightarrow> int \<Rightarrow> nat \<Rightarrow> nat \<Rightarrow> model_ref \<Rightarrow> fork_snapshot" where
  "fork_snapshot_of a cost tin tout cread msgs ctx m =
     \<lparr>fs_origin_session = fa_origin a, fs_origin_seq = fa_seq a, fs_reason = fa_reason a,
      fs_inherited_cost_usd = micros_to_usd cost, fs_inherited_cost_micros = cost,
      fs_inherited_tokens_in = nat tin, fs_inherited_tokens_out = nat tout,
      fs_inherited_cache_read = nat cread, fs_inherited_messages = cast_u32 msgs,
      fs_inherited_ctx_tokens = cast_u32 ctx, fs_budget_remaining_usd = fa_budget a,
      fs_budget_remaining_micros = map_option usd_to_micros (fa_budget a),
      fs_model_at_fork = m, fs_thinking_at_fork = Off, fs_cwd_at_fork = fa_cwd a\<rparr>"

definition fork_row :: "int \<Rightarrow> fork_args \<Rightarrow> nat \<Rightarrow> fork_snapshot \<Rightarrow> session_row" where
  "fork_row ts a ctx f =
     \<lparr>s_id = fa_new a, s_created_at = ts, s_cwd = fa_cwd a, s_origin = Some (fa_origin a),
      s_origin_seq = wrap_i64 (int (fa_seq a)), s_fork_reason = Some (fork_reason_str (fa_reason a)),
      s_inh_cost_micros = fs_inherited_cost_micros f, s_inh_tokens_in = int (fs_inherited_tokens_in f),
      s_inh_tokens_out = int (fs_inherited_tokens_out f), s_inh_ctx = int ctx,
      s_budget_micros = fs_budget_remaining_micros f, s_model = Some (enc_model_ref (fs_model_at_fork f)),
      s_head = 0\<rparr>"

definition fork_totals :: "fork_args \<Rightarrow> db \<Rightarrow> store_err + (int \<times> int \<times> int \<times> int)" where
  "fork_totals a d =
     (let us = sql_select (\<lambda>u. up_to (fa_seq a) (us_seq u)) (usages_of (fa_origin a) d) in
      bind_res (sql_sum (map us_cost_micros us)) (\<lambda>cost.
      bind_res (sql_sum (map (\<lambda>u. int (t_input (us_tokens u))) us)) (\<lambda>tin.
      bind_res (sql_sum (map (\<lambda>u. int (t_output (us_tokens u))) us)) (\<lambda>tout.
      bind_res (sql_sum (map (\<lambda>u. int (t_cache_read (us_tokens u))) us)) (\<lambda>cread.
      Inr (cost, tin, tout, cread))))))"

definition fork_ctx :: "fork_args \<Rightarrow> db \<Rightarrow> nat" where
  "fork_ctx a d =
     (case sql_last_by us_seq (sql_select (\<lambda>u. up_to (fa_seq a) (us_seq u)) (usages_of (fa_origin a) d)) of
        Some u \<Rightarrow> t_input (us_tokens u) | None \<Rightarrow> 0)"

definition fork_msgs :: "fork_args \<Rightarrow> db \<Rightarrow> nat" where
  "fork_msgs a d = length (sql_select (\<lambda>m. up_to (fa_seq a) (m_seq m)) (messages_of (fa_origin a) d))"

definition fork_begin :: "int \<Rightarrow> fork_args \<Rightarrow> db \<Rightarrow> (store_err + fork_snapshot) \<times> db" where
  "fork_begin ts a d =
     (case fork_totals a d of
        Inl e \<Rightarrow> (Inl e, d)
      | Inr (cost, tin, tout, cread) \<Rightarrow>
          (case session_of (fa_origin a) d of
             None \<Rightarrow> (Inl (No_Session (fa_origin a)), d)
           | Some r \<Rightarrow>
               (case Option.bind (s_model r) dec_model_ref of
                  None \<Rightarrow> (Inl No_Model, d)
                | Some m \<Rightarrow>
                    (let f = fork_snapshot_of a cost tin tout cread (fork_msgs a d) (fork_ctx a d) m in
                     case sql_insert s_id (fork_row ts a (fork_ctx a d) f) (sessions d) of
                       None \<Rightarrow> (Inl Insert_Failed, d)
                     | Some ss \<Rightarrow>
                         (case enc_event (SessionForked 0 f) of
                            None \<Rightarrow> (Inl Serialize_Failed, d\<lparr>sessions := ss\<rparr>)
                          | Some payload \<Rightarrow>
                              (case insert_event
                                      (event_row_of (fa_new a) 0 ts (SessionForked 0 f) payload) (events d) of
                                 None \<Rightarrow> (Inl Insert_Failed, d\<lparr>sessions := ss\<rparr>)
                               | Some evs \<Rightarrow> (Inr f, d\<lparr>sessions := ss, events := evs\<rparr>)))))))"

subsection \<open>Copying the events\<close>

definition copyable :: "string list" where
  "copyable = [''MessageAppended'', ''ModelChanged'', ''Compacted'']"

definition copy_rows_of :: "fork_args \<Rightarrow> db \<Rightarrow> event_row list" where
  "copy_rows_of a d =
     sort_key ev_seq (sql_select (\<lambda>r. up_to (fa_seq a) (ev_seq r) \<and> ev_kind r \<in> set copyable)
       (events_of (fa_origin a) d))"

definition seq_map_of :: "event_row list \<Rightarrow> nat \<Rightarrow> nat option" where
  "seq_map_of rows = fold (\<lambda>(i, r) m. m(ev_seq r \<mapsto> i + 1)) (enumerate 0 rows) Map.empty"

definition remap_seq :: "(nat \<Rightarrow> nat option) \<Rightarrow> nat \<Rightarrow> nat" where
  "remap_seq m s = (case m s of Some n \<Rightarrow> n | None \<Rightarrow> s)"

definition remap_event_seq :: "json \<Rightarrow> nat \<Rightarrow> (nat \<Rightarrow> nat option) \<Rightarrow> json" where
  "remap_event_seq payload new_seq m =
     (case payload of
        JObj obj \<Rightarrow>
          (let obj1 = obj_insert ''seq'' (enc_uint new_seq) obj in
           case map_of obj1 ''replaced'' of
             None \<Rightarrow> JObj obj1
           | Some rep \<Rightarrow>
               (case (Option.bind (obj_get ''start'' rep) (dec_uint u64_max),
                      Option.bind (obj_get ''end'' rep) (dec_uint u64_max)) of
                  (Some s, Some e) \<Rightarrow>
                    JObj (obj_insert ''replaced''
                      (JObj [(''start'', enc_uint (remap_seq m s)), (''end'', enc_uint (remap_seq m e))]) obj1)
                | _ \<Rightarrow> JObj obj1))
      | j \<Rightarrow> j)"

fun copy_events ::
  "msg_id \<Rightarrow> session_id \<Rightarrow> (nat \<Rightarrow> nat option) \<Rightarrow> nat \<Rightarrow> event_row list \<Rightarrow> db \<Rightarrow> store_err option \<times> db" where
  "copy_events new_id sid m i [] d = (None, d)"
| "copy_events new_id sid m i (r # rs) d =
     (let payload = remap_event_seq (ev_payload r) (i + 1) m in
      case insert_event
             \<lparr>ev_session = sid, ev_seq = i + 1, ev_ts = ev_ts r, ev_kind = ev_kind r, ev_payload = payload\<rparr>
             (events d) of
        None \<Rightarrow> (Some Insert_Failed, d)
      | Some evs \<Rightarrow>
          (case dec_event new_id payload of
             None \<Rightarrow> (Some Decode_Failed, d\<lparr>events := evs\<rparr>)
           | Some e \<Rightarrow>
               copy_events new_id sid m (i + 1) rs
                 (write_rows (project sid (ev_ts r) e) (d\<lparr>events := evs\<rparr>))))"

definition fork_session ::
  "msg_id \<Rightarrow> int \<Rightarrow> fork_args \<Rightarrow> store \<Rightarrow> (store_err + unit) \<times> store" where
  "fork_session new_id ts a st =
     (case begin_immediate st of
        None \<Rightarrow> (Inl Begin_Failed, st)
      | Some st1 \<Rightarrow>
          (case fork_begin ts a (st_db st1) of
             (Inl e, d) \<Rightarrow> (Inl e, st1\<lparr>st_db := d\<rparr>)
           | (Inr f, d) \<Rightarrow>
               (let rows = copy_rows_of a d in
                case copy_events new_id (fa_new a) (seq_map_of rows) 0 rows d of
                  (Some e, d2) \<Rightarrow> (Inl e, st1\<lparr>st_db := d2\<rparr>)
                | (None, d2) \<Rightarrow>
                    (Inr (), commit (st1\<lparr>st_db := set_head (fa_new a) (length rows) d2\<rparr>)))))"

definition fork_session_empty :: "int \<Rightarrow> fork_args \<Rightarrow> store \<Rightarrow> (store_err + unit) \<times> store" where
  "fork_session_empty ts a st =
     (case begin_immediate st of
        None \<Rightarrow> (Inl Begin_Failed, st)
      | Some st1 \<Rightarrow>
          (case fork_begin ts a (st_db st1) of
             (Inl e, d) \<Rightarrow> (Inl e, st1\<lparr>st_db := d\<rparr>)
           | (Inr f, d) \<Rightarrow> (Inr (), commit (st1\<lparr>st_db := d\<rparr>))))"

subsection \<open>A fork is well formed\<close>

lemma fork_snapshot_in_range:
  assumes "fork_totals a d = Inr (cost, tin, tout, cread)" and "in_u64 (fa_seq a)"
  shows "event_in_range (SessionForked 0 (fork_snapshot_of a cost tin tout cread msgs ctx m))"
proof -
  have "in_i64 cost" "in_i64 tin" "in_i64 tout" "in_i64 cread"
    using assms(1) by (auto simp: fork_totals_def Let_def bind_res_Inr_iff dest: sql_sum_InrD)
  moreover have "in_i64 (usd_to_micros x)" for x
    by (auto simp: usd_to_micros_def in_i64_def i64_min_def i64_max_def)
  moreover have "in_u32 (cast_u32 x)" for x
    by (simp add: in_u32_def cast_u32_def u32_max_def)
  ultimately show ?thesis
    using assms(2)
    by (auto simp: fork_in_range_def fork_snapshot_of_def thinking_in_range_def in_i64_def i64_max_def
        in_u64_def u64_max_def split: option.split)
qed

text \<open>What a successful \<open>fork_begin\<close> did.\<close>

lemma fork_begin_InrD:
  assumes "fork_begin ts a d = (Inr f, d1)"
  obtains cost tin tout cread r m payload where
    "fork_totals a d = Inr (cost, tin, tout, cread)" "session_of (fa_origin a) d = Some r"
    "Option.bind (s_model r) dec_model_ref = Some m"
    "f = fork_snapshot_of a cost tin tout cread (fork_msgs a d) (fork_ctx a d) m"
    "fa_new a \<notin> s_id ` set (sessions d)" "enc_event (SessionForked 0 f) = Some payload"
    "d1 = d\<lparr>sessions := sessions d @ [fork_row ts a (fork_ctx a d) f],
            events := events d @ [event_row_of (fa_new a) 0 ts (SessionForked 0 f) payload]\<rparr>"
  using assms
  by (auto simp: fork_begin_def Let_def fork_row_def insert_event_iff dest!: sql_insert_SomeD
      split: sum.splits option.splits prod.splits)

lemma session_of_fork:
  assumes "fa_new a \<notin> s_id ` set (sessions d)"
  shows "session_of s (d\<lparr>sessions := sessions d @ [fork_row ts a c f], events := evs\<rparr>) =
     (if s = fa_new a then Some (fork_row ts a c f) else session_of s d)"
proof -
  have "sql_insert s_id (fork_row ts a c f) (sessions d) = Some (sessions d @ [fork_row ts a c f])"
    using assms by (auto simp: sql_insert_def fork_row_def)
  from sessions_pk.first_insert [OF this, of s] show ?thesis
    by (simp add: session_of_def fork_row_def)
qed

lemma fork_begin_ok:
  assumes ok: "db_ok d" and a: "in_u64 (fa_seq a)" and f: "fork_begin ts a d = (Inr f, d1)"
  shows "db_ok d1" and "head_of (fa_new a) d1 = Some 0"
proof -
  from f obtain cost tin tout cread r m payload where
    tot: "fork_totals a d = Inr (cost, tin, tout, cread)" and
    fs: "f = fork_snapshot_of a cost tin tout cread (fork_msgs a d) (fork_ctx a d) m" and
    new: "fa_new a \<notin> s_id ` set (sessions d)" and
    p: "enc_event (SessionForked 0 f) = Some payload" and
    d1: "d1 = d\<lparr>sessions := sessions d @ [fork_row ts a (fork_ctx a d) f],
            events := events d @ [event_row_of (fa_new a) 0 ts (SessionForked 0 f) payload]\<rparr>"
    by (rule fork_begin_InrD)
  let ?row = "event_row_of (fa_new a) 0 ts (SessionForked 0 f) payload"
  have range: "event_in_range (SessionForked 0 f)"
    unfolding fs by (rule fork_snapshot_in_range [OF tot a])
  have so: "session_of s d1 = (if s = fa_new a then Some (fork_row ts a (fork_ctx a d) f) else session_of s d)" for s
    unfolding d1 by (rule session_of_fork [OF new])
  then show "head_of (fa_new a) d1 = Some 0"
    by (simp add: head_of_def fork_row_def)
  have eo: "events_of s d1 = events_of s d @ (if s = fa_new a then [?row] else [])" for s
    by (simp add: d1 events_of_def sql_select_def event_row_of_def)
  have none: "events_of (fa_new a) d = []"
    using ok new session_of_None [of "fa_new a" d]
    by (auto simp: db_ok_def log_ok_def dest!: spec [of _ "fa_new a"])
  have "log_ok d1 s" for s
  proof (cases "s = fa_new a")
    case True
    with none show ?thesis
      by (simp add: log_ok_def so eo seqs_of_session_def fork_row_def i64_max_def event_row_of_def)
  next
    case False
    then have "log_ok d1 s = log_ok d s"
      by (intro log_ok_cong1) (simp_all add: so eo)
    with ok show ?thesis by (simp add: db_ok_def)
  qed
  moreover have "proj_ok n d1 s" for n s
  proof -
    have "replay_rows n ?row = []"
      using dec_enc_event [OF range p] by (simp add: replay_rows_def event_row_of_def project_def)
    moreover have "messages_of s d1 = messages_of s d" "usages_of s d1 = usages_of s d"
      by (simp_all add: d1 messages_of_def usages_of_def)
    ultimately show ?thesis
      using ok by (simp add: proj_ok_def eo replay_of_def db_ok_def)
  qed
  moreover have "row_ok ?row"
    unfolding row_ok_def using range p
    by (intro conjI exI [of _ "SessionForked 0 f"]) (simp_all add: event_row_of_def)
  then have "\<forall>r \<in> set (events d1). row_ok r"
    using ok by (simp add: db_ok_def d1)
  moreover have "distinct (map s_id (sessions d1))"
    using ok new by (simp add: db_ok_def d1 fork_row_def)
  ultimately show "db_ok d1"
    unfolding db_ok_def by blast
qed

subsection \<open>Remapping an event\<close>

definition remap_event :: "(nat \<Rightarrow> nat option) \<Rightarrow> nat \<Rightarrow> event \<Rightarrow> event" where
  "remap_event m n e =
     (case e of
        Compacted _ r s \<Rightarrow> Compacted n \<lparr>sr_start = remap_seq m (sr_start r), sr_end = remap_seq m (sr_end r)\<rparr> s
      | _ \<Rightarrow> with_seq n e)"

lemma seq_remap_event [simp]: "seq (remap_event m n e) = (if is_durable e then Some n else None)"
  by (cases e) (simp_all add: remap_event_def is_durable_def)

lemma event_kind_remap [simp]: "event_kind_name (remap_event m n e) = event_kind_name e"
  by (cases e) (simp_all add: remap_event_def)

lemma remap_event_json:
  assumes "event_kind_name e \<in> set copyable" and "event_in_range e" and "enc_event e = Some p"
  shows "enc_event (remap_event m n e) = Some (remap_event_seq p n m)"
  using assms
  by (cases e)
    (auto simp: copyable_def remap_event_def enc_event_def remap_event_seq_def kind_obj_def enc_range_def
      codec_simps split: if_splits)

lemma remap_event_in_range:
  assumes "event_in_range e" and "in_u64 n" and "\<And>s k. m s = Some k \<Longrightarrow> in_u64 k"
  shows "event_in_range (remap_event m n e)"
proof -
  have "in_u64 s \<Longrightarrow> in_u64 (remap_seq m s)" for s
    using assms(3) by (auto simp: remap_seq_def split: option.split)
  with assms show ?thesis
    by (cases e) (simp_all add: remap_event_def)
qed

subsection \<open>Copying keeps the invariant\<close>

definition copied_row :: "session_id \<Rightarrow> (nat \<Rightarrow> nat option) \<Rightarrow> nat \<times> event_row \<Rightarrow> event_row" where
  "copied_row sid m p =
     (case p of (i, r) \<Rightarrow>
        \<lparr>ev_session = sid, ev_seq = i + 1, ev_ts = ev_ts r, ev_kind = ev_kind r,
         ev_payload = remap_event_seq (ev_payload r) (i + 1) m\<rparr>)"

text \<open>
  What a copied event becomes, without the map the code builds: the number of a copied event is its
  place among the copied ones, counted from 1; a number that was not copied stays; and a compaction has
  both ends of its range renumbered the same way.
\<close>

definition fork_number :: "event_row list \<Rightarrow> nat \<Rightarrow> nat" where
  "fork_number rows n =
     (if n \<in> ev_seq ` set rows then Suc (length (filter (\<lambda>r. ev_seq r < n) rows)) else n)"

fun fork_event :: "event_row list \<Rightarrow> event \<Rightarrow> event" where
  "fork_event rows (Compacted n r summary) =
     Compacted (fork_number rows n)
       \<lparr>sr_start = fork_number rows (sr_start r), sr_end = fork_number rows (sr_end r)\<rparr> summary"
| "fork_event rows e = (case seq e of Some n \<Rightarrow> with_seq (fork_number rows n) e | None \<Rightarrow> e)"

lemma seq_map_fold:
  "sorted_wrt (<) (map ev_seq rs) \<Longrightarrow>
   fold (\<lambda>(i, r) m. m(ev_seq r \<mapsto> i + 1)) (enumerate j rs) m0 n =
     (if n \<in> ev_seq ` set rs then Some (j + Suc (length (filter (\<lambda>r. ev_seq r < n) rs))) else m0 n)"
proof (induction rs arbitrary: j m0)
  case (Cons r rs)
  have later: "ev_seq r < ev_seq x" if "x \<in> set rs" for x
    using Cons.prems that by simp
  then have "ev_seq r \<notin> ev_seq ` set rs" and "filter (\<lambda>x. ev_seq x < ev_seq r) rs = []"
    by (fastforce simp: filter_empty_conv)+
  with later Cons show ?case by (auto simp: fun_upd_def)
qed simp

lemma remap_seq_map:
  "sorted_wrt (<) (map ev_seq rows) \<Longrightarrow> remap_seq (seq_map_of rows) n = fork_number rows n"
  by (simp only: remap_seq_def seq_map_of_def seq_map_fold fork_number_def) simp

lemma fork_number_nth:
  assumes "sorted_wrt (<) (map ev_seq rows)" and "i < length rows"
  shows "fork_number rows (ev_seq (rows ! i)) = Suc i"
proof -
  have "filter (\<lambda>r. ev_seq r < ev_seq (rows ! i)) rows = take i rows"
  proof -
    have "ev_seq x < ev_seq (rows ! i)" if "x \<in> set (take i rows)" for x
      using that assms sorted_wrt_nth_less [OF assms(1)] by (auto simp: in_set_conv_nth)
    moreover have "\<not> ev_seq x < ev_seq (rows ! i)" if x: "x \<in> set (drop i rows)" for x
    proof -
      obtain k where "k < length (drop i rows)" "x = drop i rows ! k"
        using x unfolding in_set_conv_nth by blast
      then have k: "i + k < length rows" "x = rows ! (i + k)"
        using assms(2) by simp_all
      show ?thesis
        using k sorted_wrt_nth_less [OF assms(1), of i "i + k"] by (cases "k = 0") auto
    qed
    ultimately have "filter (\<lambda>r. ev_seq r < ev_seq (rows ! i)) (take i rows @ drop i rows) = take i rows"
      by (simp only: filter_append) (simp add: filter_id_conv filter_empty_conv)
    then show ?thesis by simp
  qed
  with assms show ?thesis by (simp add: fork_number_def)
qed

lemma remap_is_fork_event:
  assumes "sorted_wrt (<) (map ev_seq rows)" and "i < length rows" and "seq e = Some (ev_seq (rows ! i))"
  shows "remap_event (seq_map_of rows) (Suc i) e = fork_event rows e"
  using assms fork_number_nth [OF assms(1,2)]
  by (cases e) (simp_all add: remap_event_def remap_seq_map)

lemma copied_row_is:
  assumes "row_ok r" and "ev_kind r \<in> set copyable" and "in_u64 (i + 1)"
    and "\<And>s k. m s = Some k \<Longrightarrow> in_u64 k"
  obtains e where "event_in_range e" "seq e = Some (i + 1)"
    "enc_event e = Some (remap_event_seq (ev_payload r) (i + 1) m)"
    "copied_row sid m (i, r) = event_row_of sid (i + 1) (ev_ts r) e (remap_event_seq (ev_payload r) (i + 1) m)"
proof -
  from assms(1) obtain e where e: "event_in_range e" "seq e = Some (ev_seq r)"
    "enc_event e = Some (ev_payload r)" "ev_kind r = event_kind_name e"
    by (auto simp: row_ok_def)
  show ?thesis
  proof (rule that)
    show "event_in_range (remap_event m (i + 1) e)"
      by (rule remap_event_in_range) (use e assms in auto)
    show "seq (remap_event m (i + 1) e) = Some (i + 1)"
      using e by (simp add: is_durable_def)
    show "enc_event (remap_event m (i + 1) e) = Some (remap_event_seq (ev_payload r) (i + 1) m)"
      by (rule remap_event_json) (use e assms in auto)
    show "copied_row sid m (i, r) =
        event_row_of sid (i + 1) (ev_ts r) (remap_event m (i + 1) e) (remap_event_seq (ev_payload r) (i + 1) m)"
      using e by (simp add: copied_row_def event_row_of_def)
  qed
qed

lemma copied_payload:
  assumes "row_ok r" and "ev_kind r \<in> set copyable" and "in_u64 (i + 1)"
    and "\<And>s k. m s = Some k \<Longrightarrow> in_u64 k"
  obtains e where "dec_event n (ev_payload r) = Some e" "seq e = Some (ev_seq r)"
    "dec_event n (remap_event_seq (ev_payload r) (i + 1) m) = Some (remap_event m (i + 1) e)"
proof -
  from assms(1) obtain e where e: "event_in_range e" "seq e = Some (ev_seq r)"
    "enc_event e = Some (ev_payload r)" "ev_kind r = event_kind_name e"
    by (auto simp: row_ok_def)
  have "enc_event (remap_event m (i + 1) e) = Some (remap_event_seq (ev_payload r) (i + 1) m)"
    by (rule remap_event_json) (use e assms in auto)
  moreover have "event_in_range (remap_event m (i + 1) e)"
    by (rule remap_event_in_range) (use e assms in auto)
  ultimately show ?thesis
    using that [of e] dec_enc_event e by blast
qed

lemma set_head_set_head: "set_head s m (set_head s n d) = set_head s m d"
  by (simp add: set_head_def sql_update_def)

lemma copy_step_ok:
  assumes "db_ok (set_head sid i d)" and "head_of sid d \<noteq> None" and "int i < i64_max"
    and "event_in_range e" and "seq e = Some (i + 1)" and "enc_event e = Some p"
  shows "db_ok (set_head sid (i + 1)
      (write_rows (project sid ts e) (d\<lparr>events := events d @ [event_row_of sid (i + 1) ts e p]\<rparr>)))"
    and "(sid, i + 1) \<notin> event_key ` set (events d)"
proof -
  have h: "head_of sid (set_head sid i d) = Some i"
    using assms(2) by (auto simp: head_of_set_head)
  have "db_ok (appended (\<lambda>_. []) ts sid e p (i + 1) (set_head sid i d))"
    by (rule appended_ok) (use assms h in auto)
  then show "db_ok (set_head sid (i + 1)
      (write_rows (project sid ts e) (d\<lparr>events := events d @ [event_row_of sid (i + 1) ts e p]\<rparr>)))"
    by (rule db_ok_cong)
      (simp_all add: appended_def set_head_def sql_update_def write_rows_def)
  show "(sid, i + 1) \<notin> event_key ` set (events d)"
    using log_ok_fresh_key [OF assms(1) h] by simp
qed

lemma copy_events_ok:
  assumes "db_ok (set_head sid i d)" and "head_of sid d \<noteq> None"
    and "int (i + length rs) \<le> i64_max"
    and "\<And>r. r \<in> set rs \<Longrightarrow> row_ok r \<and> ev_kind r \<in> set copyable"
    and "\<And>s k. m s = Some k \<Longrightarrow> in_u64 k"
    and "fst (copy_events new_id sid m i rs d) = None \<or> int (length (events d) + length rs) \<le> sqlite_max_rows"
  shows "\<exists>d2. copy_events new_id sid m i rs d = (None, d2) \<and>
     db_ok (set_head sid (i + length rs) d2) \<and> sessions d2 = sessions d \<and> blobs d2 = blobs d \<and>
     events d2 = events d @ map (copied_row sid m) (enumerate i rs) \<and>
     (\<forall>s. s \<noteq> sid \<longrightarrow> messages_of s d2 = messages_of s d \<and> usages_of s d2 = usages_of s d)"
  using assms
proof (induction rs arbitrary: i d)
  case Nil
  then show ?case by simp
next
  case (Cons r rs)
  let ?p = "remap_event_seq (ev_payload r) (i + 1) m"
  have i: "int i < i64_max" "in_u64 (i + 1)"
    using Cons.prems(3) i64_le_u64 [of "i + 1"] by auto
  obtain e where e: "event_in_range e" "seq e = Some (i + 1)" "enc_event e = Some ?p"
    "copied_row sid m (i, r) = event_row_of sid (i + 1) (ev_ts r) e ?p"
    using copied_row_is [of r i m sid] Cons.prems(4,5) i(2) by (metis list.set_intros(1))
  let ?d = "write_rows (project sid (ev_ts r) e)
      (d\<lparr>events := events d @ [event_row_of sid (i + 1) (ev_ts r) e ?p]\<rparr>)"
  note step = copy_step_ok(1) [where ts = "ev_ts r", OF Cons.prems(1,2) i(1) e(1,2,3)]
    copy_step_ok(2) [OF Cons.prems(1,2) i(1) e(1,2,3)]
  have hd: "head_of sid ?d = head_of sid d"
    by (simp add: head_of_def session_of_def)
  have "int (length (events d)) < sqlite_max_rows"
    using Cons.prems(6) by (auto simp: Let_def insert_event_def split: if_splits)
  then have copy: "copy_events new_id sid m i (r # rs) d = copy_events new_id sid m (i + 1) rs ?d"
    using step(2) e(3,4) dec_enc_event [OF e(1,3)]
    by (auto simp: insert_event_def sql_insert_def event_key_def image_iff copied_row_def Let_def)
  have "\<exists>d2. copy_events new_id sid m (i + 1) rs ?d = (None, d2) \<and>
     db_ok (set_head sid (i + 1 + length rs) d2) \<and> sessions d2 = sessions ?d \<and> blobs d2 = blobs ?d \<and>
     events d2 = events ?d @ map (copied_row sid m) (enumerate (i + 1) rs) \<and>
     (\<forall>s. s \<noteq> sid \<longrightarrow> messages_of s d2 = messages_of s ?d \<and> usages_of s d2 = usages_of s ?d)"
    by (rule Cons.IH) (use Cons.prems step(1) hd copy in auto)
  then show ?case
    using e(4) copy by (auto simp: messages_of_project usages_of_project)
qed

lemma seq_map_bound:
  "fold (\<lambda>(i, r) m. m(ev_seq r \<mapsto> i + 1)) (enumerate j rs) m0 s = Some k \<Longrightarrow>
   (\<And>s k. m0 s = Some k \<Longrightarrow> k \<le> b) \<Longrightarrow> j + length rs \<le> b \<Longrightarrow> k \<le> b"
proof (induction rs arbitrary: j m0)
  case (Cons r rs)
  show ?case
    by (rule Cons.IH [of "j + 1" "m0(ev_seq r \<mapsto> j + 1)"]) (use Cons.prems in \<open>auto split: if_splits\<close>)
qed auto

lemma copy_rows_bounds:
  assumes ok: "db_ok d" and r: "session_of (fa_origin a) d = Some r"
  shows "length (copy_rows_of a d) \<le> s_head r"
    and "x \<in> set (copy_rows_of a d) \<Longrightarrow> row_ok x \<and> ev_kind x \<in> set copyable"
    and "sorted_wrt (<) (map ev_seq (copy_rows_of a d))"
proof -
  have log: "log_ok d (fa_origin a)" using ok by (simp add: db_ok_def)
  have map: "map ev_seq (events_of (fa_origin a) d) = seqs_of_session r"
    using log r by (simp add: log_ok_def)
  show rows: "row_ok x \<and> ev_kind x \<in> set copyable" if "x \<in> set (copy_rows_of a d)" for x
    using that ok by (auto simp: copy_rows_of_def sql_select_def events_of_def db_ok_def)
  let ?ss = "map ev_seq (copy_rows_of a d)"
  have "distinct (map ev_seq (events_of (fa_origin a) d))"
    by (simp add: map seqs_of_session_def del: upt_Suc)
  then have "distinct ?ss"
    by (simp add: copy_rows_of_def sql_select_def distinct_map inj_on_def)
  moreover have "sorted ?ss"
    by (simp add: copy_rows_of_def)
  ultimately show "sorted_wrt (<) ?ss"
    by (simp add: strict_sorted_iff)
  have "set ?ss \<subseteq> {1..s_head r}"
  proof
    fix n assume "n \<in> set ?ss"
    then obtain x where x: "x \<in> set (copy_rows_of a d)" "n = ev_seq x" by auto
    then have "n \<in> set (map ev_seq (events_of (fa_origin a) d))"
      by (auto simp: copy_rows_of_def sql_select_def)
    then have "n \<le> s_head r" by (simp only: map seqs_of_session_max)
    moreover have "n \<noteq> 0"
    proof -
      have "ev_seq x = 0 \<longrightarrow> ev_kind x = ''SessionForked''" and "ev_kind x \<in> set copyable"
        using rows [OF x(1)] by (simp_all add: row_ok_def)
      then show ?thesis
        using x(2) by (cases "ev_seq x = 0") (simp_all add: copyable_def)
    qed
    ultimately show "n \<in> {1..s_head r}" by simp
  qed
  with \<open>distinct ?ss\<close> have "length ?ss \<le> card {1..s_head r}"
    by (metis card_mono distinct_card finite_atLeastAtMost)
  then show "length (copy_rows_of a d) \<le> s_head r" by simp
qed

subsection \<open>What a fork does\<close>

lemma fork_begin_works:
  assumes ok: "db_ok d" and "fork_totals a d = Inr t" and "session_of (fa_origin a) d = Some r"
    and "Option.bind (s_model r) dec_model_ref = Some m" and new: "session_of (fa_new a) d = None"
    and room: "int (length (events d)) < sqlite_max_rows"
  obtains f d1 where "fork_begin ts a d = (Inr f, d1)"
    "f = (case t of (c, i, o', k) \<Rightarrow> fork_snapshot_of a c i o' k (fork_msgs a d) (fork_ctx a d) m)"
proof -
  obtain cost tin tout cread where t: "t = (cost, tin, tout, cread)" by (cases t)
  let ?f = "fork_snapshot_of a cost tin tout cread (fork_msgs a d) (fork_ctx a d) m"
  obtain p where p: "enc_event (SessionForked 0 ?f) = Some p"
    using enc_event_durable [of "SessionForked 0 ?f"] by (auto simp: is_durable_def)
  have "sql_insert s_id (fork_row ts a (fork_ctx a d) ?f) (sessions d) \<noteq> None"
    using new by (simp add: sql_insert_def fork_row_def session_of_None)
  moreover have "events_of (fa_new a) d = []"
    using ok new by (auto simp: db_ok_def log_ok_def dest!: spec [of _ "fa_new a"])
  then have "insert_event (event_row_of (fa_new a) 0 ts (SessionForked 0 ?f) p) (events d) \<noteq> None"
    using room by (auto simp: insert_event_def sql_insert_def event_key_def event_row_of_def events_of_def sql_select_def filter_empty_conv)
  ultimately have "\<exists>d1. fork_begin ts a d = (Inr ?f, d1)"
    using assms t p by (auto simp: fork_begin_def Let_def)
  then show ?thesis using that t by auto
qed

lemma fork_session_works:
  assumes txn: "st_txn st = None" and ok: "db_ok (st_db st)" and a: "in_u64 (fa_seq a)"
    and fb: "fork_begin ts a (st_db st) = (Inr f, d1)"
    and room: "fst (fork_session new_id ts a st) = Inr () \<or>
      int (length (events d1) + length (copy_rows_of a d1)) \<le> sqlite_max_rows"
  obtains st' rows where
    "fork_session new_id ts a st = (Inr (), st')" "rows = copy_rows_of a d1"
    "st_txn st' = None" "db_ok (st_db st')"
    "events (st_db st') = events d1 @ map (copied_row (fa_new a) (seq_map_of rows)) (enumerate 0 rows)"
    "sessions (st_db st') = sessions (set_head (fa_new a) (length rows) d1)"
    "blobs (st_db st') = blobs (st_db st)"
    "\<And>s. s \<noteq> fa_new a \<Longrightarrow> messages_of s (st_db st') = messages_of s (st_db st) \<and>
       usages_of s (st_db st') = usages_of s (st_db st)"
proof -
  let ?rows = "copy_rows_of a d1" and ?new = "fa_new a"
  note ok1 = fork_begin_ok [OF ok a fb]
  obtain r where r: "session_of (fa_origin a) (st_db st) = Some r"
    and d1: "messages d1 = messages (st_db st)" "usages d1 = usages (st_db st)" "blobs d1 = blobs (st_db st)"
      "sessions d1 = sessions (st_db st) @ [fork_row ts a (fork_ctx a (st_db st)) f]"
    and new: "?new \<notin> s_id ` set (sessions (st_db st))"
    using fb by (rule fork_begin_InrD) (auto intro: that)
  have "fa_origin a \<noteq> ?new"
    using r new session_of_SomeD by (metis image_eqI)
  have "sql_insert s_id (fork_row ts a (fork_ctx a (st_db st)) f) (sessions (st_db st)) = Some (sessions d1)"
    using new d1(4) by (simp add: sql_insert_def fork_row_def)
  with \<open>fa_origin a \<noteq> ?new\<close> r have r1: "session_of (fa_origin a) d1 = Some r"
    using sessions_pk.first_insert [of _ "sessions (st_db st)" "sessions d1" "fa_origin a"]
    by (simp add: session_of_def fork_row_def)
  have len: "int (0 + length ?rows) \<le> i64_max"
    using copy_rows_bounds(1) [OF ok1(1) r1] ok1(1) r1
    by (auto simp: db_ok_def log_ok_def dest!: spec [of _ "fa_origin a"])
  have h0: "set_head ?new 0 d1 = d1"
  proof -
    have "r'\<lparr>s_head := 0\<rparr> = r'" if "r' \<in> set (sessions d1)" "s_id r' = ?new" for r'
      using that new d1(4) by (auto simp: fork_row_def image_iff)
    then have "sql_update (\<lambda>r. s_id r = ?new) (\<lambda>r. r\<lparr>s_head := 0\<rparr>) (sessions d1) = sessions d1"
      unfolding sql_update_def by (intro map_idI) auto
    then show ?thesis by (simp add: set_head_def)
  qed
  have "fst (copy_events new_id ?new (seq_map_of ?rows) 0 ?rows d1) = None \<or>
      int (length (events d1) + length ?rows) \<le> sqlite_max_rows"
    using room fb txn by (auto simp: fork_session_def begin_immediate_def Let_def split: prod.splits option.splits)
  then have "\<exists>d2. copy_events new_id ?new (seq_map_of ?rows) 0 ?rows d1 = (None, d2) \<and>
     db_ok (set_head ?new (0 + length ?rows) d2) \<and> sessions d2 = sessions d1 \<and> blobs d2 = blobs d1 \<and>
     events d2 = events d1 @ map (copied_row ?new (seq_map_of ?rows)) (enumerate 0 ?rows) \<and>
     (\<forall>s. s \<noteq> ?new \<longrightarrow> messages_of s d2 = messages_of s d1 \<and> usages_of s d2 = usages_of s d1)"
  proof (intro copy_events_ok)
    show "in_u64 k" if "seq_map_of ?rows s = Some k" for s k
      using seq_map_bound [OF that [unfolded seq_map_of_def], of "length ?rows"] len i64_le_u64 [of k] by auto
  qed (use ok1 h0 len copy_rows_bounds(2) [OF ok1(1) r1] in auto)
  then obtain d2 where d2: "copy_events new_id ?new (seq_map_of ?rows) 0 ?rows d1 = (None, d2)"
    "db_ok (set_head ?new (length ?rows) d2)" "sessions d2 = sessions d1" "blobs d2 = blobs d1"
    "events d2 = events d1 @ map (copied_row ?new (seq_map_of ?rows)) (enumerate 0 ?rows)"
    "\<And>s. s \<noteq> ?new \<Longrightarrow> messages_of s d2 = messages_of s d1 \<and> usages_of s d2 = usages_of s d1"
    by auto
  let ?st = "commit (st\<lparr>st_txn := Some (st_db st), st_db := set_head ?new (length ?rows) d2\<rparr>)"
  have "fork_session new_id ts a st = (Inr (), ?st)"
    using fb d2(1) txn by (simp add: fork_session_def begin_immediate_def Let_def)
  then show ?thesis
  proof (rule that [OF _ refl])
    show "messages_of s (st_db ?st) = messages_of s (st_db st) \<and> usages_of s (st_db ?st) = usages_of s (st_db st)"
      if "s \<noteq> ?new" for s
      using d2(6) [OF that] d1 by (simp add: commit_def messages_of_def usages_of_def)
  qed (use d2 d1 in \<open>simp_all add: commit_def set_head_def\<close>)
qed

lemma fork_session_InrD:
  assumes f: "fork_session new_id ts a st = (Inr u, st')" and ok: "db_ok (durable_db st)"
    and a: "in_u64 (fa_seq a)"
  obtains f d1 rows where
    "st_txn st = None" "fork_begin ts a (st_db st) = (Inr f, d1)" "rows = copy_rows_of a d1"
    "st_txn st' = None" "db_ok (st_db st')"
    "events (st_db st') = events d1 @ map (copied_row (fa_new a) (seq_map_of rows)) (enumerate 0 rows)"
    "sessions (st_db st') = sessions (set_head (fa_new a) (length rows) d1)"
    "blobs (st_db st') = blobs (st_db st)"
    "\<And>s. s \<noteq> fa_new a \<Longrightarrow> messages_of s (st_db st') = messages_of s (st_db st) \<and>
       usages_of s (st_db st') = usages_of s (st_db st)"
proof -
  have txn: "st_txn st = None"
    using f by (auto simp: fork_session_def begin_immediate_def split: if_splits)
  with ok have ok: "db_ok (st_db st)" by (simp add: durable_db_def)
  obtain f d1 where fb: "fork_begin ts a (st_db st) = (Inr f, d1)"
    using f by (auto simp: fork_session_def begin_immediate_def txn split: prod.splits sum.splits)
  from fork_session_works [OF txn ok a fb, of new_id] f fb show ?thesis
    using that [OF txn] by auto
qed

lemma fork_session_err:
  assumes "fork_session new_id ts a st = (Inl e, st')"
  shows "durable_db st' = durable_db st"
  using assms
  by (auto simp: fork_session_def begin_immediate_def durable_db_def Let_def
      split: if_splits prod.splits sum.splits option.splits)

lemma fork_session_ok:
  assumes "db_ok (durable_db st)" and "in_u64 (fa_seq a)"
  shows "db_ok (durable_db (snd (fork_session new_id ts a st)))"
proof (cases "fork_session new_id ts a st")
  case (Pair r st')
  show ?thesis
  proof (cases r)
    case (Inl e)
    with Pair fork_session_err assms(1) show ?thesis by fastforce
  next
    case (Inr u)
    with Pair have "fork_session new_id ts a st = (Inr u, st')" by simp
    then have "st_txn st' = None" "db_ok (st_db st')"
      using assms by (auto elim: fork_session_InrD)
    with Pair show ?thesis by (simp add: durable_db_def)
  qed
qed

lemma fork_session_empty_ok:
  assumes "db_ok (durable_db st)" and "in_u64 (fa_seq a)"
  shows "db_ok (durable_db (snd (fork_session_empty ts a st)))"
proof (cases "begin_immediate st")
  case (Some st1)
  then have st1: "st_txn st = None" "st1 = st\<lparr>st_txn := Some (st_db st)\<rparr>"
    by (auto simp: begin_immediate_iff)
  show ?thesis
  proof (cases "fork_begin ts a (st_db st1)")
    case (Pair r d)
    with Some st1 assms fork_begin_ok(1) [of "st_db st" a ts _ d] show ?thesis
      by (cases r) (auto simp: fork_session_empty_def durable_db_def commit_def)
  qed
qed (simp add: fork_session_empty_def assms)

subsection \<open>The log and the tables of a fork\<close>

lemma replay_no_usage:
  assumes "row_ok r" and "ev_kind r = ''SessionForked'' \<or> ev_kind r \<in> set copyable"
  shows "fold row_usages (replay_rows n r) t = t"
proof -
  obtain e where e: "dec_event n (ev_payload r) = Some e" "ev_kind r = event_kind_name e"
    using row_ok_decode [OF assms(1), of n] by auto
  show ?thesis
    using e assms(2) by (cases e) (simp_all add: replay_rows_def project_def copyable_def)
qed

lemma replay_of_no_usage:
  "\<forall>r \<in> set rs. row_ok r \<and> (ev_kind r = ''SessionForked'' \<or> ev_kind r \<in> set copyable) \<Longrightarrow>
   fold row_usages (replay_of n rs) t = t"
  by (induction rs arbitrary: t) (simp_all add: replay_of_def replay_no_usage)

lemma copied_row_simps [simp]:
  "ev_session (copied_row sid m p) = sid" "ev_seq (copied_row sid m p) = fst p + 1"
  "ev_kind (copied_row sid m p) = ev_kind (snd p)" "ev_ts (copied_row sid m p) = ev_ts (snd p)"
  by (simp_all add: copied_row_def split: prod.split)

text \<open>The payloads of the copies decode to the originals renumbered.\<close>

lemma copied_events:
  assumes ok: "db_ok d" and r: "session_of (fa_origin a) d = Some r" and rows: "rows = copy_rows_of a d"
  obtains es where "map (\<lambda>r. dec_event n (ev_payload r)) rows = map Some es"
    "map (\<lambda>r. dec_event n (ev_payload r)) (map (copied_row sid (seq_map_of rows)) (enumerate 0 rows)) =
       map (Some \<circ> fork_event rows) es"
proof -
  note b = copy_rows_bounds [OF ok r, folded rows]
  have len: "int (length rows) \<le> i64_max"
    using b(1) ok r by (auto simp: db_ok_def log_ok_def dest!: spec [of _ "fa_origin a"])
  have m: "in_u64 k" if "seq_map_of rows s = Some k" for s k
    using seq_map_bound [OF that [unfolded seq_map_of_def], of "length rows"] len i64_le_u64 [of k] by auto
  define es where "es = map (\<lambda>r. the (dec_event n (ev_payload r))) rows"
  have each: "dec_event n (ev_payload (rows ! i)) = Some (es ! i) \<and>
      dec_event n (remap_event_seq (ev_payload (rows ! i)) (Suc i) (seq_map_of rows)) = Some (fork_event rows (es ! i))"
    if i: "i < length rows" for i
  proof -
    have "in_u64 (i + 1)" using len i i64_le_u64 [of "i + 1"] by simp
    then obtain e where e: "dec_event n (ev_payload (rows ! i)) = Some e" "seq e = Some (ev_seq (rows ! i))"
      "dec_event n (remap_event_seq (ev_payload (rows ! i)) (i + 1) (seq_map_of rows)) =
         Some (remap_event (seq_map_of rows) (i + 1) e)"
      using copied_payload [of "rows ! i" i "seq_map_of rows" n] b(2) m i by (metis nth_mem)
    with remap_is_fork_event [OF b(3) i e(2)] i show ?thesis by (simp add: es_def)
  qed
  have "map (\<lambda>r. dec_event n (ev_payload r)) rows = map Some es"
    by (rule nth_equalityI) (use each in \<open>simp_all add: es_def\<close>)
  moreover have "map (\<lambda>r. dec_event n (ev_payload r)) (map (copied_row sid (seq_map_of rows)) (enumerate 0 rows)) =
      map (Some \<circ> fork_event rows) es"
    by (rule nth_equalityI) (use each in \<open>simp_all add: es_def copied_row_def nth_enumerate_eq\<close>)
  ultimately show ?thesis by (rule that)
qed

lemma fork_effect:
  assumes txn: "st_txn st = None" and ok: "db_ok (st_db st)" and a: "in_u64 (fa_seq a)"
    and tot: "fork_totals a (st_db st) = Inr t" and r: "session_of (fa_origin a) (st_db st) = Some r"
    and m: "Option.bind (s_model r) dec_model_ref = Some m"
    and new: "session_of (fa_new a) (st_db st) = None"
    and room: "int (length (events (st_db st)) + length (copy_rows_of a (st_db st))) < sqlite_max_rows"
  shows "\<exists>st' rows es. fork_session new_id ts a st = (Inr (), st') \<and> st_txn st' = None \<and>
     rows = copy_rows_of a (st_db st) \<and>
     map ev_seq (events_of (fa_new a) (st_db st')) = [0..<Suc (length rows)] \<and>
     map ev_kind (events_of (fa_new a) (st_db st')) = ''SessionForked'' # map ev_kind rows \<and>
     map ev_ts (tl (events_of (fa_new a) (st_db st'))) = map ev_ts rows \<and>
     map (\<lambda>r. dec_event n (ev_payload r)) rows = map Some es \<and>
     map (\<lambda>r. dec_event n (ev_payload r)) (events_of (fa_new a) (st_db st')) =
       map Some (SessionForked 0 (case t of (c, i, o', k) \<Rightarrow>
         fork_snapshot_of a c i o' k (fork_msgs a (st_db st)) (fork_ctx a (st_db st)) m) # map (fork_event rows) es) \<and>
     head_of (fa_new a) (st_db st') = Some (length rows) \<and>
     usages_of (fa_new a) (st_db st') = [] \<and>
     (\<forall>s. s \<noteq> fa_new a \<longrightarrow> events_of s (st_db st') = events_of s (st_db st) \<and>
        messages_of s (st_db st') = messages_of s (st_db st) \<and>
        usages_of s (st_db st') = usages_of s (st_db st) \<and>
        session_of s (st_db st') = session_of s (st_db st))"
proof -
  let ?new = "fa_new a" and ?d = "st_db st"
  obtain f d1 where fb: "fork_begin ts a ?d = (Inr f, d1)"
    and f: "f = (case t of (c, i, o', k) \<Rightarrow> fork_snapshot_of a c i o' k (fork_msgs a ?d) (fork_ctx a ?d) m)"
    by (rule fork_begin_works [OF ok tot r m new]) (use room in auto)
  obtain c p where d1: "d1 = ?d\<lparr>sessions := sessions ?d @ [fork_row ts a c f],
      events := events ?d @ [event_row_of ?new 0 ts (SessionForked 0 f) p]\<rparr>"
    and fresh: "?new \<notin> s_id ` set (sessions ?d)" and p: "enc_event (SessionForked 0 f) = Some p"
    using fb by (rule fork_begin_InrD) (rule that)
  have none: "events_of ?new ?d = []"
    using ok new by (auto simp: db_ok_def log_ok_def dest!: spec [of _ ?new])
  have "fa_origin a \<noteq> ?new" using r new by auto
  then have rows: "copy_rows_of a d1 = copy_rows_of a ?d"
    by (simp add: copy_rows_of_def d1 events_of_def sql_select_def event_row_of_def)
  obtain st' where st': "fork_session new_id ts a st = (Inr (), st')" "st_txn st' = None" "db_ok (st_db st')"
    "events (st_db st') = events d1 @ map (copied_row ?new (seq_map_of (copy_rows_of a d1))) (enumerate 0 (copy_rows_of a d1))"
    "sessions (st_db st') = sessions (set_head ?new (length (copy_rows_of a d1)) d1)"
    "\<And>s. s \<noteq> ?new \<Longrightarrow> messages_of s (st_db st') = messages_of s ?d \<and> usages_of s (st_db st') = usages_of s ?d"
    by (rule fork_session_works [OF txn ok a fb, of new_id]) (use room rows d1 in simp, metis that)
  let ?rows = "copy_rows_of a ?d"
  obtain es where es: "map (\<lambda>r. dec_event n (ev_payload r)) ?rows = map Some es"
    "map (\<lambda>r. dec_event n (ev_payload r)) (map (copied_row ?new (seq_map_of ?rows)) (enumerate 0 ?rows)) =
       map (Some \<circ> fork_event ?rows) es"
    by (rule copied_events [OF ok r refl])
  have "event_in_range (SessionForked 0 f)"
    unfolding f using tot fork_snapshot_in_range [OF _ a] by (cases t) auto
  then have fork_ev: "dec_event n p = Some (SessionForked 0 f)"
    using p by (rule dec_enc_event)
  have evd: "events d1 = events ?d @ [event_row_of ?new 0 ts (SessionForked 0 f) p]"
    by (simp add: d1)
  have ev: "events_of ?new (st_db st') = event_row_of ?new 0 ts (SessionForked 0 f) p #
      map (copied_row ?new (seq_map_of ?rows)) (enumerate 0 ?rows)"
    using none
    by (simp add: events_of_def sql_select_def st'(4) [unfolded rows] evd event_row_of_def filter_map comp_def)
  have ev_other: "events_of s (st_db st') = events_of s ?d" if "s \<noteq> ?new" for s
    using that
    by (simp add: events_of_def sql_select_def st'(4) [unfolded rows] evd event_row_of_def filter_map comp_def)
  have so: "session_of s (st_db st') = session_of s (set_head ?new (length ?rows) d1)" for s
    using of_cong(4) [OF st'(5), of s] by (simp add: rows)
  have so1: "session_of s d1 = (if s = ?new then Some (fork_row ts a c f) else session_of s ?d)" for s
    unfolding d1 by (rule session_of_fork [OF fresh])
  have "head_of ?new (st_db st') = Some (length ?rows)"
    by (simp add: head_of_def so session_of_set_head so1)
  moreover have "session_of s (st_db st') = session_of s ?d" if "s \<noteq> ?new" for s
    using that by (simp add: so session_of_set_head so1 option.map_ident)
  moreover have "map (\<lambda>p. Suc (fst p)) (enumerate 0 ?rows) = map Suc (map fst (enumerate 0 ?rows))"
    unfolding map_map comp_def ..
  then have "map ev_seq (events_of ?new (st_db st')) = 0 # [1..<Suc (length ?rows)]"
    by (simp add: ev comp_def event_row_of_def map_Suc_upt del: upt_Suc)
  then have "map ev_seq (events_of ?new (st_db st')) = [0..<Suc (length ?rows)]"
    by (simp add: upt_conv_Cons [of 0] del: upt_Suc)
  moreover have k: "map (g \<circ> snd) (enumerate 0 ?rows) = map g ?rows" for g :: "event_row \<Rightarrow> 'b"
    by (metis map_map map_snd_enumerate)
  then have "map ev_kind (events_of ?new (st_db st')) = ''SessionForked'' # map ev_kind ?rows"
    using k [of ev_kind] by (simp add: ev comp_def event_row_of_def)
  moreover have "map ev_ts (tl (events_of ?new (st_db st'))) = map ev_ts ?rows"
    using k [of ev_ts] by (simp add: ev comp_def)
  moreover have "usages_of ?new (st_db st') = []"
  proof -
    have "\<forall>x \<in> set (events_of ?new (st_db st')). row_ok x"
      using st'(3) by (simp add: db_ok_def events_of_def sql_select_def)
    moreover have "\<forall>x \<in> set (events_of ?new (st_db st')). ev_kind x = ''SessionForked'' \<or> ev_kind x \<in> set copyable"
      using copy_rows_bounds(2) [OF ok r] by (auto simp: ev event_row_of_def enumerate_eq_zip dest: set_zip_rightD)
    moreover have "usages_of ?new (st_db st') = fold row_usages (replay_of [] (events_of ?new (st_db st'))) []"
      using st'(3) unfolding db_ok_def proj_ok_def by blast
    ultimately show ?thesis
      using replay_of_no_usage [of "events_of ?new (st_db st')" "[]" "[]"] by simp
  qed
  ultimately show ?thesis
    using st'(1,2,6) ev_other es fork_ev f
    by (intro exI [of _ st'] exI [of _ ?rows] exI [of _ es] conjI allI impI)
      (simp_all add: ev event_row_of_def comp_def)
qed

end
