(* ===== verification/Store_System.thy ===== *)
theory Store_System
  imports Store_Fork Store_Live
begin

text \<open>
  The store as a state machine: every public operation of \<^verbatim>\<open>kn9t-store\<close> is a step, and so is the
  death of the process followed by an open. The invariant of the tables holds of what is durable in
  every reachable state, and the store refines a map from sessions to gapless event logs, which is
  all the \<^verbatim>\<open>Store\<close> trait promises its client.
\<close>

subsection \<open>Origins\<close>

text \<open>A session is created after the session it is forked from.\<close>

fun origins_from :: "session_id set \<Rightarrow> session_row list \<Rightarrow> bool" where
  "origins_from known [] = True"
| "origins_from known (r # rs) =
     ((case s_origin r of None \<Rightarrow> True | Some p \<Rightarrow> p \<in> known) \<and> origins_from (insert (s_id r) known) rs)"

definition origins_ok :: "db \<Rightarrow> bool" where
  "origins_ok d = origins_from {} (sessions d)"

lemma origins_from_append:
  "origins_from K (rs @ [r]) \<longleftrightarrow>
     origins_from K rs \<and> (case s_origin r of None \<Rightarrow> True | Some p \<Rightarrow> p \<in> K \<union> s_id ` set rs)"
  by (induction rs arbitrary: K) (auto split: option.splits)

lemma origins_from_map:
  "(\<And>r. s_id (g r) = s_id r) \<Longrightarrow> (\<And>r. s_origin (g r) = s_origin r) \<Longrightarrow>
   origins_from K (map g rs) = origins_from K rs"
  by (induction rs arbitrary: K) auto

lemma origins_from_delete:
  "origins_from K rs \<Longrightarrow> (\<And>r. r \<in> set rs \<Longrightarrow> s_origin r \<noteq> Some sid) \<Longrightarrow> K - {sid} \<subseteq> L \<Longrightarrow>
   origins_from L (filter (\<lambda>r. s_id r \<noteq> sid) rs)"
proof (induction rs arbitrary: K L)
  case (Cons r rs)
  have "s_origin r \<noteq> Some sid" using Cons.prems(2) by simp
  moreover have "origins_from L (filter (\<lambda>r. s_id r \<noteq> sid) rs)" if "s_id r = sid"
    by (rule Cons.IH [of "insert (s_id r) K"]) (use Cons.prems that in auto)
  moreover have "origins_from (insert (s_id r) L) (filter (\<lambda>r. s_id r \<noteq> sid) rs)"
    by (rule Cons.IH [of "insert (s_id r) K"]) (use Cons.prems in auto)
  ultimately show ?case
    using Cons.prems by (auto split: option.splits)
qed simp

lemma origins_from_nth:
  "origins_from K rs \<Longrightarrow> i < length rs \<Longrightarrow> s_origin (rs ! i) = Some p \<Longrightarrow>
   p \<in> K \<or> (\<exists>j < i. s_id (rs ! j) = p)"
proof (induction rs arbitrary: K i)
  case (Cons r rs)
  show ?case
  proof (cases i)
    case (Suc k)
    with Cons.IH [of "insert (s_id r) K" k] Cons.prems show ?thesis
      by (auto intro: exI [of _ 0] exI [of _ "Suc _"])
  qed (use Cons.prems in auto)
qed simp

lemma origins_ok_cong: "sessions d' = sessions d \<Longrightarrow> origins_ok d \<Longrightarrow> origins_ok d'"
  by (simp add: origins_ok_def)

lemma origins_ok_set_head: "origins_ok d \<Longrightarrow> origins_ok (set_head sid n d)"
  by (simp add: origins_ok_def set_head_def sql_update_def origins_from_map)

lemma origins_ok_appended: "origins_ok d \<Longrightarrow> origins_ok (appended f now sid ev p n d)"
  unfolding appended_def by (rule origins_ok_set_head, rule origins_ok_cong) simp_all

lemma origins_ok_deleted:
  assumes "origins_ok d" and "fork_count sid d = 0"
  shows "origins_ok (deleted f sid d)"
proof -
  have "s_origin r \<noteq> Some sid" if "r \<in> set (sessions d)" for r
    using assms(2) that by (auto simp: fork_count_def sql_select_def filter_empty_conv)
  with assms(1) origins_from_delete [of "{}" "sessions d" sid "{}"] show ?thesis
    by (simp add: origins_ok_def deleted_def Let_def sql_delete_def)
qed

lemma fork_begin_origins:
  assumes "origins_ok d" and "fork_begin ts a d = (Inr f, d1)"
  shows "origins_ok d1"
proof -
  obtain r payload where r: "session_of (fa_origin a) d = Some r" and
    d1: "d1 = d\<lparr>sessions := sessions d @ [fork_row ts a (fork_ctx a d) f],
      events := events d @ [event_row_of (fa_new a) 0 ts (SessionForked 0 f) payload]\<rparr>"
    using assms(2) by (rule fork_begin_InrD) (rule that)
  from r have "fa_origin a \<in> s_id ` set (sessions d)" using session_of_SomeD by force
  then show ?thesis
    using assms(1) by (simp add: d1 origins_ok_def origins_from_append fork_row_def)
qed

definition store_inv :: "db \<Rightarrow> bool" where
  "store_inv d \<longleftrightarrow> db_ok d \<and> origins_ok d"

lemma store_inv_cong:
  "store_inv d \<Longrightarrow> sessions d' = sessions d \<Longrightarrow> events d' = events d \<Longrightarrow> messages d' = messages d \<Longrightarrow>
   usages d' = usages d \<Longrightarrow> store_inv d'"
  using db_ok_cong origins_ok_cong by (auto simp: store_inv_def)

lemma inv_update:
  "store_inv (durable_db st) \<Longrightarrow> (\<And>d. store_inv d \<Longrightarrow> store_inv (g d)) \<Longrightarrow>
   store_inv (durable_db (st\<lparr>st_db := g (st_db st)\<rparr>))"
  by (simp add: durable_db_def split: option.splits)

subsection \<open>The steps\<close>

inductive store_step :: "(json \<Rightarrow> string) \<Rightarrow> store \<Rightarrow> store \<Rightarrow> bool" for text_of where
  step_create: "store_step text_of st (snd (create_session now sid cwd m st))"
| step_append: "event_in_range e \<Longrightarrow> store_step text_of st (snd (append text_of now sid e st))"
| step_fork: "in_u64 (fa_seq a) \<Longrightarrow> store_step text_of st (snd (fork_session new_id now a st))"
| step_fork_empty: "in_u64 (fa_seq a) \<Longrightarrow> store_step text_of st (snd (fork_session_empty now a st))"
| step_delete: "store_step text_of st (snd (delete_session text_of sid st))"
| step_upsert_live: "store_step text_of st (snd (upsert_live_message now sid mid rl cs st))"
| step_delete_live: "store_step text_of st (delete_live_message sid st)"
| step_begin_tool: "store_step text_of st (snd (begin_live_tool_call now sid cid tool st))"
| step_tool_progress: "store_step text_of st (append_live_tool_progress now sid cid note st)"
| step_end_tool: "store_step text_of st (end_live_tool_call sid cid st)"
| step_put_blob: "store_step text_of st (snd (put_blob sha now bytes mime st))"
| step_kv_set: "store_step text_of st (kv_set now p sc k v st)"
| step_kv_del: "store_step text_of st (kv_del p sc k st)"
| step_kv_del_scope: "store_step text_of st (kv_del_scope p sc st)"
| step_set_pref: "store_step text_of st (set_pref k' v' st)"
| step_register: "store_step text_of st (register_model_spec sp st)"
| step_reproject: "store_step text_of st (snd (reproject new_id st))"
| step_reopen: "store_step text_of st (open_store new_id st)"

inductive store_reachable :: "(json \<Rightarrow> string) \<Rightarrow> store \<Rightarrow> bool" for text_of where
  reach_fresh: "store_reachable text_of (open_store new_id fresh_store)"
| reach_store_step: "store_reachable text_of st \<Longrightarrow> store_step text_of st st' \<Longrightarrow> store_reachable text_of st'"

text \<open>
  A transaction that was begun and neither committed nor rolled back stays open: every operation that
  begins one fails, every other one writes inside it, and only opening the file again ends it.
\<close>

lemma open_store_txn: "st_txn (open_store new_id st) = None"
  by (simp add: open_store_def)

definition restarts :: "store \<Rightarrow> store \<Rightarrow> bool" where
  "restarts st st' \<longleftrightarrow> (\<exists>new_id. st' = open_store new_id st)"

inductive same_process :: "(json \<Rightarrow> string) \<Rightarrow> store \<Rightarrow> store \<Rightarrow> bool" for text_of st where
  same_refl: "same_process text_of st st"
| same_step: "same_process text_of st s \<Longrightarrow> store_step text_of s s' \<Longrightarrow> \<not> restarts s s' \<Longrightarrow> same_process text_of st s'"

lemma open_txn_step:
  "store_step text_of st st' \<Longrightarrow> st_txn st = Some d \<Longrightarrow> \<not> restarts st st' \<Longrightarrow> st_txn st' = Some d"
  by (induction rule: store_step.induct)
    (auto simp: create_session_def append_def fork_session_def fork_session_empty_def delete_session_def
      begin_immediate_def reproject_def upsert_live_message_def delete_live_message_def
      begin_live_tool_call_def append_live_tool_progress_def end_live_tool_call_def put_blob_def
      kv_set_def kv_del_def kv_del_scope_def set_pref_def register_model_spec_def restarts_def Let_def
      split: option.splits prod.splits)

lemma open_txn_stays:
  "same_process text_of st s \<Longrightarrow> st_txn st = Some d \<Longrightarrow> st_txn s = Some d"
  by (induction rule: same_process.induct) (auto intro: open_txn_step)

lemma open_txn_refuses:
  assumes "st_txn s = Some d"
  shows "is_durable e \<Longrightarrow> append text_of now sid e s = (Inl Begin_Failed, s)"
    and "fork_session new_id now a s = (Inl Begin_Failed, s)"
    and "fork_session_empty now a s = (Inl Begin_Failed, s)"
    and "reproject new_id s = (Inl Begin_Failed, s)"
    and "\<exists>x. delete_session text_of sid s = (Inl x, s)"
    and "durable_db s = d"
  using assms
  by (auto simp: append_def is_durable_def begin_immediate_def fork_session_def fork_session_empty_def
      reproject_def delete_session_def durable_db_def)

lemma append_origins:
  assumes "origins_ok (durable_db st)"
  shows "origins_ok (durable_db (snd (append f now sid e st)))"
proof (cases "append f now sid e st")
  case (Pair r st')
  show ?thesis
  proof (cases r)
    case (Inl err)
    with Pair append_durable_db [of f now sid e st err st'] assms show ?thesis by simp
  next
    case (Inr n)
    with Pair have "append f now sid e st = (Inr n, st')" by simp
    then have "origins_ok (durable_db st')"
      using assms by (auto simp: append_Inr_iff durable_db_def origins_ok_appended)
    with Pair show ?thesis by simp
  qed
qed

lemma fork_origins:
  assumes inv: "store_inv (durable_db st)" and a: "in_u64 (fa_seq a)"
  shows "origins_ok (durable_db (snd (fork_session new_id ts a st)))"
proof (cases "fork_session new_id ts a st")
  case (Pair r st')
  show ?thesis
  proof (cases r)
    case (Inl e)
    with Pair fork_session_err [of new_id ts a st e st'] inv show ?thesis by (simp add: store_inv_def)
  next
    case (Inr u)
    with Pair have f: "fork_session new_id ts a st = (Inr u, st')" by simp
    have "db_ok (durable_db st)" using inv by (simp add: store_inv_def)
    from f this a obtain fs d1 rows where *: "st_txn st = None" "fork_begin ts a (st_db st) = (Inr fs, d1)"
      "st_txn st' = None" "sessions (st_db st') = sessions (set_head (fa_new a) (length (rows :: event_row list)) d1)"
      by (rule fork_session_InrD) (rule that, assumption+)
    have "origins_ok d1"
      using fork_begin_origins [OF _ *(2)] inv *(1) by (simp add: store_inv_def durable_db_def)
    then have "origins_ok (st_db st')"
      using origins_ok_cong [OF *(4)] origins_ok_set_head by blast
    with Pair *(3) show ?thesis by (simp add: durable_db_def)
  qed
qed

lemma fork_empty_origins:
  assumes "origins_ok (durable_db st)"
  shows "origins_ok (durable_db (snd (fork_session_empty ts a st)))"
proof (cases "begin_immediate st")
  case (Some st1)
  then have st1: "st_txn st = None" "st1 = st\<lparr>st_txn := Some (st_db st)\<rparr>"
    by (auto simp: begin_immediate_iff)
  show ?thesis
  proof (cases "fork_begin ts a (st_db st1)")
    case (Pair r d)
    with Some st1 assms fork_begin_origins [of "st_db st" ts a _ d] show ?thesis
      by (cases r) (auto simp: fork_session_empty_def durable_db_def commit_def)
  qed
qed (simp add: fork_session_empty_def assms)

lemma create_origins:
  assumes "origins_ok (durable_db st)"
  shows "origins_ok (durable_db (snd (create_session now sid cwd m st)))"
  using assms
  by (auto simp: create_session_def durable_db_def sql_insert_def origins_ok_def origins_from_append
      root_row_def split: option.splits if_splits)

lemma delete_inv:
  assumes "store_inv (durable_db st)"
  shows "store_inv (durable_db (snd (delete_session f sid st)))"
  using assms deleted_ok origins_ok_deleted
  by (auto simp: delete_session_def begin_immediate_def durable_db_def commit_def store_inv_def)

lemma reproject_inv:
  assumes "store_inv (durable_db st)"
  shows "store_inv (durable_db (snd (reproject new_id st)))"
  using assms db_ok_reproject [of "st_db st" new_id] origins_ok_cong [of "reproject_db new_id (st_db st)" "st_db st"]
  by (auto simp: reproject_def begin_immediate_def durable_db_def commit_def store_inv_def split: option.splits)

lemma open_inv:
  assumes "store_inv (durable_db st)"
  shows "store_inv (durable_db (open_store new_id st))"
proof -
  have "sessions (durable_db (open_store new_id st)) = sessions (durable_db st)"
    by (auto simp: open_store_def check_projection_version_def truncate_live_messages_def set_pref_db_def
        durable_db_def split: option.splits)
  then show ?thesis
    using assms db_ok_open origins_ok_cong by (auto simp: store_inv_def)
qed

lemma store_step_inv:
  assumes "store_step text_of st st'" and "store_inv (durable_db st)"
  shows "store_inv (durable_db st')"
  using assms(1)
proof cases
  case (step_create now sid cwd m)
  then show ?thesis using assms(2) create_session_ok create_origins by (simp add: store_inv_def)
next
  case (step_append e now sid)
  then show ?thesis using assms(2) append_ok append_origins by (simp add: store_inv_def)
next
  case (step_fork a new_id now)
  then show ?thesis using assms(2) fork_session_ok fork_origins by (simp add: store_inv_def)
next
  case (step_fork_empty a now)
  then show ?thesis using assms(2) fork_session_empty_ok fork_empty_origins by (simp add: store_inv_def)
next
  case (step_delete sid)
  then show ?thesis using assms(2) delete_inv by simp
next
  case (step_reproject new_id)
  then show ?thesis using assms(2) reproject_inv by simp
next
  case (step_reopen new_id)
  then show ?thesis using assms(2) open_inv by simp
next
  case (step_tool_progress now sid cid pn)
  then show ?thesis
    using assms(2) by (auto simp: append_live_tool_progress_def durable_db_def Let_def
        split: option.splits prod.splits elim: store_inv_cong)
qed (use assms(2) in \<open>auto simp: upsert_live_message_def delete_live_message_def begin_live_tool_call_def
    end_live_tool_call_def put_blob_def Let_def kv_set_def kv_del_def kv_del_scope_def set_pref_def
    set_pref_db_def register_model_spec_def durable_db_def elim: store_inv_cong split: option.splits\<close>)

lemma store_inv_empty: "store_inv empty_db"
  by (simp add: store_inv_def db_ok_empty origins_ok_def) (simp add: empty_db_def)

lemma reachable_inv: "store_reachable text_of st \<Longrightarrow> store_inv (durable_db st)"
proof (induction rule: store_reachable.induct)
  case (reach_fresh new_id)
  show ?case by (rule open_inv) (simp add: fresh_store_def durable_db_def store_inv_empty)
qed (rule store_step_inv)

subsection \<open>The family walk ends\<close>

lemma family_cost_fuel:
  assumes "store_inv d" and "i < length (sessions d)" and "i < fuel"
  shows "family_cost fuel d (s_id (sessions d ! i)) \<noteq> None"
  using assms(2,3)
proof (induction i arbitrary: fuel rule: less_induct)
  case (less i)
  let ?r = "sessions d ! i"
  obtain fuel' where fuel': "fuel = Suc fuel'" using less.prems by (cases fuel) auto
  have r: "session_of (s_id ?r) d = Some ?r"
    using assms(1) less.prems sessions_pk.first_unique [of "sessions d" ?r]
    by (simp add: session_of_def store_inv_def db_ok_def)
  show ?case
  proof (cases "s_origin ?r")
    case (Some p)
    then obtain j where j: "j < i" "s_id (sessions d ! j) = p"
      using origins_from_nth [of "{}" "sessions d" i p] assms(1) less.prems
      by (auto simp: store_inv_def origins_ok_def)
    then have "family_cost fuel' d p \<noteq> None"
      using less.IH [of j fuel'] less.prems fuel' by auto
    with Some r fuel' show ?thesis by (auto split: sum.splits)
  qed (use r fuel' in \<open>auto split: sum.splits\<close>)
qed

lemma family_cost_total:
  assumes "store_inv d"
  shows "family_cost (length (sessions d) + 1) d sid \<noteq> None"
proof (cases "session_of sid d")
  case None
  then show ?thesis by (auto split: sum.splits)
next
  case (Some r)
  then obtain i where "i < length (sessions d)" "s_id (sessions d ! i) = sid"
    using session_of_SomeD by (metis in_set_conv_nth)
  with family_cost_fuel [OF assms, of i "length (sessions d) + 1"] show ?thesis by simp
qed

subsection \<open>The contract of the store\<close>

text \<open>
  What the react loop relies on (\<^verbatim>\<open>Store\<close> in \<^verbatim>\<open>kn9t-core/src/traits.rs\<close>): a successful append extends
  the log of its session by exactly that event, stamped with the next number; a failed one changes
  no log.
\<close>

locale event_log =
  fixes log :: "'s \<Rightarrow> session_id \<Rightarrow> event list option"
    and put :: "session_id \<Rightarrow> event \<Rightarrow> 's \<Rightarrow> ('e + nat) \<times> 's"
    and good :: "'s \<Rightarrow> bool"
    and legal :: "event \<Rightarrow> bool"
  assumes put_good: "good s \<Longrightarrow> legal e \<Longrightarrow> good (snd (put sid e s))"
    and put_ok: "good s \<Longrightarrow> legal e \<Longrightarrow> put sid e s = (Inr n, s') \<Longrightarrow>
      \<exists>es. log s sid = Some es \<and> is_durable e \<and> n = length es + 1 \<and>
           log s' = (log s)(sid \<mapsto> es @ [with_seq n e])"
    and put_err: "good s \<Longrightarrow> legal e \<Longrightarrow> put sid e s = (Inl x, s') \<Longrightarrow> log s' = log s"
begin

definition puts :: "(session_id \<times> event) list \<Rightarrow> 's \<Rightarrow> 's" where
  "puts ops s = fold (\<lambda>(sid, e) s. snd (put sid e s)) ops s"

definition numbered :: "event list \<Rightarrow> bool" where
  "numbered es \<longleftrightarrow> map seq es = map Some [1..<Suc (length es)]"

lemma put_extends:
  assumes "good s" and "legal e"
  shows "\<exists>xs. log (snd (put sid e s)) t = map_option (\<lambda>es. es @ xs) (log s t) \<and> (t \<noteq> sid \<longrightarrow> xs = [])"
proof (cases "put sid e s")
  case (Pair r s')
  show ?thesis
  proof (cases r)
    case (Inl x)
    with Pair put_err [OF assms, of sid x s'] show ?thesis
      by (intro exI [of _ "[]"]) (simp add: option.map_ident)
  next
    case (Inr n)
    with Pair put_ok [OF assms, of sid n s'] obtain es where es: "log s sid = Some es"
      "log s' = (log s)(sid \<mapsto> es @ [with_seq n e])" by auto
    with Pair show ?thesis
      by (cases "t = sid") (auto simp: option.map_ident intro: exI [of _ "[with_seq n e]"] exI [of _ "[]"])
  qed
qed

lemma puts_good: "good s \<Longrightarrow> \<forall>(sid, e) \<in> set ops. legal e \<Longrightarrow> good (puts ops s)"
  by (induction ops arbitrary: s) (auto simp: puts_def put_good)

text \<open>Logs only grow, and only the log that was written to.\<close>

lemma puts_append_only:
  assumes "good s" and "\<forall>(sid, e) \<in> set ops. legal e" and "log s t = Some es"
  shows "\<exists>xs. log (puts ops s) t = Some (es @ xs) \<and> (t \<notin> fst ` set ops \<longrightarrow> xs = [])"
  using assms
proof (induction ops arbitrary: s es)
  case (Cons op ops)
  obtain sid e where op: "op = (sid, e)" by (cases op)
  let ?s = "snd (put sid e s)"
  from put_extends [of s e sid t] Cons.prems op obtain xs where
    xs: "log ?s t = Some (es @ xs)" "t \<noteq> sid \<longrightarrow> xs = []" by auto
  have "\<exists>ys. log (puts ops ?s) t = Some ((es @ xs) @ ys) \<and> (t \<notin> fst ` set ops \<longrightarrow> ys = [])"
    by (rule Cons.IH) (use Cons.prems op put_good xs in auto)
  with xs op show ?case
    by (auto simp: puts_def)
qed (simp add: puts_def)

lemma put_numbered:
  assumes "good s" and "legal e" and "\<forall>t es. log s t = Some es \<longrightarrow> numbered es"
  shows "\<forall>t es. log (snd (put sid e s)) t = Some es \<longrightarrow> numbered es"
proof (cases "put sid e s")
  case (Pair r s')
  show ?thesis
  proof (cases r)
    case (Inl x)
    with Pair put_err [OF assms(1,2), of sid x s'] assms(3) show ?thesis by simp
  next
    case (Inr n)
    with Pair put_ok [OF assms(1,2), of sid n s'] obtain es where "log s sid = Some es" "is_durable e"
      "n = length es + 1" "log s' = (log s)(sid \<mapsto> es @ [with_seq n e])" by auto
    with Pair assms(3) show ?thesis by (auto simp: numbered_def)
  qed
qed

end

definition store_log :: "store \<Rightarrow> session_id \<Rightarrow> event list option" where
  "store_log st sid =
     map_option (\<lambda>_. List.map_filter (\<lambda>r. if ev_seq r = 0 then None else dec_event [] (ev_payload r))
                       (events_of sid (durable_db st)))
       (session_of sid (durable_db st))"

definition store_good :: "store \<Rightarrow> bool" where
  "store_good st = store_inv (durable_db st)"

lemma length_log_rows:
  "\<forall>r \<in> set rs. row_ok r \<Longrightarrow>
   length (List.map_filter (\<lambda>r. if ev_seq r = 0 then None else dec_event [] (ev_payload r)) rs) =
   length (filter (\<lambda>n. n \<noteq> 0) (map ev_seq rs))"
proof (induction rs)
  case (Cons r rs)
  then have "\<exists>e. dec_event [] (ev_payload r) = Some e"
    using row_ok_decode [of r "[]"] by auto
  with Cons show ?case by (auto simp: List.map_filter_simps)
qed (simp add: List.map_filter_simps)

lemma filter_seqs: "filter (\<lambda>n. n \<noteq> 0) (seqs_of_session r) = [1..<Suc (s_head r)]"
  by (simp add: seqs_of_session_def filter_id_conv del: upt_Suc)

lemma store_log_length:
  assumes "store_inv (durable_db st)" and "store_log st sid = Some es"
  shows "head_of sid (durable_db st) = Some (length es)"
proof -
  let ?d = "durable_db st"
  obtain r where r: "session_of sid ?d = Some r" using assms(2) by (auto simp: store_log_def)
  have "log_ok ?d sid" using assms(1) by (simp add: store_inv_def db_ok_def)
  then have "map ev_seq (events_of sid ?d) = seqs_of_session r" using r by (simp add: log_ok_def)
  moreover have "\<forall>x \<in> set (events_of sid ?d). row_ok x"
    using assms(1) by (simp add: store_inv_def db_ok_def events_of_def sql_select_def)
  ultimately have "length es = length (filter (\<lambda>n. n \<noteq> 0) (seqs_of_session r))"
    using assms(2) r length_log_rows [of "events_of sid ?d"] by (auto simp: store_log_def)
  then have "length es = s_head r"
    unfolding filter_seqs by simp
  then show ?thesis
    using r by (simp add: head_of_def)
qed

lemma append_log:
  assumes inv: "store_inv (durable_db st)" and e: "event_in_range e"
    and a: "append f now sid e st = (Inr n, st')"
  shows "\<exists>es. store_log st sid = Some es \<and> is_durable e \<and> n = length es + 1 \<and>
     store_log st' = (store_log st)(sid \<mapsto> es @ [with_seq n e])"
proof -
  from a obtain head p where *: "is_durable e" "st_txn st = None" "head_of sid (st_db st) = Some head"
      "int (length (events (st_db st))) < sqlite_max_rows" "n = head + 1" "enc_event (with_seq n e) = Some p"
      "st' = st\<lparr>st_db := appended f now sid (with_seq n e) p n (st_db st),
        st_notified := st_notified st @ [(sid, with_seq n e)]\<rparr>"
    by (auto simp: append_Inr_iff)
  let ?d = "st_db st" and ?row = "event_row_of sid n now (with_seq n e) p"
  have dd: "durable_db st = ?d" "durable_db st' = appended f now sid (with_seq n e) p n ?d"
    using * by (simp_all add: durable_db_def)
  obtain es where es: "store_log st sid = Some es"
    using *(3) by (auto simp: store_log_def dd head_of_def)
  have len: "head = length es" using store_log_length [OF inv es] *(3) dd by simp
  have "int head < i64_max"
    using head_in_range [OF _ *(3,4)] inv by (simp add: store_inv_def dd)
  then have range: "event_in_range (with_seq n e)"
    using * e by (auto intro!: event_in_range_with_seq i64_le_u64)
  have so: "(session_of t (appended f now sid (with_seq n e) p n ?d) = None) = (session_of t ?d = None)" for t
    by (simp add: appended_def session_of_set_head) (simp add: session_of_def)
  have "store_log st' t = ((store_log st)(sid \<mapsto> es @ [with_seq n e])) t" for t
  proof (cases "t = sid")
    case True
    obtain r' where "session_of sid (durable_db st') = Some r'"
      using so [of sid] *(3) dd by (auto simp: head_of_def)
    with True es *(5) dec_enc_event [OF range *(6)] show ?thesis
      by (auto simp: store_log_def dd appended_events_of List.map_filter_def event_row_of_def)
  next
    case False
    then show ?thesis
      using so [of t]
      by (cases "session_of t ?d") (auto simp: store_log_def dd appended_events_of)
  qed
  with es len * show ?thesis by auto
qed

lemma append_log_err:
  assumes "append f now sid e st = (Inl x, st')"
  shows "store_log st' = store_log st"
  using append_durable_db [OF assms] by (simp add: store_log_def fun_eq_iff)

interpretation sqlite: event_log store_log "append text_of now" store_good event_in_range
  for text_of now
proof unfold_locales
  fix s e sid
  assume "store_good s" and "event_in_range e"
  then show "store_good (snd (append text_of now sid e s))"
    using append_ok append_origins by (simp add: store_good_def store_inv_def)
qed (use append_log append_log_err in \<open>auto simp: store_good_def\<close>)

end
