(* ===== verification/React_Run.thy ===== *)
theory React_Run
  imports React_Turns Store_System
begin

text \<open>
  The run on the store of \<^verbatim>\<open>kn9t-store\<close>, and how it ends: what it appends, that it never rewrites a
  log, the events it closes with, that a turn cap ends it, and how often an attempt loop asks the
  provider.
\<close>

subsection \<open>What a run appends\<close>

interpretation loop_log: loop_keeps env sid "logs loop_event w0"
  for env :: "('s, 'x) env" and sid and w0 :: "('s, 'x) world"
proof
  show "logs loop_event w0 v'" if "w_log v' = w_log v" "logs loop_event w0 v" for v v' :: "('s, 'x) world"
    using that by (rule logs_frame)
  show "logs loop_event w0 (snd (react_append env p ev v))" if "loop_event ev" "logs loop_event w0 v" for p ev v
    using that by (blast intro: logs_trans logs_append_snd)
  show "logs loop_event w0 (snd (react_plan env p v))" if "logs loop_event w0 v" for p v
    using react_plan_frame that by (rule logs_frame)
qed

subsection \<open>The sqlite store under the loop\<close>

text \<open>
  The trait methods on the store model: the clock is read from the store's state, \<open>show_err\<close> renders
  an error.
\<close>

definition sqlite_plan ::
  "(nat \<Rightarrow> msg_id) \<Rightarrow> (string \<Rightarrow> string) \<Rightarrow> (string \<Rightarrow> bool) \<Rightarrow> session_id \<Rightarrow> store
    \<Rightarrow> (string + request_plan) \<times> store" where
  "sqlite_plan mint b64 parses sid st = (Inr (plan_request mint b64 parses sid st), st)"

definition sqlite_append ::
  "(json \<Rightarrow> string) \<Rightarrow> (store \<Rightarrow> int) \<Rightarrow> (store_err \<Rightarrow> string) \<Rightarrow> session_id \<Rightarrow> event \<Rightarrow> store
    \<Rightarrow> (string + nat) \<times> store" where
  "sqlite_append text_of now show_err sid ev st =
     (case append text_of (now st) sid ev st of
        (Inl e, st') \<Rightarrow> (Inl (show_err e), st') | (Inr n, st') \<Rightarrow> (Inr n, st'))"

text \<open>Only rows of one session were added.\<close>

definition extends_session :: "session_id \<Rightarrow> store \<Rightarrow> store \<Rightarrow> bool" where
  "extends_session sid st st' \<longleftrightarrow>
     (\<exists>rows. events (st_db st') = events (st_db st) @ rows \<and> (\<forall>r \<in> set rows. ev_session r = sid))"

lemma extends_session_refl: "events (st_db st') = events (st_db st) \<Longrightarrow> extends_session sid st st'"
  by (simp add: extends_session_def)

lemma extends_session_trans:
  "extends_session sid a b \<Longrightarrow> extends_session sid b c \<Longrightarrow> extends_session sid a c"
  by (fastforce simp: extends_session_def)

lemma extends_session_other:
  "extends_session sid st st' \<Longrightarrow> t \<noteq> sid \<Longrightarrow> events_of t (st_db st') = events_of t (st_db st)"
  by (auto simp: extends_session_def events_of_def sql_select_def)

lemma append_extends_session: "extends_session sid st (snd (append text_of now sid ev st))"
proof (cases "fst (append text_of now sid ev st)")
  case (Inr n)
  then obtain st' where st': "append text_of now sid ev st = (Inr n, st')" by (cases "append text_of now sid ev st") auto
  then obtain payload where "st_db st' = appended text_of now sid (with_seq n ev) payload n (st_db st)"
    by (auto simp: append_Inr_iff)
  with st' show ?thesis by (simp add: appended_def extends_session_def event_row_of_def)
next
  case (Inl e)
  then show ?thesis
    by (intro extends_session_refl)
      (auto simp: append_def begin_immediate_def rollback_def Let_def
        split: if_splits option.splits)
qed

definition sqlite_env ::
  "(nat \<Rightarrow> msg_id) \<Rightarrow> (string \<Rightarrow> string) \<Rightarrow> (string \<Rightarrow> bool) \<Rightarrow> (json \<Rightarrow> string) \<Rightarrow> (store \<Rightarrow> int) \<Rightarrow>
   (store_err \<Rightarrow> string) \<Rightarrow> (store, 'x) env \<Rightarrow> (store, 'x) env" where
  "sqlite_env mint b64 parses text_of now show_err env =
     env\<lparr>e_plan := sqlite_plan mint b64 parses, e_append := sqlite_append text_of now show_err\<rparr>"

interpretation loop_store: loop_keeps "sqlite_env mint b64 parses text_of now show_err env" sid
    "\<lambda>v. extends_session sid st (w_store v)"
  for mint b64 parses text_of now show_err and env :: "(store, 'x) env" and sid st
proof
  let ?env = "sqlite_env mint b64 parses text_of now show_err env"
  show "extends_session sid st (w_store v')" if "w_store v' = w_store v" "extends_session sid st (w_store v)"
    for v v' :: "(store, 'x) world"
    using that by simp
  have "extends_session sid s (snd (sqlite_append text_of now show_err sid ev s))" for ev s
    using append_extends_session [of sid s text_of "now s" ev]
    by (simp add: sqlite_append_def split_def split: sum.split)
  then show "extends_session sid st (w_store (snd (react_append ?env p ev v)))"
    if "pr_session p = sid" "extends_session sid st (w_store v)" for p ev v
    using that by (auto simp: react_append_def sqlite_env_def split_def intro: extends_session_trans split: sum.split)
  show "extends_session sid st (w_store (snd (react_plan ?env p v)))" if "extends_session sid st (w_store v)" for p v
    using that by (simp add: react_plan_def sqlite_env_def sqlite_plan_def)
qed

subsection \<open>How a run ends\<close>

lemma run_from_ends:
  assumes "run_from env p turn w = Some y" and "fst y \<noteq> Inl Unwound"
  shows "\<exists>out t stop. w_out (snd y) = out @ [TurnFinishing t stop, TurnEnded t stop] \<and>
     (fst y = Inr stop \<or> (\<exists>e. fst y = Inl (Returned e)) \<and> stop = Aborted)"
  using assms(2)
proof (rule run_from.raw_induct [where P = "\<lambda>env p turn w y. fst y \<noteq> Inl Unwound \<longrightarrow>
      (\<exists>out t stop. w_out (snd y) = out @ [TurnFinishing t stop, TurnEnded t stop] \<and>
       (fst y = Inr stop \<or> (\<exists>e. fst y = Inl (Returned e)) \<and> stop = Aborted))", OF _ assms(1), rule_format, rotated 1],
    goal_cases)
  case (1 rec env p turn w y)
  show ?case
  proof (cases "case rc_max_turns (pr_config p) of None \<Rightarrow> False | Some n \<Rightarrow> n \<le> turn")
    case True
    with 1(2) show ?thesis by (auto simp: Let_def end_turn_def)
  next
    case False
    with 1(2) obtain r w1 where
      e: "execute_turn env p (turn + 1) (emit (TurnStarted (turn + 1)) w) = Some (r, w1)"
      by (auto split: option.splits)
    show ?thesis
    proof (cases r)
      case (Inl x)
      with 1(2,3) False e show ?thesis by (cases x) (auto simp: end_turn_def)
    next
      case (Inr z)
      obtain out p' where "z = (out, p')" by (cases z)
      with Inr 1 False e show ?thesis by (cases out) (auto simp: end_turn_def)
    qed
  qed
qed

subsection \<open>Turn caps\<close>

lemma launch_sequential:
  "\<forall>t \<in> set registry. \<not> tl_parallel_safe t \<Longrightarrow> fst (launch env registry xs w) = []"
proof (induction xs arbitrary: w)
  case (Cons a xs)
  obtain i call plan where a: "a = (i, call, plan)" by (metis prod_cases3)
  have "reg_get n tl_spec registry = Some t \<Longrightarrow> \<not> tl_parallel_safe t" for n t
    using Cons.prems by (auto simp: reg_get_def dest: find_SomeD')
  with Cons show ?case by (auto simp: a split: call_plan.split option.split)
qed simp

definition sequential_tools :: "('s, 'x) env \<Rightarrow> bool" where
  "sequential_tools env \<longleftrightarrow> (\<forall>x. \<forall>t \<in> set (fst (e_tools env x)). \<not> tl_parallel_safe t)"

lemma batch_returns_sequential:
  assumes "sequential_tools env"
  shows "run_tool_batch env p calls w \<noteq> None"
proof -
  let ?w1 = "snd (authorize_all env p calls w)"
  have "\<forall>t \<in> set (fst (ext (e_tools env) ?w1)). \<not> tl_parallel_safe t"
    using assms by (simp add: sequential_tools_def ext_eq)
  note launch_sequential [OF this, simp]
  show ?thesis by (auto simp: run_tool_batch_def split_def Let_def split: sum.split)
qed

lemma execute_turn_returns:
  assumes "sequential_tools env"
  shows "execute_turn env p turn w \<noteq> None"
  by (auto simp: execute_turn_def tool_turn_def Let_def split: prod.split sum.split option.split
      dest: batch_returns_sequential [OF assms, THEN notE])

lemma run_from_returns:
  assumes "sequential_tools env" and "rc_max_turns (pr_config p) = Some n"
  shows "\<exists>y. run_from env p turn w = Some y"
  using assms(2)
proof (induction "n - turn" arbitrary: p turn w)
  case 0
  then show ?case by (subst run_from.simps) (simp add: Let_def)
next
  case (Suc k)
  obtain r w1 where e: "execute_turn env p (turn + 1) (emit (TurnStarted (turn + 1)) w) = Some (r, w1)"
    using execute_turn_returns [OF assms(1)] by fastforce
  show ?case
  proof (cases "\<exists>p'. r = Inr (Continue, p')")
    case True
    then obtain p' where r: "r = Inr (Continue, p')" by blast
    have "rc_max_turns (pr_config p') = Some n"
      using execute_turn_session [of env p "turn + 1" _ Continue p' w1] e r Suc.prems by simp
    moreover have "k = n - (turn + 1)" using Suc.hyps(2) by simp
    ultimately obtain y where "run_from env p' (turn + 1) w1 = Some y" using Suc.hyps(1) by blast
    then show ?thesis using e r Suc.prems Suc.hyps(2) by (subst run_from.simps) (simp add: Let_def)
  next
    case False
    then show ?thesis
      using e Suc.prems by (subst run_from.simps)
        (auto simp: Let_def split: sum.split prod.split turn_outcome.split react_exit.split)
  qed
qed

subsection \<open>How often the provider is asked\<close>

text \<open>\<open>c\<close> counts requests: opening a stream adds at most one, what else an attempt calls adds none.\<close>

definition quiet :: "('x \<Rightarrow> nat) \<Rightarrow> ('x \<Rightarrow> 'a \<times> 'x) \<Rightarrow> bool" where
  "quiet c f \<longleftrightarrow> (\<forall>x. c (snd (f x)) \<le> c x)"

definition counts_requests :: "('s, 'x) env \<Rightarrow> ('x \<Rightarrow> nat) \<Rightarrow> bool" where
  "counts_requests env c \<longleftrightarrow>
     (\<forall>req x. c (snd (snd (e_stream env req x))) \<le> c x + 1) \<and>
     quiet c (e_cancelled env) \<and> quiet c (e_new_id env) \<and> quiet c (e_tools env) \<and>
     (\<forall>ms m s. quiet c (e_before_request env ms m s)) \<and>
     (\<forall>compactor. e_compactor env = Some compactor \<longrightarrow> (\<forall>sp m. quiet c (compactor sp m)))"

lemma ext_quiet: "quiet c f \<Longrightarrow> c (w_ext (snd (ext f w))) \<le> c (w_ext w)"
  by (simp add: ext_eq quiet_def)

lemma guarded_ext: "w_ext (snd (guarded h d f w)) = w_ext (snd (ext f w))"
  by (auto simp: guarded_def hook_failed_def split: prod.split option.split)

lemma react_append_ext [simp]: "w_ext (snd (react_append env p ev w)) = w_ext w"
  by (simp add: react_append_def split_def split: sum.split)

lemma react_plan_ext [simp]: "w_ext (snd (react_plan env p w)) = w_ext w"
  by (simp add: react_plan_def split_def split: sum.split)

definition asked :: "('x \<Rightarrow> nat) \<Rightarrow> nat \<Rightarrow> ('s, 'x) world \<Rightarrow> bool" where
  "asked c k w \<longleftrightarrow> c (w_ext w) \<le> k"

lemma asked_same [simp]:
  "asked c k (emit l w) = asked c k w" "asked c k (emits ls w) = asked c k w"
  "asked c k (snd (react_append env p ev w)) = asked c k w" "asked c k (snd (react_plan env p w)) = asked c k w"
  by (simp_all add: asked_def)

lemma asked_Suc: "asked c k w \<Longrightarrow> asked c (Suc k) w"
  by (simp add: asked_def)

lemma asked_weaken: "asked c i v \<Longrightarrow> i \<le> j \<Longrightarrow> asked c j v"
  by (simp add: asked_def)

lemma asked_ext: "quiet c f \<Longrightarrow> asked c k w \<Longrightarrow> asked c k (snd (ext f w))"
  by (auto simp: asked_def intro: order_trans [OF ext_quiet])

lemma asked_calls:
  assumes "counts_requests env c" and "asked c k w"
  shows "asked c k (snd (ext (e_cancelled env) w))" "asked c k (snd (ext (e_new_id env) w))"
    "asked c k (snd (ext (e_tools env) w))" "asked c k (snd (hook_before_request env ms m s w))"
    "e_compactor env = Some compactor \<Longrightarrow> asked c k (snd (ext (compactor sp m) w))"
  using assms asked_ext [of c "e_before_request env ms m s" k w]
  by (auto simp: counts_requests_def hook_before_request_def asked_def [of c k "snd (guarded _ _ _ _)"] guarded_ext
      asked_def [of c k "snd (ext (e_before_request env ms m s) w)"] intro: asked_ext)

lemma asked_stream:
  assumes "counts_requests env c" and "asked c k w"
  shows "asked c (Suc k) (v\<lparr>w_ext := snd (snd (e_stream env req (w_ext w)))\<rparr>)"
proof -
  have "c (snd (snd (e_stream env req (w_ext w)))) \<le> c (w_ext w) + 1"
    using assms(1) by (simp add: counts_requests_def)
  with assms(2) show ?thesis by (simp add: asked_def)
qed

lemma aborted_attempt_asked:
  "counts_requests env c \<Longrightarrow> asked c k w \<Longrightarrow> asked c k (snd (aborted_attempt env m w))"
  by (auto simp: aborted_attempt_def split_def intro!: asked_calls(2))

lemma provider_attempt_asked:
  assumes "counts_requests env c" and "asked c k w"
  shows "asked c (Suc k) (snd (provider_attempt env req m w))"
proof -
  obtain ls opened x where s: "e_stream env req (w_ext w) = (ls, opened, x)" by (metis prod_cases3)
  have x: "asked c (Suc k) (v\<lparr>w_ext := x\<rparr>)" for v :: "('a, 'b) world"
    using asked_stream [OF assms, where v = v and req = req] s by simp
  show ?thesis
    unfolding provider_attempt_def Let_def
    by (auto simp: s split_def assms(1) intro!: x asked_calls(1,2) aborted_attempt_asked
        split: sum.split prov_err.split)
qed

lemma attempt_with_plan_asked:
  "counts_requests env c \<Longrightarrow> asked c k w \<Longrightarrow> asked c (Suc k) (snd (attempt_with_plan env p rs plan w))"
  by (auto simp: attempt_with_plan_def Let_def split_def intro!: provider_attempt_asked asked_calls(3,4))

lemma persist_compaction_asked [simp]: "asked c k (snd (persist_compaction env p sp plan w)) = asked c k w"
  by (simp add: persist_compaction_def snd_try_st split: sum.split option.split)

lemma run_compaction_asked:
  "counts_requests env c \<Longrightarrow> asked c k w \<Longrightarrow> asked c k (snd (run_compaction env p sp w))"
  by (auto simp: run_compaction_def Let_def split_def intro!: asked_calls(1,5) aborted_attempt_asked
      split: sum.split option.split)

lemma asked_try: "asked c k (snd r) \<Longrightarrow> (\<And>a v. asked c k v \<Longrightarrow> asked c k' (snd (f a v))) \<Longrightarrow> k \<le> k' \<Longrightarrow>
    asked c k' (snd (try_st r f))"
  by (auto simp: snd_try_st asked_def split: sum.split)

lemma compact_first_asked:
  "counts_requests env c \<Longrightarrow> asked c k w \<Longrightarrow> asked c k (snd (compact_first env p n sp w))"
proof -
  assume a: "counts_requests env c" "asked c k w"
  have run: "asked c k (snd (run_compaction env p sp (emits ls w)))" for ls
    using run_compaction_asked [OF a(1), of k "emits ls w"] a(2) by simp
  have rest: "asked c k w2 \<Longrightarrow> asked c k (snd (case r of
             AbortedInStream a \<Rightarrow> (Inr (Inl a), w2)
           | Attempt_Truncated \<Rightarrow> (Inl (Returned (Err_Provider t1)), emit e1 w2)
           | Attempt_Overflow \<Rightarrow> (Inl (Returned (Err_Provider t2)), emit e2 w2)
           | Completed _ \<Rightarrow>
               try_st (react_plan env p w2) (\<lambda>plan w3.
                 if rp_compact plan \<noteq> None then (Inl (Returned CompactionLoop), w3)
                 else (Inr (Inr plan), w3))))" for r and w2 :: "('a, 'b) world" and t1 t2 e1 e2
    by (auto simp: snd_try_st split: attempt.split sum.split)
  show ?thesis
    unfolding compact_first_def Let_def using a by (auto intro!: asked_try [OF run] rest)
qed

lemma one_attempt_asked:
  assumes "counts_requests env c" and "asked c k w"
  shows "asked c (Suc k) (snd (one_attempt env p rs n w))"
  unfolding one_attempt_def Let_def
proof (rule asked_try [of c k])
  show "asked c k (snd (react_plan env p w))" using assms(2) by simp
  have plan: "asked c (Suc k) (snd (attempt_with_plan env p rs plan v))" if "asked c k v"
    for plan and v :: "('a, 'b) world" by (rule attempt_with_plan_asked [OF assms(1) that])
  fix a :: request_plan and v :: "('a, 'b) world"
  assume v: "asked c k v"
  show "asked c (Suc k) (snd (case rp_compact a of
      None \<Rightarrow> try_st (attempt_with_plan env p rs a v)
        (\<lambda>a w2. if a \<noteq> Attempt_Overflow then (Inr (a, n), w2)
           else if rc_max_context_replans (pr_config p) < n + 1
           then (Inl (Returned (Err_Provider ''provider reported context overflow with no compaction available'')),
                 emit (Error (''context overflow reported by the provider, but the store has '' @
                       ''nothing left to compact (check the model'' @ [CHR 0x27] @
                       ''s ctx_window); ending the turn instead of retrying an identical request'')) w2)
           else (Inr (a, n + 1),
                 emit (status ''retrying'' (''provider reported context overflow '' @ em_dash @
                       '' re-plan '' @ show_nat (n + 1) @ ''/'' @ show_nat (rc_max_context_replans (pr_config p)))) w2))
    | Some sp \<Rightarrow> try_st (compact_first env p (n + 1) sp v)
        (\<lambda>r w2. case r of Inl a \<Rightarrow> (Inr (AbortedInStream a, n + 1), w2)
           | Inr plan' \<Rightarrow> try_st (attempt_with_plan env p rs plan' w2) (\<lambda>a w3. (Inr (a, n + 1), w3)))))"
  proof (cases "rp_compact a")
    case None
    then show ?thesis using plan [OF v] by (simp add: snd_try_st split: sum.split)
  next
    case (Some sp)
    show ?thesis
      unfolding Some option.case
      by (rule asked_try [OF compact_first_asked [OF assms(1) v]])
        (auto simp: snd_try_st asked_Suc plan split: sum.split)
  qed
qed simp

lemma attempt_loop_truncated:
  assumes "one_attempt env p rs n w = (Inr (Attempt_Truncated, n'), w1)"
  shows "(\<exists>e ls. attempt_loop env p rs t n w = (Inl e, emits ls w1)) \<or>
     t < rc_truncation_attempts (pr_config p) \<and>
     (\<exists>rs' ls. attempt_loop env p rs t n w =
        attempt_loop env p rs' (Suc t) n' (snd (ext (e_new_id env) (emits ls w1))))"
proof -
  have none: "emits [] w1 = w1" by (simp add: emits_def)
  show ?thesis
    using assms
    by (simp add: attempt_loop.simps [of env p rs t n w] Let_def split_def) (metis none)
qed

lemma attempt_loop_requests:
  assumes "counts_requests env c" and "asked c k w"
  shows "asked c (Suc (k + (rc_truncation_attempts (pr_config p) - t) + (rc_max_context_replans (pr_config p) - n)))
     (snd (attempt_loop env p rs t n w))"
  using assms(2)
proof (induction "(rc_truncation_attempts (pr_config p) - t) + (rc_max_context_replans (pr_config p) - n)"
    arbitrary: rs t n w k rule: less_induct)
  case less
  let ?A = "rc_truncation_attempts (pr_config p)" and ?M = "rc_max_context_replans (pr_config p)"
  obtain r w1 where one: "one_attempt env p rs n w = (r, w1)" by fastforce
  have first: "asked c (Suc k) w1" using one_attempt_asked [OF assms(1) less.prems, of p rs n] one by simp
  then have last: "asked c (Suc (k + (?A - t) + (?M - n))) w1" by (rule asked_weaken) simp
  show ?case
  proof (cases r)
    case (Inr y)
    obtain a n' where y: "y = (a, n')" by (cases y)
    have n': "n \<le> n'" "a = Attempt_Overflow \<Longrightarrow> n < n' \<and> n' \<le> ?M"
      using one_attempt_replans [of env p rs n w a n' w1] one Inr y by auto
    show ?thesis
    proof (cases a)
      case Attempt_Overflow
      with n' have "(?A - t) + (?M - n') < (?A - t) + (?M - n)" by auto
      from less.hyps [OF this first]
      have "asked c (Suc (k + (?A - t) + (?M - n))) (snd (attempt_loop env p rs t n' w1))"
        by (rule asked_weaken) (use n'(2) [OF Attempt_Overflow] in linarith)
      then show ?thesis using one Inr y Attempt_Overflow by (simp add: attempt_loop.simps [of env p rs t n w])
    next
      case Attempt_Truncated
      with one Inr y have "one_attempt env p rs n w = (Inr (Attempt_Truncated, n'), w1)" by simp
      from attempt_loop_truncated [OF this, of t] show ?thesis
      proof (elim disjE conjE exE)
        fix e ls assume "attempt_loop env p rs t n w = (Inl e, emits ls w1)"
        then show ?thesis using last by simp
      next
        fix rs' ls
        assume t: "t < ?A" and eq: "attempt_loop env p rs t n w =
          attempt_loop env p rs' (Suc t) n' (snd (ext (e_new_id env) (emits ls w1)))"
        have "(?A - Suc t) + (?M - n') < (?A - t) + (?M - n)" using t n'(1) by linarith
        moreover have "asked c (Suc k) (snd (ext (e_new_id env) (emits ls w1)))"
          by (intro asked_calls(2) assms(1)) (simp add: first)
        ultimately have "asked c (Suc (Suc k + (?A - Suc t) + (?M - n'))) (snd (attempt_loop env p rs t n w))"
          unfolding eq by (rule less.hyps)
        then show ?thesis by (rule asked_weaken) (use t n'(1) in linarith)
      qed
    qed (use last one Inr y in \<open>simp_all add: attempt_loop.simps [of env p rs t n w]\<close>)
  qed (use last one in \<open>simp add: attempt_loop.simps [of env p rs t n w]\<close>)
qed

end
