(* ===== verification/Store_Examples.thy ===== *)
theory Store_Examples
  imports Store_System Store_Plan
begin

text \<open>
  Concrete stores, built by running the operations from a fresh file, on which the general theorems
  are applied and the failure scenarios are evaluated. The text of a JSON value is instantiated by
  the concatenation of its strings, which is enough for the search for \<^verbatim>\<open>sha256:\<close>.
\<close>

fun ex_text :: "json \<Rightarrow> string" where
  "ex_text (JStr s) = s @ '' ''"
| "ex_text (JArr xs) = concat (map ex_text xs)"
| "ex_text (JObj obj) = concat (map (\<lambda>kv. ex_text (snd kv)) obj)"
| "ex_text _ = []"

definition ex_model :: model_ref where
  "ex_model = \<lparr>mr_provider = ''p'', mr_id = ''m''\<rparr>"

definition ex_user :: message where
  "ex_user = \<lparr>msg_id = ''a'', msg_role = Role_User, msg_content = [Text ''hi''], msg_silent = False\<rparr>"

definition ex_call :: message where
  "ex_call = \<lparr>msg_id = ''b'', msg_role = Role_Assistant,
     msg_content = [Text ''ok'', ToolCall ''c1'' ''bash'' ''{}''], msg_silent = False\<rparr>"

definition ex_image :: message where
  "ex_image = \<lparr>msg_id = ''i'', msg_role = Role_User, msg_content = [Image ''sha256:ab'' ''image/png''],
     msg_silent = False\<rparr>"

definition ex_usage :: usage_record where
  "ex_usage = \<lparr>ur_provider = ''p'', ur_model = ''m'', ur_kind = Main,
     ur_tokens = \<lparr>t_input = 100, t_output = 10, t_cache_read = 0, t_cache_write = 0, t_reasoning = 0\<rparr>,
     ur_price = \<lparr>p_input = 3000000, p_output = 15000000, p_cache_read = 0, p_cache_write = 0\<rparr>,
     ur_cost_micros = 450, ur_cost_usd = 45 / 100000, ur_estimated = False\<rparr>"

definition ex_events :: "event list" where
  "ex_events = [MessageAppended 0 ex_user, MessageAppended 0 ex_call, UsageRecorded 0 ex_usage]"

definition ex0 :: store where
  "ex0 = open_store [] fresh_store"

definition ex1 :: store where
  "ex1 = snd (create_session 0 ''s'' ''/'' ex_model ex0)"

definition ex2 :: store where
  "ex2 = fold (\<lambda>e st. snd (append ex_text 0 ''s'' e st)) ex_events ex1"

definition ex_fork :: fork_args where
  "ex_fork = \<lparr>fa_origin = ''s'', fa_new = ''t'', fa_seq = 3, fa_reason = Fork, fa_budget = None, fa_cwd = ''/''\<rparr>"

definition ex3 :: store where
  "ex3 = snd (fork_session [] 0 ex_fork ex2)"

definition ex_spec :: model_spec where
  "ex_spec = \<lparr>ms_ref = ex_model, ms_api_id = ''m'', ms_ctx_window = 100, ms_max_out = 10, ms_thinking = Off,
     ms_price = ur_price ex_usage, ms_cache = Automatic, ms_streaming = True, ms_quirks = Strip\<rparr>"

definition ex4 :: store where
  "ex4 = register_model_spec ex_spec ex2"

lemma ex0_reachable: "store_reachable f ex0"
  unfolding ex0_def by (rule reach_fresh)

lemma ex1_reachable: "store_reachable f ex1"
  unfolding ex1_def by (rule reach_store_step [OF ex0_reachable step_create])

lemma reachable_appends:
  "store_reachable f st \<Longrightarrow> \<forall>e \<in> set es. event_in_range e \<Longrightarrow>
   store_reachable f (fold (\<lambda>e st. snd (append f now sid e st)) es st)"
  by (induction es arbitrary: st) (auto intro: reach_store_step step_append)

lemma ex_events_in_range: "\<forall>e \<in> set ex_events. event_in_range e"
  by code_simp

lemma ex2_reachable: "store_reachable ex_text ex2"
  unfolding ex2_def by (rule reachable_appends [OF ex1_reachable ex_events_in_range])

lemma ex3_reachable: "store_reachable ex_text ex3"
  unfolding ex3_def by (rule reach_store_step [OF ex2_reachable step_fork]) code_simp

lemma ex4_reachable: "store_reachable ex_text ex4"
  unfolding ex4_def by (rule reach_store_step [OF ex2_reachable step_register])

subsection \<open>A session with an image, and a fork of it\<close>

definition ex_img1 :: store where
  "ex_img1 = snd (append ex_text 0 ''s'' (MessageAppended 0 ex_image)
     (snd (put_blob (\<lambda>_. ''ab'') 0 ''PNG'' ''image/png'' ex1)))"

definition ex_img2 :: store where
  "ex_img2 = snd (fork_session [] 0 (ex_fork\<lparr>fa_seq := 1\<rparr>) ex_img1)"

definition ex_img3 :: store where
  "ex_img3 = snd (delete_session ex_text ''t'' ex_img2)"

lemma ex_img1_reachable: "store_reachable ex_text ex_img1"
  unfolding ex_img1_def
  by (rule reach_store_step [OF reach_store_step [OF ex1_reachable step_put_blob] step_append]) code_simp

lemma ex_img3_reachable: "store_reachable ex_text ex_img3"
  unfolding ex_img3_def ex_img2_def
  by (rule reach_store_step [OF reach_store_step [OF ex_img1_reachable step_fork] step_delete]) code_simp

text \<open>A store whose connection an append to an unknown session left inside a transaction.\<close>

definition ex_wedged :: store where
  "ex_wedged = kv_set 0 ''p'' ''session'' ''k'' JNull (snd (append ex_text 0 ''nope'' (MessageAppended 0 ex_user) ex2))"

lemma ex_wedged_same_process:
  "same_process ex_text (snd (append ex_text 0 ''nope'' (MessageAppended 0 ex_user) ex2)) ex_wedged"
proof -
  have "st_txn ex_wedged \<noteq> None" by code_simp
  then have "\<not> restarts (snd (append ex_text 0 ''nope'' (MessageAppended 0 ex_user) ex2)) ex_wedged"
    by (metis restarts_def open_store_txn)
  then show ?thesis
    unfolding ex_wedged_def by (rule same_step [OF same_refl step_kv_set])
qed

end
