(* ===== verification/React_Examples.thy ===== *)
theory React_Examples
  imports React_Run Store_Examples
begin

text \<open>
  A scripted process for the loop: the provider replies from a list, the tool \<open>echo\<close> answers with a
  text, hooks allow everything and add nothing, the clock advances with every reading and poll, the
  flag is \<open>xs_cancel\<close>. The store under it is the list of the events appended, or \<open>ex2\<close>.
\<close>

record script =
  xs_replies :: "(prov_err + (prov_err + chunk) list) list"
  xs_requests :: nat
  xs_time :: nat
  xs_cancel :: bool

definition ex_tool_spec :: "string \<Rightarrow> tool_spec" where
  "ex_tool_spec n =
     \<lparr>ts_name = n, ts_description = '''', ts_schema = JObj [], ts_hidden = False, ts_effects = [],
      ts_policy = \<lparr>tp_pattern_field = None, tp_default = Policy_Ask, tp_builtin_allow = [], tp_builtin_deny = []\<rparr>\<rparr>"

definition ex_tool :: "bool \<Rightarrow> script tool" where
  "ex_tool parallel =
     \<lparr>tl_spec = ex_tool_spec ''echo'', tl_parallel_safe = parallel,
      tl_execute = (\<lambda>a c x. ([ToolProgress c ''.''], Some (Inr \<lparr>to_content = [Text ''hi''], to_details = None,
         to_is_error = False\<rparr>), x))\<rparr>"

definition ex_parse :: "string \<Rightarrow> string + json" where
  "ex_parse s = (if s = ''{}'' then Inr (JObj []) else Inl ''bad'')"

definition ex_process ::
  "(session_id \<Rightarrow> 's \<Rightarrow> (string + request_plan) \<times> 's) \<Rightarrow>
   (session_id \<Rightarrow> event \<Rightarrow> 's \<Rightarrow> (string + nat) \<times> 's) \<Rightarrow> bool \<Rightarrow> ('s, script) env" where
  "ex_process pl ap parallel =
     \<lparr>e_plan = pl, e_append = ap,
      e_stream = (\<lambda>req x. (case xs_replies x of
          [] \<Rightarrow> ([], Inl (Connect ''no reply''), x\<lparr>xs_requests := Suc (xs_requests x)\<rparr>)
        | r # rs \<Rightarrow> ([], r, x\<lparr>xs_replies := rs, xs_requests := Suc (xs_requests x)\<rparr>))),
      e_cancelled = (\<lambda>x. (xs_cancel x, x)),
      e_compactor = None,
      e_tools = (\<lambda>x. ([ex_tool parallel], x)),
      e_blocked = (\<lambda>x. ([], x)),
      e_approve = (\<lambda>call cwd reason sid x. ([], Decide_Ask, x)),
      e_before_request = (\<lambda>ms m s x. (Some ms, x)),
      e_before_tool_call = (\<lambda>n a cwd x. (Some Veto_Allow, x)),
      e_after_tool_call = (\<lambda>n a cwd r x. (Some r, x)),
      e_should_stop = (\<lambda>s u n x. (Some False, x)),
      e_prepare_next_turn = (\<lambda>s u x. (Some no_patch, x)),
      e_get_steering = (\<lambda>x. (Some [], x)),
      e_get_followup = (\<lambda>x. (Some [], x)),
      e_clock = (\<lambda>x. (xs_time x, x)),
      e_poll = (\<lambda>x. ([0], x\<lparr>xs_time := xs_time x + 25\<rparr>)),
      e_new_id = (\<lambda>x. (''m'', x)),
      e_parse = ex_parse,
      e_render = (\<lambda>j. ''{}''),
      e_dbg_prov = (\<lambda>e. ''e''),
      e_dbg_react = (\<lambda>e. ''e'')\<rparr>"

definition ex_env :: "bool \<Rightarrow> (event list, script) env" where
  "ex_env =
     ex_process (\<lambda>sid s. (Inr \<lparr>rp_system = None, rp_messages = [], rp_cache = [], rp_compact = None\<rparr>, s))
       (\<lambda>sid e s. (Inr (Suc (length s)), s @ [e]))"

text \<open>The same process on the sqlite store.\<close>

definition ex_store_env :: "(store, script) env" where
  "ex_store_env =
     sqlite_env (\<lambda>_. ''x'') id (\<lambda>_. True) ex_text (\<lambda>_. 0) (\<lambda>_. ''store error'')
       (ex_process (\<lambda>sid s. (Inl '''', s)) (\<lambda>sid e s. (Inl '''', s)) False)"

definition ex_model_spec :: model_spec where
  "ex_model_spec =
     \<lparr>ms_ref = ex_model, ms_api_id = ''a'', ms_ctx_window = 1000, ms_max_out = 100,
      ms_thinking = Off, ms_price = \<lparr>p_input = 1, p_output = 1, p_cache_read = 1, p_cache_write = 1\<rparr>,
      ms_cache = Cache_None, ms_streaming = True, ms_quirks = Strip\<rparr>"

definition ex_params :: run_params where
  "ex_params =
     \<lparr>pr_session = ''s'', pr_model = ex_model_spec, pr_thinking = Off, pr_max_tokens = None, pr_cwd = ''/'',
      pr_config = default_config\<lparr>rc_max_turns := Some 2\<rparr>, pr_system = None, pr_disabled_tools = [''rm''],
      pr_reactivation_reminder = None\<rparr>"

definition ex_tool_call :: tool_call where
  "ex_tool_call = \<lparr>tc_id = ''c1'', tc_name = ''echo'', tc_args = ''{}''\<rparr>"

definition ex_chunks :: "chunk list" where
  "ex_chunks = [Chunk_Text 0 ''he'', Chunk_ToolCall 1 ''c1'' ''echo'', Chunk_Text 0 ''y'', Chunk_ToolArgs 1 ''{'',
     Chunk_ToolArgs 1 ''}'', Chunk_Stop ToolUse]"

definition ex_script :: script where
  "ex_script =
     \<lparr>xs_replies = [Inr (map Inr ex_chunks), Inr [Inr (Chunk_Text 0 ''done'')]], xs_requests = 0, xs_time = 0,
      xs_cancel = False\<rparr>"

definition ex_world :: "'s \<Rightarrow> ('s, script) world" where
  "ex_world s = \<lparr>w_store = s, w_ext = ex_script, w_out = [], w_workers = [], w_log = []\<rparr>"

lemma ex_turn:
  "\<exists>w'. execute_turn (ex_env False) ex_params 1 (ex_world []) = Some (Inr (Continue, ex_params), w') \<and>
     length (w_log w') = 3"
proof -
  have "map_option (\<lambda>(r, w). (r, length (w_log w))) (execute_turn (ex_env False) ex_params 1 (ex_world []))
      = Some (Inr (Continue, ex_params), 3)"
    by code_simp
  then show ?thesis by (auto simp: split_def)
qed

definition ex_calls :: "tool_call list" where
  "ex_calls = [ex_tool_call, ex_tool_call\<lparr>tc_id := ''c2'', tc_name := ''rm''\<rparr>]"

lemma ex_batch: "\<exists>results w'. run_tool_batch (ex_env True) ex_params ex_calls (ex_world []) = Some (Inr results, w')"
proof -
  have "map_option (\<lambda>(r, w). case r of Inl _ \<Rightarrow> False | Inr _ \<Rightarrow> True)
      (run_tool_batch (ex_env True) ex_params ex_calls (ex_world [])) = Some True"
    by code_simp
  then obtain z where z: "run_tool_batch (ex_env True) ex_params ex_calls (ex_world []) = Some z"
    "case fst z of Inl _ \<Rightarrow> False | Inr _ \<Rightarrow> True"
    by (auto simp: case_prod_beta)
  then obtain results where "fst z = Inr results" by (cases "fst z") auto
  with z(1) have "run_tool_batch (ex_env True) ex_params ex_calls (ex_world []) = Some (Inr results, snd z)"
    by (metis prod.collapse)
  then show ?thesis by blast
qed

end
