(* ===== verification/Core_Bus.thy ===== *)
theory Core_Bus
  imports Core_Event
begin

text \<open>
  \<^verbatim>\<open>kn9t-core/src/bus.rs\<close> and \<^verbatim>\<open>cancel.rs\<close>, and the event sinks. A \<open>Bus\<close> holds weak references to
  the rings of its subscribers: \<open>bus_subs\<close> lists ring addresses, and a ring is alive as long as its
  \<^verbatim>\<open>Subscription\<close> keeps it in \<open>bus_rings\<close>. Every operation runs under one mutex, so it is one step.
  A blocking receive that would wait is the outcome \<open>Waits\<close>; \<open>Timed_Out\<close> is the timed one giving up.
\<close>

subsection \<open>Ring buffers\<close>

record ring =
  rg_buf :: "event list"
  rg_closed :: bool
  rg_capacity :: nat

datatype received = Received event | Ended | Waits | Timed_Out

definition ring_push :: "event \<Rightarrow> ring \<Rightarrow> ring" where
  "ring_push e r =
     (let kept = (if length (rg_buf r) = rg_capacity r then tl (rg_buf r) else rg_buf r)
      in r\<lparr>rg_buf := kept @ [e]\<rparr>)"

definition ring_recv :: "ring \<Rightarrow> received \<times> ring" where
  "ring_recv r =
     (case rg_buf r of
        e # es \<Rightarrow> (Received e, r\<lparr>rg_buf := es\<rparr>)
      | [] \<Rightarrow> if rg_closed r then (Ended, r) else (Waits, r))"

text \<open>The wait ends by a push, a close, or the timeout; this is the case where it ends by the timeout.\<close>

definition ring_recv_timeout :: "ring \<Rightarrow> received \<times> ring" where
  "ring_recv_timeout r =
     (case ring_recv r of (Waits, r') \<Rightarrow> (Timed_Out, r') | res \<Rightarrow> res)"

definition ring_try_recv :: "ring \<Rightarrow> event option \<times> ring" where
  "ring_try_recv r =
     (case rg_buf r of [] \<Rightarrow> (None, r) | e # es \<Rightarrow> (Some e, r\<lparr>rg_buf := es\<rparr>))"

definition ring_close :: "ring \<Rightarrow> ring" where
  "ring_close r = r\<lparr>rg_closed := True\<rparr>"

definition ring_ok :: "ring \<Rightarrow> bool" where
  "ring_ok r \<longleftrightarrow> 1 \<le> rg_capacity r \<and> length (rg_buf r) \<le> rg_capacity r"

text \<open>What a bounded buffer keeps of a stream: its last \<open>n\<close> elements.\<close>

definition last_n :: "nat \<Rightarrow> 'a list \<Rightarrow> 'a list" where
  "last_n n xs = drop (length xs - n) xs"

lemma last_n_last_n_append: "last_n n (last_n n xs @ ys) = last_n n (xs @ ys)"
proof (cases "length xs \<le> n")
  case False
  then show ?thesis
    by (cases "length ys \<le> n") (simp_all add: last_n_def add.commute)
qed (simp add: last_n_def)

lemma last_n_short [simp]: "length xs \<le> n \<Longrightarrow> last_n n xs = xs"
  by (simp add: last_n_def)

lemma length_last_n [simp]: "length (last_n n xs) = min n (length xs)"
  by (simp add: last_n_def)

lemma ring_push_buf:
  "ring_ok r \<Longrightarrow> rg_buf (ring_push e r) = last_n (rg_capacity r) (rg_buf r @ [e])"
  by (cases "rg_buf r") (auto simp: ring_push_def ring_ok_def last_n_def Let_def)

lemma ring_push_ok: "ring_ok r \<Longrightarrow> ring_ok (ring_push e r)"
  by (simp add: ring_push_def ring_ok_def Let_def)

lemma ring_push_frame [simp]:
  "rg_capacity (ring_push e r) = rg_capacity r" "rg_closed (ring_push e r) = rg_closed r"
  by (simp_all add: ring_push_def Let_def)

lemma ring_recv_ok: "ring_ok r \<Longrightarrow> ring_ok (snd (ring_recv r))"
  by (auto simp: ring_recv_def ring_ok_def split: list.splits)

subsection \<open>The bus\<close>

record bus =
  bus_subs :: "nat list"
  bus_rings :: "nat \<Rightarrow> ring option"
  bus_fresh :: nat

definition bus_new :: bus where
  "bus_new = \<lparr>bus_subs = [], bus_rings = (\<lambda>_. None), bus_fresh = 0\<rparr>"

definition subscribe :: "nat \<Rightarrow> bus \<Rightarrow> nat \<times> bus" where
  "subscribe capacity b =
     (bus_fresh b,
      \<lparr>bus_subs = bus_subs b @ [bus_fresh b],
       bus_rings = (bus_rings b)(bus_fresh b \<mapsto>
         \<lparr>rg_buf = [], rg_closed = False, rg_capacity = max capacity 1\<rparr>),
       bus_fresh = bus_fresh b + 1\<rparr>)"

text \<open>\<^verbatim>\<open>subs.retain\<close>: push to the rings that are alive, forget the others.\<close>

fun deliver :: "event \<Rightarrow> nat list \<Rightarrow> (nat \<Rightarrow> ring option) \<Rightarrow> nat list \<times> (nat \<Rightarrow> ring option)" where
  "deliver e [] rings = ([], rings)"
| "deliver e (i # subs) rings =
     (case rings i of
        None \<Rightarrow> deliver e subs rings
      | Some r \<Rightarrow>
          (let (subs', rings') = deliver e subs (rings(i \<mapsto> ring_push e r)) in (i # subs', rings')))"

definition publish :: "event \<Rightarrow> bus \<Rightarrow> bus" where
  "publish e b =
     (let (subs, rings) = deliver e (bus_subs b) (bus_rings b)
      in b\<lparr>bus_subs := subs, bus_rings := rings\<rparr>)"

definition drop_subscription :: "nat \<Rightarrow> bus \<Rightarrow> bus" where
  "drop_subscription i b = b\<lparr>bus_rings := (bus_rings b)(i := None)\<rparr>"

definition bus_drop :: "bus \<Rightarrow> bus" where
  "bus_drop b =
     b\<lparr>bus_rings := (\<lambda>i. if i \<in> set (bus_subs b) then map_option ring_close (bus_rings b i)
                          else bus_rings b i)\<rparr>"

definition recv :: "nat \<Rightarrow> bus \<Rightarrow> received \<times> bus" where
  "recv i b =
     (case bus_rings b i of
        None \<Rightarrow> (Ended, b)
      | Some r \<Rightarrow> (let (res, r') = ring_recv r in (res, b\<lparr>bus_rings := (bus_rings b)(i \<mapsto> r')\<rparr>)))"

definition bus_emit :: "live_event \<Rightarrow> bus \<Rightarrow> bus" where
  "bus_emit l b = (case to_observable_event l of Some e \<Rightarrow> publish e b | None \<Rightarrow> b)"

subsection \<open>Invariant\<close>

definition bus_ok :: "bus \<Rightarrow> bool" where
  "bus_ok b \<longleftrightarrow>
     distinct (bus_subs b) \<and> (\<forall>i \<in> set (bus_subs b). i < bus_fresh b) \<and>
     (\<forall>i r. bus_rings b i = Some r \<longrightarrow> i \<in> set (bus_subs b) \<and> ring_ok r)"

lemma deliver_subs: "distinct subs \<Longrightarrow> fst (deliver e subs rings) = filter (\<lambda>i. rings i \<noteq> None) subs"
proof (induction subs arbitrary: rings)
  case (Cons i subs)
  show ?case
  proof (cases "rings i")
    case (Some r)
    have "filter (\<lambda>j. (rings(i \<mapsto> ring_push e r)) j \<noteq> None) subs = filter (\<lambda>j. rings j \<noteq> None) subs"
      by (rule filter_cong) (use Cons.prems in auto)
    then have "fst (deliver e subs (rings(i \<mapsto> ring_push e r))) = filter (\<lambda>j. rings j \<noteq> None) subs"
      by (subst Cons.IH) (use Cons.prems in auto)
    with Some show ?thesis
      by (simp add: split_def Let_def)
  qed (use Cons in simp)
qed simp

lemma deliver_rings:
  "distinct subs \<Longrightarrow>
   snd (deliver e subs rings) i =
     (if i \<in> set subs then map_option (ring_push e) (rings i) else rings i)"
proof (induction subs arbitrary: rings)
  case (Cons k subs)
  then show ?case
    by (cases "rings k") (auto simp: split_def Let_def)
qed simp

lemma publish_ring:
  "bus_ok b \<Longrightarrow> bus_rings (publish e b) i = map_option (ring_push e) (bus_rings b i)"
  by (cases "bus_rings b i")
    (auto simp: publish_def split_def Let_def deliver_rings bus_ok_def)

lemma publish_subs:
  "bus_ok b \<Longrightarrow> bus_subs (publish e b) = filter (\<lambda>i. bus_rings b i \<noteq> None) (bus_subs b)"
  by (simp add: publish_def split_def Let_def deliver_subs bus_ok_def)

lemma publish_fresh [simp]: "bus_fresh (publish e b) = bus_fresh b"
  by (simp add: publish_def split_def Let_def)

lemma bus_ok_new: "bus_ok bus_new"
  by (simp add: bus_ok_def bus_new_def)

lemma bus_ok_subscribe: "bus_ok b \<Longrightarrow> bus_ok (snd (subscribe n b))"
  by (auto simp: bus_ok_def subscribe_def ring_ok_def less_Suc_eq split: if_splits)

lemma bus_ok_publish: "bus_ok b \<Longrightarrow> bus_ok (publish e b)"
  by (simp (no_asm) add: bus_ok_def publish_ring publish_subs)
    (auto simp: publish_ring publish_subs bus_ok_def intro: ring_push_ok)

lemma bus_ok_drop_subscription: "bus_ok b \<Longrightarrow> bus_ok (drop_subscription i b)"
  by (auto simp: bus_ok_def drop_subscription_def split: if_splits)

lemma bus_ok_drop: "bus_ok b \<Longrightarrow> bus_ok (bus_drop b)"
proof -
  assume ok: "bus_ok b"
  have "i \<in> set (bus_subs b) \<and> ring_ok r" if "bus_rings (bus_drop b) i = Some r" for i r
    using that ok
    by (cases "i \<in> set (bus_subs b)") (auto simp: bus_drop_def bus_ok_def ring_ok_def ring_close_def)
  moreover have "bus_subs (bus_drop b) = bus_subs b" "bus_fresh (bus_drop b) = bus_fresh b"
    by (simp_all add: bus_drop_def)
  moreover have "distinct (bus_subs b)" "\<forall>i \<in> set (bus_subs b). i < bus_fresh b"
    using ok by (simp_all add: bus_ok_def)
  ultimately show "bus_ok (bus_drop b)"
    unfolding bus_ok_def by metis
qed

lemma bus_ok_recv: "bus_ok b \<Longrightarrow> bus_ok (snd (recv i b))"
  using ring_recv_ok
  by (auto simp: bus_ok_def recv_def split_def Let_def split: option.splits if_splits)

lemma bus_ok_emit: "bus_ok b \<Longrightarrow> bus_ok (bus_emit l b)"
  by (simp add: bus_emit_def bus_ok_publish split: option.split)

subsection \<open>The bus as a state machine\<close>

inductive bus_step :: "bus \<Rightarrow> bus \<Rightarrow> bool" where
  step_subscribe: "bus_step b (snd (subscribe n b))"
| step_publish: "bus_step b (publish e b)"
| step_emit: "bus_step b (bus_emit l b)"
| step_recv: "bus_step b (snd (recv i b))"
| step_detach: "bus_step b (drop_subscription i b)"
| step_drop: "bus_step b (bus_drop b)"

inductive bus_reachable :: "bus \<Rightarrow> bool" where
  reach_new: "bus_reachable bus_new"
| reach_step: "bus_reachable b \<Longrightarrow> bus_step b c \<Longrightarrow> bus_reachable c"

inductive_cases bus_stepE: "bus_step b c"

lemma bus_ok_step: "bus_step b c \<Longrightarrow> bus_ok b \<Longrightarrow> bus_ok c"
  by (erule bus_stepE)
    (simp_all add: bus_ok_subscribe bus_ok_publish bus_ok_emit bus_ok_recv bus_ok_drop_subscription
      bus_ok_drop)

lemma bus_reachable_ok: "bus_reachable b \<Longrightarrow> bus_ok b"
  by (induction rule: bus_reachable.induct) (auto intro: bus_ok_new bus_ok_step)

subsection \<open>What a subscriber sees\<close>

definition sub_window :: "bus \<Rightarrow> nat \<Rightarrow> (nat \<times> event list) option" where
  "sub_window b i = map_option (\<lambda>r. (rg_capacity r, rg_buf r)) (bus_rings b i)"

definition observable :: "live_event \<Rightarrow> event list" where
  "observable l = (case to_observable_event l of None \<Rightarrow> [] | Some e \<Rightarrow> [e])"

lemma window_publish:
  "bus_ok b \<Longrightarrow> sub_window b i = Some (n, buf) \<Longrightarrow>
   sub_window (publish e b) i = Some (n, last_n n (buf @ [e]))"
  by (auto simp: sub_window_def publish_ring ring_push_buf bus_ok_def)

text \<open>
  What producers (the react loop, tools, providers) rely on: an emit shows the observable form of
  the event to every subscriber, shows internal events to none, and keeps the windows bounded.
\<close>

locale event_sink =
  fixes emit :: "live_event \<Rightarrow> 's \<Rightarrow> 's"
    and window :: "'s \<Rightarrow> nat \<Rightarrow> (nat \<times> event list) option"
    and good :: "'s \<Rightarrow> bool"
  assumes good_emit: "good s \<Longrightarrow> good (emit l s)"
    and window_bound: "good s \<Longrightarrow> window s i = Some (n, buf) \<Longrightarrow> length buf \<le> n"
    and emit_window: "good s \<Longrightarrow> window s i = Some (n, buf) \<Longrightarrow>
      window (emit l s) i = Some (n, last_n n (buf @ observable l))"
begin

lemma emits_window:
  "good s \<Longrightarrow> window s i = Some (n, buf) \<Longrightarrow>
   window (fold emit ls s) i = Some (n, last_n n (buf @ concat (map observable ls)))"
proof (induction ls arbitrary: s buf)
  case Nil
  then show ?case using window_bound by simp
next
  case (Cons l ls)
  have "window (fold emit ls (emit l s)) i =
        Some (n, last_n n (last_n n (buf @ observable l) @ concat (map observable ls)))"
    by (rule Cons.IH) (use Cons.prems good_emit emit_window in auto)
  then show ?case
    by (simp add: last_n_last_n_append)
qed

lemma internal_invisible:
  "good s \<Longrightarrow> window s i = Some w \<Longrightarrow> is_internal l \<Longrightarrow> window (emit l s) i = Some w"
  by (cases w) (simp add: emit_window window_bound observable_def to_observable_event_def)

lemma nothing_lost:
  assumes "good s" and "window s i = Some (n, buf)"
    and "length buf + length (concat (map observable ls)) \<le> n"
  shows "window (fold emit ls s) i = Some (n, buf @ concat (map observable ls))"
  using emits_window [OF assms(1,2), of ls] assms(3) by simp

end

lemma bus_window_bound: "bus_ok b \<Longrightarrow> sub_window b i = Some (n, buf) \<Longrightarrow> length buf \<le> n"
  by (auto simp: sub_window_def bus_ok_def ring_ok_def)

lemma bus_emit_window:
  "bus_ok b \<Longrightarrow> sub_window b i = Some (n, buf) \<Longrightarrow>
   sub_window (bus_emit l b) i = Some (n, last_n n (buf @ observable l))"
  by (simp add: bus_emit_def observable_def window_publish bus_window_bound split: option.split)

interpretation busk: event_sink bus_emit sub_window bus_ok
  by unfold_locales (auto simp: bus_ok_emit bus_window_bound bus_emit_window)

subsection \<open>Closing\<close>

fun drain :: "nat \<Rightarrow> nat \<Rightarrow> bus \<Rightarrow> received list \<times> bus" where
  "drain 0 i b = ([], b)"
| "drain (Suc n) i b = (let (r, b') = recv i b; (rs, b'') = drain n i b' in (r # rs, b''))"

lemma drain_window:
  "bus_rings b i = Some r \<Longrightarrow> fst (drain (length (rg_buf r)) i b) = map Received (rg_buf r)"
proof (induction "rg_buf r" arbitrary: r b)
  case (Cons e es)
  then have r: "rg_buf r = e # es" by simp
  let ?r = "r\<lparr>rg_buf := es\<rparr>"
  have "fst (drain (length (rg_buf ?r)) i (b\<lparr>bus_rings := (bus_rings b)(i \<mapsto> ?r)\<rparr>)) =
        map Received (rg_buf ?r)"
    by (rule Cons.hyps(1)) simp_all
  with r Cons.prems show ?case
    by (simp add: recv_def ring_recv_def split_def Let_def)
qed simp

lemma recv_after_drop:
  "bus_ok b \<Longrightarrow> bus_rings b i = Some r \<Longrightarrow> fst (recv i (bus_drop b)) \<noteq> Waits"
  by (auto simp: recv_def bus_drop_def bus_ok_def ring_recv_def ring_close_def split_def Let_def
      split: list.splits)

subsection \<open>Cancellation\<close>

text \<open>
  The token is one flag shared by its clones. \<open>wait_timeout\<close> is told, for each wakeup of the
  condition variable, whether the flag is set and how much time is left; it returns whether the flag
  was set, and only after the deadline may it return false.
\<close>

record cancel_poll =
  cp_flag :: bool
  cp_remaining :: nat

definition cancel_set :: "bool \<Rightarrow> bool" where
  "cancel_set _ = True"

fun wait_loop :: "cancel_poll list \<Rightarrow> bool option" where
  "wait_loop [] = None"
| "wait_loop (p # ps) =
     (if cp_flag p then Some True
      else if cp_remaining p = 0 then Some (cp_flag p)
      else wait_loop ps)"

definition wait_timeout :: "bool \<Rightarrow> cancel_poll list \<Rightarrow> bool option" where
  "wait_timeout flag ps = (if flag then Some True else wait_loop ps)"

lemma wait_loop_True: "wait_loop ps = Some True \<Longrightarrow> \<exists>p \<in> set ps. cp_flag p"
  by (induction ps) (auto split: if_splits)

lemma wait_loop_False: "wait_loop ps = Some False \<Longrightarrow> \<exists>p \<in> set ps. cp_remaining p = 0 \<and> \<not> cp_flag p"
  by (induction ps) (auto split: if_splits)

lemma wait_loop_returns: "\<exists>p \<in> set ps. cp_remaining p = 0 \<Longrightarrow> wait_loop ps \<noteq> None"
  by (induction ps) auto

end
