(* ===== verification/Server_Auth.thy ===== *)
theory Server_Auth
  imports Rust_Str "HOL-Library.Word"
begin

text \<open>
  \<^verbatim>\<open>kn9t-server/src/auth.rs\<close>: the bearer token. The clock and the stack address that seed the
  generator are arguments; everything after them is 64-bit arithmetic that wraps.
\<close>

unbundle bit_operations_syntax

subsection \<open>Tokens\<close>

definition golden :: "64 word" where
  "golden = 0x9E3779B97F4A7C15"

definition token_seed :: "64 word option \<Rightarrow> 64 word \<Rightarrow> 64 word" where
  "token_seed nanos stack =
     (let seed = (case nanos of Some n \<Rightarrow> n | None \<Rightarrow> 0x12345678) XOR (stack * golden)
      in if seed = 0 then 0x0123456789ABCDEF else seed)"

definition mix :: "64 word \<Rightarrow> 64 word" where
  "mix z0 =
     (let z1 = (z0 XOR drop_bit 30 z0) * 0xBF58476D1CE4E5B9;
          z2 = (z1 XOR drop_bit 27 z1) * 0x94D049BB133111EB
      in z2 XOR drop_bit 31 z2)"

text \<open>\<^verbatim>\<open>{z:016x}\<close>\<close>

definition hex_char :: "nat \<Rightarrow> char" where
  "hex_char d = (if d < 10 then char_of (48 + d) else char_of (87 + d))"

definition hex16 :: "64 word \<Rightarrow> string" where
  "hex16 z = map (\<lambda>i. hex_char (unat (drop_bit (4 * (15 - i)) z AND 15))) [0..<16]"

fun token_words :: "nat \<Rightarrow> 64 word \<Rightarrow> 64 word list" where
  "token_words 0 seed = []"
| "token_words (Suc n) seed = (let s = seed + golden in mix s # token_words n s)"

definition token_from :: "64 word \<Rightarrow> string" where
  "token_from seed = concat (map hex16 (token_words 4 seed))"

definition generate_token :: "64 word option \<Rightarrow> 64 word \<Rightarrow> string" where
  "generate_token nanos stack = token_from (token_seed nanos stack)"

subsection \<open>The header\<close>

definition parse_bearer :: "string \<Rightarrow> string option" where
  "parse_bearer h =
     (let v = trim h
      in case (case strip_prefix ''Bearer '' v of Some r \<Rightarrow> Some r | None \<Rightarrow> strip_prefix ''bearer '' v) of
           None \<Rightarrow> None
         | Some rest \<Rightarrow> (let t = trim rest in if t = [] then None else Some t))"

definition byte_of :: "char \<Rightarrow> 8 word" where
  "byte_of c = word_of_nat (of_char c)"

definition token_matches :: "string \<Rightarrow> string \<Rightarrow> bool" where
  "token_matches expected given =
     (if length expected \<noteq> length given then False
      else fold (\<lambda>(a, b) diff. diff OR (byte_of a XOR byte_of b)) (zip expected given) (0 :: 8 word) = 0)"

subsection \<open>The comparison is equality\<close>

lemma xor_zero_iff: "a XOR b = 0 \<longleftrightarrow> a = (b :: 'a :: len word)"
proof
  assume "a XOR b = 0"
  then have "(a XOR b) XOR b = b" by simp
  then show "a = b" by (simp add: xor.assoc)
qed simp

lemma byte_of_inject: "byte_of a = byte_of b \<longleftrightarrow> a = b"
proof -
  have "of_char c < (2 :: nat) ^ 8" for c using nat_of_char_less_256 [of c] by simp
  then have "unat (byte_of c) = (of_char c :: nat)" for c
    by (simp add: byte_of_def unsigned_of_nat take_bit_nat_eq_self)
  then show ?thesis by (metis of_char_eq_iff)
qed

lemma fold_diff_zero:
  "fold (\<lambda>(a, b) diff. diff OR (byte_of a XOR byte_of b)) ps d = 0 \<longleftrightarrow>
   d = 0 \<and> (\<forall>(a, b) \<in> set ps. a = b)"
proof (induction ps arbitrary: d)
  case (Cons p ps)
  obtain a b where p: "p = (a, b)" by (cases p)
  have "d OR (byte_of a XOR byte_of b) = 0 \<longleftrightarrow> d = 0 \<and> a = b"
    by (simp add: or_eq_0_iff xor_zero_iff byte_of_inject)
  with Cons show ?case by (auto simp: p)
qed simp

lemma token_matches_iff: "token_matches e g \<longleftrightarrow> e = g"
proof (cases "length e = length g")
  case True
  then show ?thesis
    by (auto simp: token_matches_def fold_diff_zero list_eq_iff_zip_eq)
next
  case False
  then show ?thesis by (auto simp: token_matches_def)
qed

subsection \<open>Distinct seeds give distinct tokens\<close>

text \<open>Each step of \<open>mix\<close> is a bijection of the 64-bit words.\<close>

lemma xorshift_inject:
  fixes y z :: "'a :: len word"
  assumes "z XOR drop_bit s z = y XOR drop_bit s y" and "0 < s"
  shows "z = y"
proof -
  define d where "d = z XOR y"
  have "(z XOR drop_bit s z) XOR (y XOR drop_bit s y) = 0" using assms(1) by simp
  then have "d XOR drop_bit s d = 0" by (simp add: d_def xor.assoc xor.left_commute drop_bit_xor)
  then have step: "drop_bit s d = d" by (simp add: xor_zero_iff)
  have "drop_bit (s * n) d = d" for n
  proof (induction n)
    case (Suc n)
    have "drop_bit (s * Suc n) d = drop_bit s (drop_bit (s * n) d)" by (simp add: drop_bit_drop_bit)
    with Suc step show ?case by simp
  qed simp
  moreover have "drop_bit (s * LENGTH('a)) d = 0"
    using assms(2) by (intro drop_bit_word_beyond) simp
  ultimately have "d = 0" by metis
  then show ?thesis by (simp add: d_def xor_zero_iff)
qed

lemma mult_inject:
  fixes a b c :: "'a :: len word"
  shows "a * c = b * c \<Longrightarrow> c * i = 1 \<Longrightarrow> a = b"
  by (metis mult.assoc mult.right_neutral)

lemma mix_inject [simp]: "mix a = mix b \<longleftrightarrow> a = b"
proof
  define f g h :: "64 word \<Rightarrow> 64 word"
    where "f = (\<lambda>x. x XOR drop_bit 30 x)" and "g = (\<lambda>x. x XOR drop_bit 27 x)" and "h = (\<lambda>x. x XOR drop_bit 31 x)"
  have f: "x = y" if "f x = f y" for x y using that unfolding f_def by (rule xorshift_inject) simp
  have g: "x = y" if "g x = g y" for x y using that unfolding g_def by (rule xorshift_inject) simp
  have h: "x = y" if "h x = h y" for x y using that unfolding h_def by (rule xorshift_inject) simp
  have mix: "mix x = h (g (f x * 0xBF58476D1CE4E5B9) * 0x94D049BB133111EB)" for x
    by (simp only: mix_def Let_def f_def g_def h_def)
  have one: "0xBF58476D1CE4E5B9 * 0x96DE1B173F119089 = (1 :: 64 word)"
    "0x94D049BB133111EB * 0x319642B2D24D8EC3 = (1 :: 64 word)"
    by simp_all
  assume "mix a = mix b"
  from h [OF this [unfolded mix]] have "g (f a * 0xBF58476D1CE4E5B9) = g (f b * 0xBF58476D1CE4E5B9)"
    by (rule mult_inject) (rule one(2))
  from g [OF this] have "f a = f b" by (rule mult_inject) (rule one(1))
  then show "a = b" by (rule f)
qed simp

lemma hex_char_inject:
  assumes "i < 16" and "j < 16"
  shows "hex_char i = hex_char j \<longleftrightarrow> i = j"
proof
  have code: "of_char (hex_char i) = (if i < 10 then 48 + i else 87 + i)" if "i < 16" for i :: nat
    using that by (simp add: hex_char_def)
  assume "hex_char i = hex_char j"
  then have "(if i < 10 then 48 + i else 87 + i) = (if j < 10 then 48 + j else 87 + j)"
    unfolding code [OF assms(1), symmetric] code [OF assms(2), symmetric] by (rule arg_cong)
  with assms show "i = j" by (simp split: if_split_asm)
qed simp

lemma nibble_bit: "bit (z :: 64 word) n \<longleftrightarrow> n < 64 \<and> bit (drop_bit (4 * (n div 4)) z AND 15) (n mod 4)"
proof -
  have m15: "(15 :: 64 word) = mask 4" by (simp add: mask_eq_exp_minus_1)
  have "bit (drop_bit (4 * (n div 4)) z AND mask 4) (n mod 4) \<longleftrightarrow> bit z (4 * (n div 4) + n mod 4)"
    using mod_less_divisor [of 4 n] by (auto simp: bit_and_iff bit_mask_iff bit_drop_bit_eq simp del: mask_numeral)
  then show ?thesis unfolding m15 by (auto dest: bit_imp_possible_bit)
qed

lemma hex16_inject [simp]: "hex16 y = hex16 z \<longleftrightarrow> y = z"
proof
  assume eq: "hex16 y = hex16 z"
  have small: "unat (w AND 15 :: 64 word) < 16" for w
    using word_and_le1 [of w 15] by (simp add: word_le_nat_alt)
  have "drop_bit (4 * k) y AND 15 = drop_bit (4 * k) z AND 15" if "k < 16" for k
  proof -
    have "hex16 y ! (15 - k) = hex16 z ! (15 - k)" using eq by simp
    moreover have "[0..<16] ! (15 - k) = 15 - k" using that by (subst nth_upt) simp_all
    ultimately show ?thesis using that small by (simp add: hex16_def hex_char_inject word_unat_eq_iff del: upt_rec_numeral)
  qed
  then have "bit y n \<longleftrightarrow> bit z n" for n
    using nibble_bit [of y n] nibble_bit [of z n] by (cases "n < 64") auto
  then show "y = z" by (rule bit_word_eqI)
qed simp

lemma length_hex16 [simp]: "length (hex16 z) = 16"
  by (simp add: hex16_def)

lemma length_token: "length (token_from seed) = 64"
  by (simp add: token_from_def numeral_eq_Suc Let_def)

lemma token_from_inject [simp]: "token_from s = token_from t \<longleftrightarrow> s = t"
proof
  assume "token_from s = token_from t"
  then have "take 16 (token_from s) = take 16 (token_from t)" by simp
  then show "s = t" by (simp add: token_from_def numeral_eq_Suc Let_def)
qed simp

text \<open>
  Two calls at different times from the same frame get different tokens, save for the one time whose
  seed is 0, which shares its token with the time whose seed is the replacement.
\<close>

lemma generate_token_inject:
  assumes "generate_token (Some a) stack = generate_token (Some b) stack"
    and "a \<noteq> stack * golden" and "b \<noteq> stack * golden"
  shows "a = b"
proof -
  have "a XOR stack * golden = b XOR stack * golden"
    using assms by (simp add: generate_token_def token_seed_def Let_def xor_zero_iff)
  then have "(a XOR stack * golden) XOR stack * golden = (b XOR stack * golden) XOR stack * golden" by simp
  then show ?thesis by (simp add: xor.assoc)
qed

end
