(* ===== verification/Server_Lease.thy ===== *)
theory Server_Lease
  imports Server_Auth Core_Types "HOL-Library.AList"
begin

text \<open>
  \<^verbatim>\<open>kn9t-server/src/lease.rs\<close>: who may write to a session. Times are \<^verbatim>\<open>Instant\<close>s as numbers, read
  under the lock, so they do not decrease from one operation to the next; the random part of a token
  is an argument. The token counter is not wrapped at 64 bits.
\<close>

subsection \<open>The map\<close>

record lease =
  le_holder :: string
  le_active :: nat

record lease_map =
  lm_leases :: "(session_id \<times> lease) list"
  lm_idle :: nat
  lm_counter :: nat

datatype acquire_result = Granted string | Busy

definition lease_map_new :: "nat \<Rightarrow> lease_map" where
  "lease_map_new idle = \<lparr>lm_leases = [], lm_idle = idle, lm_counter = 0\<rparr>"

definition lease_of :: "session_id \<Rightarrow> lease_map \<Rightarrow> lease option" where
  "lease_of sid m = map_of (lm_leases m) sid"

definition mint_holder :: "string \<Rightarrow> lease_map \<Rightarrow> string \<times> lease_map" where
  "mint_holder token m =
     (let c = lm_counter m + 1 in (''lease-'' @ show_nat c @ ''-'' @ token, m\<lparr>lm_counter := c\<rparr>))"

definition acquire :: "string \<Rightarrow> nat \<Rightarrow> session_id \<Rightarrow> bool \<Rightarrow> lease_map \<Rightarrow> acquire_result \<times> lease_map" where
  "acquire token now sid takeover m =
     (let occupied = (case lease_of sid m of Some l \<Rightarrow> now - le_active l < lm_idle m | None \<Rightarrow> False)
      in if occupied \<and> \<not> takeover then (Busy, m)
         else (case mint_holder token m of (holder, m') \<Rightarrow>
           (Granted holder,
            m'\<lparr>lm_leases := AList.update sid \<lparr>le_holder = holder, le_active = now\<rparr> (lm_leases m')\<rparr>)))"

definition set_active :: "nat \<Rightarrow> session_id \<Rightarrow> lease \<Rightarrow> lease_map \<Rightarrow> lease_map" where
  "set_active now sid l m = m\<lparr>lm_leases := AList.update sid (l\<lparr>le_active := now\<rparr>) (lm_leases m)\<rparr>"

definition remove_lease :: "session_id \<Rightarrow> lease_map \<Rightarrow> lease_map" where
  "remove_lease sid m = m\<lparr>lm_leases := AList.delete sid (lm_leases m)\<rparr>"

definition holds :: "nat \<Rightarrow> session_id \<Rightarrow> string \<Rightarrow> lease_map \<Rightarrow> bool \<times> lease_map" where
  "holds now sid holder m =
     (case lease_of sid m of
        Some l \<Rightarrow>
          if le_holder l \<noteq> holder then (False, m)
          else if lm_idle m \<le> now - le_active l then (False, remove_lease sid m)
          else (True, set_active now sid l m)
      | None \<Rightarrow> (False, m))"

text \<open>The heartbeat of the stream that owns the lease: it refreshes even an idle one.\<close>

definition touch :: "nat \<Rightarrow> session_id \<Rightarrow> string \<Rightarrow> lease_map \<Rightarrow> bool \<times> lease_map" where
  "touch now sid holder m =
     (case lease_of sid m of
        Some l \<Rightarrow> if le_holder l \<noteq> holder then (False, m) else (True, set_active now sid l m)
      | None \<Rightarrow> (False, m))"

definition release :: "session_id \<Rightarrow> string \<Rightarrow> lease_map \<Rightarrow> bool \<times> lease_map" where
  "release sid holder m =
     (case lease_of sid m of
        Some l \<Rightarrow> if le_holder l \<noteq> holder then (False, m) else (True, remove_lease sid m)
      | None \<Rightarrow> (False, m))"

definition force_release :: "session_id \<Rightarrow> string \<Rightarrow> lease_map \<Rightarrow> lease_map" where
  "force_release sid holder m =
     (case lease_of sid m of
        Some l \<Rightarrow> if le_holder l \<noteq> holder then m else remove_lease sid m
      | None \<Rightarrow> m)"

definition any_active :: "nat \<Rightarrow> lease_map \<Rightarrow> bool" where
  "any_active now m \<longleftrightarrow> (\<exists>(sid, l) \<in> set (lm_leases m). now - le_active l < lm_idle m)"

lemma lease_of_simps [simp]:
  "lease_of s (set_active now sid l m) = (if s = sid then Some (l\<lparr>le_active := now\<rparr>) else lease_of s m)"
  "lease_of s (remove_lease sid m) = (if s = sid then None else lease_of s m)"
  "lm_counter (set_active now sid l m) = lm_counter m" "lm_idle (set_active now sid l m) = lm_idle m"
  "lm_counter (remove_lease sid m) = lm_counter m" "lm_idle (remove_lease sid m) = lm_idle m"
  "lease_of s (lease_map_new idle) = None"
  by (simp_all add: lease_of_def set_active_def remove_lease_def lease_map_new_def update_conv' delete_conv')

subsection \<open>Histories\<close>

text \<open>The states a server run can reach, with the grants so far, latest first, and the time.\<close>

inductive lease_run :: "nat \<Rightarrow> (session_id \<times> string) list \<Rightarrow> nat \<Rightarrow> lease_map \<Rightarrow> bool" for idle where
  run_new: "lease_run idle [] t (lease_map_new idle)"
| run_wait: "lease_run idle gs t m \<Longrightarrow> t \<le> u \<Longrightarrow> lease_run idle gs u m"
| run_granted: "lease_run idle gs t m \<Longrightarrow> acquire tok t sid takeover m = (Granted h, m') \<Longrightarrow>
    lease_run idle ((sid, h) # gs) t m'"
| run_busy: "lease_run idle gs t m \<Longrightarrow> acquire tok t sid takeover m = (Busy, m') \<Longrightarrow> lease_run idle gs t m'"
| run_holds: "lease_run idle gs t m \<Longrightarrow> lease_run idle gs t (snd (holds t sid h m))"
| run_touch: "lease_run idle gs t m \<Longrightarrow> lease_run idle gs t (snd (touch t sid h m))"
| run_release: "lease_run idle gs t m \<Longrightarrow> lease_run idle gs t (snd (release sid h m))"
| run_force: "lease_run idle gs t m \<Longrightarrow> lease_run idle gs t (force_release sid h m)"

text \<open>Every lease is the latest grant of its session, and no token was granted twice.\<close>

definition minted :: "nat \<Rightarrow> string \<Rightarrow> bool" where
  "minted c h \<longleftrightarrow> (\<exists>k token. 0 < k \<and> k \<le> c \<and> h = ''lease-'' @ show_nat k @ ''-'' @ token)"

definition lease_inv :: "(session_id \<times> string) list \<Rightarrow> lease_map \<Rightarrow> bool" where
  "lease_inv gs m \<longleftrightarrow>
     (\<forall>sid l. lease_of sid m = Some l \<longrightarrow> map_of gs sid = Some (le_holder l)) \<and>
     distinct (map snd gs) \<and> (\<forall>g \<in> set gs. minted (lm_counter m) (snd g))"

lemma minted_mono: "minted c h \<Longrightarrow> c \<le> d \<Longrightarrow> minted d h"
  unfolding minted_def by (auto intro: order_trans)

lemma mint_fresh: "\<not> minted (lm_counter m) (fst (mint_holder token m))"
proof
  assume "minted (lm_counter m) (fst (mint_holder token m))"
  then obtain k t where k: "k \<le> lm_counter m"
    "show_nat (lm_counter m + 1) @ CHR ''-'' # token = show_nat k @ CHR ''-'' # t"
    by (auto simp: minted_def mint_holder_def Let_def)
  have "\<forall>d < 10. CHR ''-'' \<noteq> digit_char d" by (rule digit_char_below) simp
  with show_nat_sep [OF k(2)] k(1) show False by simp
qed

lemma acquire_GrantedD:
  assumes "acquire token now sid takeover m = (Granted h, m')"
  shows "h = fst (mint_holder token m) \<and> lm_counter m' = lm_counter m + 1 \<and> lm_idle m' = lm_idle m \<and>
     (\<forall>s. lease_of s m' = (if s = sid then Some \<lparr>le_holder = h, le_active = now\<rparr> else lease_of s m))"
  using assms by (auto simp: acquire_def mint_holder_def lease_of_def Let_def update_conv' split: if_splits)

lemma acquire_BusyD: "acquire token now sid takeover m = (Busy, m') \<Longrightarrow> m' = m"
  by (auto simp: acquire_def Let_def split: if_splits prod.splits)

lemma lease_inv_cong:
  assumes "lease_inv gs m" and "lm_counter m' = lm_counter m"
    and "\<And>s l. lease_of s m' = Some l \<Longrightarrow> \<exists>l0. lease_of s m = Some l0 \<and> le_holder l0 = le_holder l"
  shows "lease_inv gs m'"
  using assms unfolding lease_inv_def by metis

lemma lease_run_inv: "lease_run idle gs t m \<Longrightarrow> lease_inv gs m \<and> lm_idle m = idle"
proof (induction rule: lease_run.induct)
  case (run_granted gs t m tok sid takeover h m')
  note g = acquire_GrantedD [OF run_granted.hyps(2)]
  have "h \<notin> snd ` set gs"
    using g mint_fresh [of m tok] run_granted.IH by (auto simp: lease_inv_def)
  moreover have "minted (lm_counter m') h"
    using g by (auto simp: minted_def mint_holder_def Let_def)
  ultimately show ?case
    using run_granted.IH g by (auto simp: lease_inv_def intro: minted_mono)
next
  case (run_busy gs t m tok sid takeover m')
  then show ?case using acquire_BusyD by blast
next
  case (run_holds gs t m sid h)
  then show ?case
    by (auto simp: holds_def intro!: lease_inv_cong [of gs m] split: option.splits if_splits)
next
  case (run_touch gs t m sid h)
  then show ?case
    by (auto simp: touch_def intro!: lease_inv_cong [of gs m] split: option.splits if_splits)
next
  case (run_release gs t m sid h)
  then show ?case
    by (auto simp: release_def intro!: lease_inv_cong [of gs m] split: option.splits if_splits)
next
  case (run_force gs t m sid h)
  then show ?case
    by (auto simp: force_release_def intro!: lease_inv_cong [of gs m] split: option.splits if_splits)
qed (simp_all add: lease_inv_def lease_map_new_def lease_of_def)

text \<open>A token that was superseded is refused everywhere, for good.\<close>

lemma superseded_not_held:
  assumes "lease_run idle gs t m" and "gs = newer @ (sid, h) # older" and "sid \<in> fst ` set newer"
    and "lease_of sid m = Some l"
  shows "le_holder l \<noteq> h"
proof -
  have inv: "lease_inv gs m" using lease_run_inv [OF assms(1)] by blast
  then have "map_of gs sid = Some (le_holder l)" using assms(4) by (simp add: lease_inv_def)
  then have "map_of newer sid = Some (le_holder l)"
    using assms(2,3) by (simp add: map_add_def split: option.splits) (metis map_of_eq_None_iff option.distinct(1))
  then have "le_holder l \<in> snd ` set newer" by (force dest: map_of_SomeD)
  then show ?thesis using inv assms(2) by (auto simp: lease_inv_def)
qed

end
