(* ===== verification/Server_Guard.thy ===== *)
theory Server_Guard
  imports Server_Lease
begin

text \<open>
  What stands before every route of the server: \<^verbatim>\<open>handle\<close> of \<^verbatim>\<open>kn9t-server/src/router.rs\<close> with the
  header and URL helpers of \<^verbatim>\<open>http_util.rs\<close>. The body of the request and the route table after it
  are not modelled.
\<close>

datatype http_method = Get | Post | Delete | Other_Method

record http_request =
  hr_method :: http_method
  hr_url :: string
  hr_headers :: "(string \<times> string) list"

definition header :: "string \<Rightarrow> http_request \<Rightarrow> string option" where
  "header n req =
     map_option snd (List.find (\<lambda>(f, v). map ascii_lower f = map ascii_lower n) (hr_headers req))"

subsection \<open>The URL\<close>

definition path_of :: "string \<Rightarrow> string" where
  "path_of url = takeWhile (\<lambda>c. c \<noteq> CHR ''?'') url"

definition query_of :: "string \<Rightarrow> string" where
  "query_of url = drop 1 (dropWhile (\<lambda>c. c \<noteq> CHR ''?'') url)"

definition trim_slashes :: "string \<Rightarrow> string" where
  "trim_slashes s =
     rev (dropWhile (\<lambda>c. c = CHR ''/'') (rev (dropWhile (\<lambda>c. c = CHR ''/'') s)))"

definition segments :: "string \<Rightarrow> string list" where
  "segments path = filter (\<lambda>s. s \<noteq> []) (split_on CHR ''/'' (trim_slashes path))"

definition hex_val :: "char \<Rightarrow> nat option" where
  "hex_val c =
     (let b = of_char c in
      if 48 \<le> b \<and> b \<le> 57 then Some (b - 48)
      else if 97 \<le> b \<and> b \<le> 102 then Some (b - 97 + 10)
      else if 65 \<le> b \<and> b \<le> 70 then Some (b - 65 + 10)
      else None)"

text \<open>The decoded bytes. A \<^verbatim>\<open>%\<close> without two hex digits after it stands for itself.\<close>

function url_decode :: "string \<Rightarrow> string" where
  "url_decode [] = []"
| "url_decode (c # cs) =
     (if c = CHR ''%''
      then (case cs of
          h # l # rest \<Rightarrow>
            (case (hex_val h, hex_val l) of
               (Some a, Some b) \<Rightarrow> char_of (16 * a + b) # url_decode rest
             | _ \<Rightarrow> c # url_decode cs)
        | _ \<Rightarrow> c # url_decode cs)
      else if c = CHR ''+'' then CHR '' '' # url_decode cs
      else c # url_decode cs)"
  by pat_completeness auto
termination by (relation "measure length") auto

definition split_once :: "char \<Rightarrow> string \<Rightarrow> (string \<times> string) option" where
  "split_once c s =
     (if c \<in> set s then Some (takeWhile (\<lambda>x. x \<noteq> c) s, drop 1 (dropWhile (\<lambda>x. x \<noteq> c) s)) else None)"

definition query_param :: "string \<Rightarrow> string \<Rightarrow> string option" where
  "query_param query key =
     (case List.map_filter (\<lambda>pair. case split_once CHR ''='' pair of
          Some (k, v) \<Rightarrow> if k = key then Some (url_decode v) else None
        | None \<Rightarrow> if pair = key then Some [] else None) (split_on CHR ''&'' query) of
        [] \<Rightarrow> None
      | v # _ \<Rightarrow> Some v)"

subsection \<open>The guard\<close>

definition is_lease_required :: "http_method \<Rightarrow> string list \<Rightarrow> bool" where
  "is_lease_required method segs =
     (case method of
        Post \<Rightarrow>
          (case segs of
             [a, _, action] \<Rightarrow>
               a = ''session'' \<and> action \<in> {''prompt'', ''steer'', ''abort'', ''model'', ''compact''}
           | [a] \<Rightarrow> a = ''approve''
           | _ \<Rightarrow> False)
      | _ \<Rightarrow> False)"

definition lease_session_for :: "string list \<Rightarrow> session_id option" where
  "lease_session_for segs = (case segs of [a, i, _] \<Rightarrow> if a = ''session'' then Some i else None | _ \<Rightarrow> None)"

datatype verdict =
    Reject nat string
  | Attach_Session session_id
  | Attach_Global
  | Dispatch "string list"

definition check_lease :: "nat \<Rightarrow> http_request \<Rightarrow> string list \<Rightarrow> lease_map \<Rightarrow> bool \<times> lease_map" where
  "check_lease now req segs m =
     (case (lease_session_for segs, header ''X-Lease'' req) of
        (Some sid, Some h) \<Rightarrow> holds now sid h m
      | (None, Some h) \<Rightarrow>
          (case header ''X-Lease-Session'' req of Some sid \<Rightarrow> holds now sid h m | None \<Rightarrow> (False, m))
      | _ \<Rightarrow> (False, m))"

definition handle :: "string \<Rightarrow> nat \<Rightarrow> http_request \<Rightarrow> lease_map \<Rightarrow> verdict \<times> lease_map" where
  "handle token now req m =
     (if header ''Origin'' req \<noteq> None then (Reject 403 ''origin_rejected'', m)
      else if \<not> (case Option.bind (header ''Authorization'' req) parse_bearer of
                 Some t \<Rightarrow> token_matches token t | None \<Rightarrow> False)
      then (Reject 401 ''unauthorized'', m)
      else
        (let segs = segments (path_of (hr_url req))
         in if hr_method req = Get \<and> (case segs of [a, _, b] \<Rightarrow> a = ''session'' \<and> b = ''events'' | _ \<Rightarrow> False)
            then (Attach_Session (segs ! 1), m)
            else if hr_method req = Get \<and> segs = [''attach''] then (Attach_Global, m)
            else if is_lease_required (hr_method req) segs
            then (case check_lease now req segs m of
                (ok, m') \<Rightarrow> if ok then (Dispatch segs, m') else (Reject 409 ''session_busy'', m'))
            else (Dispatch segs, m)))"

lemma holds_TrueD:
  assumes "holds now sid h m = (True, m')"
  shows "\<exists>l. lease_of sid m = Some l \<and> le_holder l = h \<and> now - le_active l < lm_idle m \<and>
     lease_of sid m' = Some (l\<lparr>le_active := now\<rparr>)"
  using assms by (auto simp: holds_def split: option.splits if_splits)

lemma handle_authed:
  assumes "handle token now req m = (v, m')" and "\<forall>code e. v \<noteq> Reject code e"
  shows "header ''Origin'' req = None \<and>
     (\<exists>a. header ''Authorization'' req = Some a \<and> parse_bearer a = Some token)"
  using assms
  by (auto simp: handle_def token_matches_iff Let_def bind_eq_Some_conv split: if_splits option.splits)

lemma handle_leased:
  assumes "handle token now req m = (Dispatch segs, m')" and "is_lease_required (hr_method req) segs"
    and "lease_session_for segs = Some sid"
  shows "\<exists>h. header ''X-Lease'' req = Some h \<and> holds now sid h m = (True, m')"
  using assms
  by (auto simp: handle_def check_lease_def Let_def split: if_splits option.splits prod.splits)

text \<open>
  \<^verbatim>\<open>POST /session/{id}/tools\<close> is documented as a route that needs the lease (\<^verbatim>\<open>set_tools\<close> in
  \<^verbatim>\<open>routes/session.rs\<close>), and is dispatched without one, as is \<^verbatim>\<open>rename\<close>.
\<close>

lemma tools_route_unguarded:
  "\<not> is_lease_required Post [''session'', sid, ''tools'']"
  "\<not> is_lease_required Post [''session'', sid, ''rename'']"
  by (simp_all add: is_lease_required_def)

end
