(* ===== verification/Server_Attach.thy ===== *)
theory Server_Attach
  imports Store_System Store_Live Core_Bus Server_Guard
begin

text \<open>
  \<^verbatim>\<open>kn9t-server/src/sse.rs\<close>: a client attaches to a session. It subscribes to the session's bus, then
  reads the log and the partial message, then flushes what the ring received meanwhile, then follows
  the ring. \<open>text_of\<close> is \<^verbatim>\<open>serde_json::to_string\<close>.
\<close>

subsection \<open>Frames\<close>

fun event_name :: "event \<Rightarrow> string" where
  "event_name (SessionForked _ _) = ''session_forked''"
| "event_name (MessageAppended _ _) = ''message_appended''"
| "event_name (ModelChanged _ _) = ''model_changed''"
| "event_name (Compacted _ _ _) = ''compacted''"
| "event_name (Handoff _ _ _ _ _) = ''handoff''"
| "event_name (ToolsToggled _ _) = ''tools_toggled''"
| "event_name (UsageRecorded _ _) = ''usage_recorded''"
| "event_name (Ev_TurnStarted _) = ''turn_started''"
| "event_name (Ev_TextDelta _ _ _) = ''text_delta''"
| "event_name (Ev_ThinkingDelta _ _ _) = ''thinking_delta''"
| "event_name (Ev_ToolArgsDelta _ _ _) = ''tool_args_delta''"
| "event_name (Ev_ToolStarted _ _) = ''tool_started''"
| "event_name (Ev_ToolProgress _ _) = ''tool_progress''"
| "event_name (Ev_ToolFinished _ _) = ''tool_finished''"
| "event_name (Ev_ApprovalRequest _ _ _ _ _) = ''approval_request''"
| "event_name (Ev_TurnEnded _ _) = ''turn_ended''"
| "event_name (Ev_HookFailed _ _ _) = ''hook_failed''"
| "event_name (Ev_TitleChanged _) = ''title_changed''"
| "event_name (Ev_Error _) = ''error''"
| "event_name (Ev_RetryAttempt _ _ _ _ _) = ''retry_attempt''"
| "event_name (Ev_TurnStatus _ _) = ''turn_status''"
| "event_name (Ev_PluginNotification _) = ''plugin_notification''"
| "event_name (Ev_InteractionRequest _ _ _) = ''interaction_request''"
| "event_name (Ev_UiDirective _ _ _ _) = ''ui_directive''"
| "event_name (Ev_PluginDeclared _ _ _) = ''plugin_declared''"
| "event_name (Ev_PluginState _ _ _) = ''plugin_state''"

definition lf :: string where
  "lf = [CHR 0x0A]"

definition sse_frame :: "(json \<Rightarrow> string) \<Rightarrow> event \<Rightarrow> string" where
  "sse_frame text_of e =
     (let data = (case enc_event e of Some j \<Rightarrow> text_of j | None \<Rightarrow> ''{}'')
      in ''event: '' @ event_name e @ lf @ ''data: '' @ data @ lf @ lf)"

definition live_partial_frame :: "string \<Rightarrow> string" where
  "live_partial_frame partial = ''event: live_partial'' @ lf @ ''data: '' @ partial @ lf @ lf"

definition heartbeat :: string where
  "heartbeat = '': keepalive'' @ lf @ lf"

subsection \<open>The prelude\<close>

record attach_prelude =
  ap_frames :: "string list"
  ap_head :: nat
  ap_contiguous :: nat
  ap_gap :: bool

definition read_durable_since :: "msg_id \<Rightarrow> store \<Rightarrow> session_id \<Rightarrow> nat \<Rightarrow> event list \<times> nat" where
  "read_durable_since new_id st sid from =
     (case read_attach_snapshot sid from st of (payloads, head) \<Rightarrow>
        (List.map_filter (dec_event new_id) payloads, head))"

text \<open>
  The flush: \<open>evs\<close> is what \<^verbatim>\<open>try_recv\<close> handed out before it found the ring empty. The result is the
  events to forward, the watermark and whether a hole was seen.
\<close>

fun flush :: "nat \<Rightarrow> event list \<Rightarrow> nat \<Rightarrow> bool \<Rightarrow> event list \<times> nat \<times> bool" where
  "flush head [] contiguous gap = ([], contiguous, gap)"
| "flush head (e # evs) contiguous gap =
     (case seq e of
        None \<Rightarrow> (case flush head evs contiguous gap of (es, c, g) \<Rightarrow> (e # es, c, g))
      | Some n \<Rightarrow>
          if n \<le> head then flush head evs contiguous gap
          else
            (let contiguous' = (if n = contiguous + 1 then n else contiguous);
                 gap' = (gap \<or> contiguous + 1 < n)
             in case flush head evs contiguous' gap' of (es, c, g) \<Rightarrow> (e # es, c, g)))"

definition build_attach_prelude ::
  "(json \<Rightarrow> string) \<Rightarrow> msg_id \<Rightarrow> store \<Rightarrow> session_id \<Rightarrow> nat \<Rightarrow> event list \<Rightarrow> attach_prelude" where
  "build_attach_prelude text_of new_id st sid from evs =
     (case read_durable_since new_id st sid from of (durable, head) \<Rightarrow>
        (case flush head evs head False of (es, c, g) \<Rightarrow>
           \<lparr>ap_frames = map (sse_frame text_of) durable @
              (case get_live_message sid st of Some p \<Rightarrow> [live_partial_frame (text_of p)] | None \<Rightarrow> []) @
              map (sse_frame text_of) es,
            ap_head = head, ap_contiguous = c, ap_gap = g\<rparr>))"

subsection \<open>The live loop\<close>

text \<open>
  One element per iteration: what the timed receive returned, and whether the write succeeded. The
  result is the frames written and how often \<^verbatim>\<open>on_alive\<close> ran; the loop ends only at a failed write.
\<close>

fun run_live_loop :: "(json \<Rightarrow> string) \<Rightarrow> (received \<times> bool) list \<Rightarrow> string list \<times> nat" where
  "run_live_loop text_of [] = ([], 0)"
| "run_live_loop text_of ((r, ok) # rest) =
     (let frame = (case r of Received e \<Rightarrow> sse_frame text_of e | _ \<Rightarrow> heartbeat)
      in if \<not> ok then ([], 0)
         else (case run_live_loop text_of rest of (fs, n) \<Rightarrow> (frame # fs, n + 1)))"

text \<open>
  A closed ring is not distinguished from a quiet one, and answers at once: after the session's bus is
  gone the loop writes keepalives without pausing until a write fails.
\<close>

lemma live_loop_spins:
  "run_live_loop text_of (replicate k (Ended, True)) = (replicate k heartbeat, k)"
  by (induction k) simp_all

subsection \<open>Draining the ring, and the whole stream\<close>

text \<open>\<^verbatim>\<open>while let Some(ev) = sub.try_recv()\<close>, when nothing is published meanwhile.\<close>

function drain_ring :: "ring \<Rightarrow> event list \<times> ring" where
  "drain_ring r =
     (case ring_try_recv r of
        (None, r1) \<Rightarrow> ([], r1)
      | (Some e, r1) \<Rightarrow> (case drain_ring r1 of (es, r2) \<Rightarrow> (e # es, r2)))"
  by pat_completeness auto
termination
  by (relation "measure (\<lambda>r. length (rg_buf r))") (auto simp: ring_try_recv_def split: list.splits)

declare drain_ring.simps [simp del]

lemma drain_all: "drain_ring r = (rg_buf r, r\<lparr>rg_buf := []\<rparr>)"
proof (induction "rg_buf r" arbitrary: r)
  case Nil
  then show ?case by (subst drain_ring.simps) (simp add: ring_try_recv_def)
next
  case (Cons e es)
  then have "rg_buf r = e # es" "drain_ring (r\<lparr>rg_buf := es\<rparr>) = (es, r\<lparr>rg_buf := []\<rparr>)" by simp_all
  then show ?case by (subst drain_ring.simps) (simp add: ring_try_recv_def)
qed

lemma publishes_window:
  "bus_ok b \<Longrightarrow> sub_window b i = Some (n, buf) \<Longrightarrow>
   sub_window (fold publish es b) i = Some (n, last_n n (buf @ es))"
proof (induction es arbitrary: b buf)
  case Nil
  then show ?case using bus_window_bound by simp
next
  case (Cons e es)
  have "sub_window (fold publish es (publish e b)) i = Some (n, last_n n (last_n n (buf @ [e]) @ es))"
    by (rule Cons.IH) (use Cons.prems bus_ok_publish window_publish in auto)
  then show ?case by (simp add: last_n_last_n_append)
qed

text \<open>\<^verbatim>\<open>str::parse::<u64>\<close>\<close>

definition parse_u64 :: "string \<Rightarrow> nat option" where
  "parse_u64 s =
     (let ds = (case s of c # cs \<Rightarrow> if c = CHR ''+'' then cs else s | [] \<Rightarrow> []);
          n = foldl (\<lambda>n c. 10 * n + (of_char c - 48)) 0 ds
      in if ds = [] \<or> (\<exists>c \<in> set ds. (of_char c :: nat) < 48 \<or> 57 < (of_char c :: nat)) \<or> 2 ^ 64 \<le> n
         then None else Some n)"

definition gap_frame :: "nat \<Rightarrow> string" where
  "gap_frame contiguous =
     ''event: gap'' @ lf @ ''data: {\"contiguous_through\":'' @ show_nat contiguous @
     '',\"reason\":\"durable event dropped from a full subscriber ring; re-snapshot from contiguous_through\"}'' @
     lf @ lf"

text \<open>
  What \<^verbatim>\<open>handle_sse\<close> writes after the response head while the socket takes it: \<open>evs\<close> is what the flush
  drained, \<open>live\<close> the outcomes of the live loop.
\<close>

definition handle_sse ::
  "(json \<Rightarrow> string) \<Rightarrow> msg_id \<Rightarrow> store \<Rightarrow> session_id \<Rightarrow> string \<Rightarrow> event list \<Rightarrow>
   (received \<times> bool) list \<Rightarrow> string list" where
  "handle_sse text_of new_id st sid query evs live =
     (let from = (case Option.bind (query_param query ''from'') parse_u64 of Some n \<Rightarrow> n | None \<Rightarrow> 0);
          p = build_attach_prelude text_of new_id st sid from evs
      in ap_frames p @ (if ap_gap p then [gap_frame (ap_contiguous p)] else []) @
         fst (run_live_loop text_of live))"

subsection \<open>What the prelude reads\<close>

lemma map_filter_map: "List.map_filter f (map g xs) = List.map_filter (\<lambda>x. f (g x)) xs"
  by (induction xs) (simp_all add: List.map_filter_simps split: option.split)

lemma snapshot_rows:
  assumes "log_ok (st_db st) sid" and "in_i64 (int from)"
  shows "sort_key ev_seq (sql_select (\<lambda>r. wrap_i64 (int from) < int (ev_seq r)) (events_of sid (st_db st))) =
     filter (\<lambda>r. from < ev_seq r) (events_of sid (st_db st))"
proof -
  have "sorted (map ev_seq (events_of sid (st_db st)))" by (rule log_ok_sorted [OF assms(1)])
  then have "sorted (map ev_seq (filter (\<lambda>r. from < ev_seq r) (events_of sid (st_db st))))"
    by (rule sorted_map_filter)
  then show ?thesis
    using assms(2) by (simp add: sql_select_def wrap_i64_id sort_key_sorted_id)
qed

lemma seqs_since: "filter (\<lambda>n. from < n) (seqs_of_session r) = [Suc from..<Suc (s_head r)]"
proof -
  have "filter (\<lambda>n. from < n) [1..<Suc h] = [Suc from..<Suc h]" for h
    by (induction h) (auto simp: not_less le_Suc_eq)
  then show ?thesis by (simp add: seqs_of_session_def del: upt_Suc)
qed

lemma decode_rows:
  "\<forall>r \<in> set rs. row_ok r \<Longrightarrow>
   map seq (List.map_filter (\<lambda>r. dec_event new_id (ev_payload r)) rs) = map (\<lambda>r. Some (ev_seq r)) rs"
proof (induction rs)
  case (Cons r rs)
  then obtain e where "dec_event new_id (ev_payload r) = Some e" "seq e = Some (ev_seq r)"
    using row_ok_decode [of r new_id] by auto
  with Cons show ?case by (simp add: List.map_filter_simps)
qed (simp add: List.map_filter_simps)

lemma read_durable_seqs:
  assumes "db_ok (st_db st)" and "session_of sid (st_db st) = Some r" and "in_i64 (int from)"
  shows "\<exists>ds. read_durable_since new_id st sid from = (ds, s_head r) \<and>
     map seq ds = map Some [Suc from..<Suc (s_head r)]"
proof -
  let ?rows = "events_of sid (st_db st)"
  have log: "log_ok (st_db st) sid" and rows: "\<forall>x \<in> set ?rows. row_ok x"
    using assms(1) by (simp_all add: db_ok_def events_of_def sql_select_def)
  have "map ev_seq ?rows = seqs_of_session r" using log assms(2) by (simp add: log_ok_def)
  then have "map ev_seq (filter (\<lambda>x. from < ev_seq x) ?rows) = [Suc from..<Suc (s_head r)]"
    by (metis (no_types, lifting) filter_cong filter_map comp_def seqs_since)
  moreover have "map seq (List.map_filter (dec_event new_id) (map ev_payload (filter (\<lambda>x. from < ev_seq x) ?rows))) =
      map Some (map ev_seq (filter (\<lambda>x. from < ev_seq x) ?rows))"
    using decode_rows [of "filter (\<lambda>x. from < ev_seq x) ?rows" new_id] rows
    by (simp add: map_filter_map comp_def)
  ultimately show ?thesis
    using assms(2,3) by (simp add: read_durable_since_def read_attach_snapshot_def snapshot_rows [OF log] head_of_def)
qed

subsection \<open>What the flush forwards\<close>

definition durable_seqs :: "event list \<Rightarrow> nat list" where
  "durable_seqs es = List.map_filter seq es"

lemma durable_seqs_simps [simp]:
  "durable_seqs [] = []"
  "seq e = None \<Longrightarrow> durable_seqs (e # es) = durable_seqs es"
  "seq e = Some n \<Longrightarrow> durable_seqs (e # es) = n # durable_seqs es"
  by (simp_all add: durable_seqs_def List.map_filter_simps)

lemma flush_events:
  "fst (flush head evs c g) = filter (\<lambda>e. case seq e of None \<Rightarrow> True | Some n \<Rightarrow> head < n) evs"
  by (induction evs arbitrary: c g) (auto simp: Let_def case_prod_beta split: option.split)

lemma flush_gap_stays: "snd (snd (flush head evs c True))"
  by (induction evs arbitrary: c) (auto simp: Let_def case_prod_beta split: option.split)

text \<open>A gapless run of echoes, some of them already replayed, is forwarded from the head on.\<close>

lemma Cons_upt: "n # ns = [a..<b] \<longleftrightarrow> n = a \<and> a < b \<and> ns = [Suc a..<b]"
  by (auto simp: upt_conv_Cons dest: sym [of "n # ns"]) (metis list.distinct(1) list.inject upt_eq_Nil_conv upt_rec)+

lemma flush_gapless:
  assumes "durable_seqs evs = [a..<b]" and "a \<le> Suc c" and "head \<le> c"
    and "\<forall>n. head < n \<and> n \<in> set (durable_seqs evs) \<longrightarrow> c < n"
  shows "snd (flush head evs c False) = (max c (b - 1), False)"
  using assms
proof (induction evs arbitrary: a c)
  case Nil
  then have "[a..<b] = []" by simp
  then have "b \<le> a" by (auto simp: upt_eq_Nil_conv)
  with Nil.prems show ?case by auto
next
  case (Cons e evs)
  show ?case
  proof (cases "seq e")
    case None
    with Cons.prems have "durable_seqs evs = [a..<b]" "\<forall>n. head < n \<and> n \<in> set (durable_seqs evs) \<longrightarrow> c < n"
      by simp_all
    from Cons.IH [OF this(1) Cons.prems(2,3) this(2)] None show ?thesis
      by (cases "flush head evs c False") simp
  next
    case (Some n)
    with Cons.prems(1) have n: "n = a" "a < b" "durable_seqs evs = [Suc a..<b]"
      by (simp_all add: Cons_upt)
    show ?thesis
    proof (cases "n \<le> head")
      case True
      have "snd (flush head evs c False) = (max c (b - 1), False)"
        by (rule Cons.IH [OF n(3)]) (use Cons.prems n True in auto)
      with Some True show ?thesis by simp
    next
      case False
      then have "c < n" using Cons.prems(4) Some by simp
      then have "n = c + 1" using Cons.prems(2) n by simp
      have "snd (flush head evs (c + 1) False) = (max (c + 1) (b - 1), False)"
        by (rule Cons.IH [OF n(3)]) (use Cons.prems(3) n \<open>n = c + 1\<close> in auto)
      with Some False \<open>n = c + 1\<close> n show ?thesis by (auto split: prod.splits)
    qed
  qed
qed

text \<open>No flag, no hole: what is forwarded above the head is exactly what lies below the watermark.\<close>

lemma flush_no_gap:
  assumes "flush head evs c False = (es, c', False)" and "head \<le> c"
  shows "c \<le> c' \<and> {n \<in> set (durable_seqs es). c < n} = {c<..c'}"
  using assms
proof (induction evs arbitrary: c es)
  case (Cons e evs)
  show ?case
  proof (cases "seq e")
    case None
    obtain es1 where "flush head evs c False = (es1, c', False)" "es = e # es1"
      using Cons.prems(1) None by (auto split: prod.splits)
    with Cons.IH [of c es1] Cons.prems(2) None show ?thesis by simp
  next
    case (Some n)
    show ?thesis
    proof (cases "n \<le> head")
      case True
      with Cons Some show ?thesis by auto
    next
      case False
      define c1 where "c1 = (if n = c + 1 then n else c)"
      obtain es1 where f: "flush head evs c1 (c + 1 < n) = (es1, c', False)" "es = e # es1"
        using Cons.prems(1) Some False by (auto simp: c1_def Let_def split: prod.splits)
      then have n: "n \<le> c + 1" using flush_gap_stays [of head evs c1] by (metis not_le snd_conv)
      have ih: "c1 \<le> c' \<and> {m \<in> set (durable_seqs es1). c1 < m} = {c1<..c'}"
        by (rule Cons.IH) (use f n Cons.prems(2) in \<open>auto simp: c1_def\<close>)
      show ?thesis
      proof (cases "n = c + 1")
        case True
        then have le: "c + 1 \<le> c'" and D: "{m \<in> set (durable_seqs es1). c + 1 < m} = {c + 1<..c'}"
          using ih by (simp_all add: c1_def)
        have "{m \<in> insert (c + 1) A. c < m} = insert (c + 1) {m \<in> A. c + 1 < m}" for A :: "nat set"
          by auto
        moreover have "insert (c + 1) {c + 1<..c'} = {c<..c'}" using le by auto
        ultimately show ?thesis using D le Some f(2) True by simp
      next
        case False
        with n have "n \<le> c" and "c1 = c" by (simp_all add: c1_def)
        then have "{m \<in> insert n (set (durable_seqs es1)). c < m} = {m \<in> set (durable_seqs es1). c < m}"
          by auto
        with ih Some f(2) \<open>c1 = c\<close> show ?thesis by simp
      qed
    qed
  qed
qed simp

subsection \<open>The prelude is the log\<close>

lemma take_upt_min: "take k [1..<Suc h] = [1..<1 + min k h]"
  by (cases "k \<le> h") (simp_all add: take_upt min_def del: upt_Suc)

lemma filter_above:
  assumes "map f xs = [1..<Suc h]"
  shows "filter (\<lambda>x. k < f x) xs = drop k xs"
proof -
  have t: "map f (take k xs) = take k [1..<Suc h]" and d: "map f (drop k xs) = drop k [1..<Suc h]"
    using assms by (simp_all only: take_map [symmetric] drop_map [symmetric])
  have "\<not> k < f x" if "x \<in> set (take k xs)" for x
  proof -
    have "f x \<in> set (map f (take k xs))" using that by simp
    then have "f x \<in> set (take k [1..<Suc h])" by (simp only: t)
    then have "f x \<in> set [1..<1 + min k h]" by (simp only: take_upt_min)
    then show ?thesis by auto
  qed
  moreover have "k < f x" if "x \<in> set (drop k xs)" for x
  proof -
    have "f x \<in> set (map f (drop k xs))" using that by simp
    then have "f x \<in> set (drop k [1..<Suc h])" by (simp only: d)
    then show ?thesis by (auto simp del: upt_Suc)
  qed
  ultimately have "filter (\<lambda>x. k < f x) (take k xs @ drop k xs) = drop k xs"
    by (simp only: filter_append) (simp add: filter_empty_conv)
  then show ?thesis by simp
qed

lemma map_filter_guard:
  "List.map_filter (\<lambda>x. if p x then None else f x) xs = List.map_filter f (filter (\<lambda>x. \<not> p x) xs)"
  by (induction xs) (auto simp add: List.map_filter_simps split: option.split)

lemma map_filter_total: "\<forall>x \<in> set xs. f x = g x \<and> g x \<noteq> None \<Longrightarrow> List.map_filter f xs = map (\<lambda>x. the (g x)) xs"
  by (induction xs) (auto simp add: List.map_filter_simps)

lemma read_durable_log:
  assumes "store_inv (durable_db st)" and "st_txn st = None" and "store_log st sid = Some es"
    and "in_i64 (int from)"
  shows "read_durable_since new_id st sid from = (drop from es, length es)"
proof -
  let ?rows = "events_of sid (st_db st)" and ?dec = "\<lambda>n r. dec_event n (ev_payload r)"
  let ?rows1 = "filter (\<lambda>r. ev_seq r \<noteq> 0) ?rows"
  have d: "durable_db st = st_db st" using assms(2) by (simp add: durable_db_def)
  have log: "log_ok (st_db st) sid" and rows: "\<forall>x \<in> set ?rows. row_ok x"
    using assms(1) d by (simp_all add: store_inv_def db_ok_def events_of_def sql_select_def)
  obtain r where r: "session_of sid (st_db st) = Some r" using assms(3) d by (auto simp: store_log_def)
  have "map ev_seq ?rows = seqs_of_session r" using log r by (simp add: log_ok_def)
  then have s1: "map ev_seq ?rows1 = [1..<Suc (s_head r)]"
    by (metis (no_types, lifting) filter_cong filter_map comp_def filter_seqs)
  have dec: "?dec n x = ?dec [] x" if "x \<in> set ?rows" for n x
  proof -
    have "row_ok x" using that rows by blast
    then obtain e where "event_in_range e" "enc_event e = Some (ev_payload x)" by (auto simp: row_ok_def)
    then have "?dec m x = Some e" for m by (rule dec_enc_event)
    then show ?thesis by simp
  qed
  have "length es = s_head r"
    using store_log_length [OF assms(1,3)] d r by (simp add: head_of_def)
  have some: "\<forall>x \<in> set ?rows1. ?dec [] x \<noteq> None" using rows row_ok_decode by fastforce
  have "es = List.map_filter (?dec []) ?rows1"
    using assms(3) d r by (auto simp: store_log_def map_filter_guard)
  then have lg: "es = map (\<lambda>x. the (?dec [] x)) ?rows1"
    using map_filter_total [of ?rows1 "?dec []" "?dec []"] some by blast
  have "filter (\<lambda>x. from < ev_seq x) ?rows = filter (\<lambda>x. from < ev_seq x) ?rows1"
    by (auto intro: filter_cong)
  also have "\<dots> = drop from ?rows1" by (rule filter_above [OF s1])
  finally have dr: "filter (\<lambda>x. from < ev_seq x) ?rows = drop from ?rows1" .
  have "List.map_filter (?dec new_id) (drop from ?rows1) = map (\<lambda>x. the (?dec [] x)) (drop from ?rows1)"
  proof (rule map_filter_total)
    show "\<forall>x \<in> set (drop from ?rows1). ?dec new_id x = ?dec [] x \<and> ?dec [] x \<noteq> None"
      using dec some by (meson filter_is_subset in_set_dropD subsetD)
  qed
  with dr lg \<open>length es = s_head r\<close> r assms(4) show ?thesis
    by (simp add: read_durable_since_def read_attach_snapshot_def snapshot_rows [OF log] head_of_def
        map_filter_map drop_map)
qed

end
