(* ===== verification/Server_Turns.thy ===== *)
theory Server_Turns
  imports Core_Bus Store_Live Store_System "HOL-Library.AList"
begin

text \<open>
  Which turn runs where: \<^verbatim>\<open>TurnSlot\<close> and the registration in \<^verbatim>\<open>ServerState::aborts\<close>
  (\<^verbatim>\<open>kn9t-server/src/turn.rs\<close>), \<^verbatim>\<open>IdleTracker\<close> and the steering queue (\<^verbatim>\<open>state.rs\<close>), the buses of the
  sessions and the sink a turn emits into (\<^verbatim>\<open>bus.rs\<close>). Each function runs under one mutex and is one
  step. The counters of the idle tracker are 64 bits wide and wrap as \<^verbatim>\<open>AtomicU64\<close> does; the turn
  counter is not wrapped.
\<close>

subsection \<open>Idle accounting\<close>

record idle_tracker =
  it_attached :: "64 word"
  it_running :: "64 word"
  it_last :: nat
  it_exit :: nat

definition idle_new :: "nat \<Rightarrow> nat \<Rightarrow> idle_tracker" where
  "idle_new now period = \<lparr>it_attached = 0, it_running = 0, it_last = now, it_exit = period\<rparr>"

definition idle_touch :: "nat \<Rightarrow> idle_tracker \<Rightarrow> idle_tracker" where
  "idle_touch now t = t\<lparr>it_last := now\<rparr>"

definition client_attached :: "nat \<Rightarrow> idle_tracker \<Rightarrow> idle_tracker" where
  "client_attached now t = idle_touch now (t\<lparr>it_attached := it_attached t + 1\<rparr>)"

definition client_detached :: "nat \<Rightarrow> idle_tracker \<Rightarrow> idle_tracker" where
  "client_detached now t = idle_touch now (t\<lparr>it_attached := it_attached t - 1\<rparr>)"

definition turn_started :: "nat \<Rightarrow> idle_tracker \<Rightarrow> idle_tracker" where
  "turn_started now t = idle_touch now (t\<lparr>it_running := it_running t + 1\<rparr>)"

definition turn_ended :: "nat \<Rightarrow> idle_tracker \<Rightarrow> idle_tracker" where
  "turn_ended now t = idle_touch now (t\<lparr>it_running := it_running t - 1\<rparr>)"

definition should_exit :: "nat \<Rightarrow> idle_tracker \<Rightarrow> bool" where
  "should_exit now t \<longleftrightarrow>
     it_exit t \<noteq> 0 \<and> it_attached t = 0 \<and> it_running t = 0 \<and> it_exit t \<le> now - it_last t"

subsection \<open>The registration of turns\<close>

text \<open>
  \<open>tu_aborts\<close> maps a session to the id and the cancel token of its turn; \<open>tu_flags\<close> are the tokens'
  flags, by address, since the clones of a token share one.
\<close>

record turns =
  tu_aborts :: "session_id \<rightharpoonup> nat \<times> nat"
  tu_flags :: "nat \<Rightarrow> bool"
  tu_fresh :: nat
  tu_next :: nat
  tu_idle :: idle_tracker
  tu_steering :: "session_id \<rightharpoonup> message list"

record turn_slot =
  tn_session :: session_id
  tn_id :: nat
  tn_cancel :: nat

definition turns_new :: "nat \<Rightarrow> nat \<Rightarrow> turns" where
  "turns_new now period =
     \<lparr>tu_aborts = (\<lambda>_. None), tu_flags = (\<lambda>_. False), tu_fresh = 0, tu_next = 1,
      tu_idle = idle_new now period, tu_steering = (\<lambda>_. None)\<rparr>"

definition cancel_new :: "turns \<Rightarrow> nat \<times> turns" where
  "cancel_new st =
     (tu_fresh st, st\<lparr>tu_flags := (tu_flags st)(tu_fresh st := False), tu_fresh := tu_fresh st + 1\<rparr>)"

definition register_with :: "nat \<Rightarrow> session_id \<Rightarrow> nat \<Rightarrow> turns \<Rightarrow> turn_slot \<times> turns" where
  "register_with now sid c st =
     (let i = tu_next st
      in (\<lparr>tn_session = sid, tn_id = i, tn_cancel = c\<rparr>,
          st\<lparr>tu_next := i + 1, tu_aborts := (tu_aborts st)(sid \<mapsto> (i, c)),
             tu_idle := turn_started now (tu_idle st)\<rparr>))"

definition register :: "nat \<Rightarrow> session_id \<Rightarrow> turns \<Rightarrow> turn_slot \<times> turns" where
  "register now sid st = (case cancel_new st of (c, st1) \<Rightarrow> register_with now sid c st1)"

definition release_turn :: "session_id \<Rightarrow> nat \<Rightarrow> turns \<Rightarrow> turns" where
  "release_turn sid i st =
     (case tu_aborts st sid of
        Some (cur, _) \<Rightarrow> if cur = i then st\<lparr>tu_aborts := (tu_aborts st)(sid := None)\<rparr> else st
      | None \<Rightarrow> st)"

definition drop_slot :: "nat \<Rightarrow> turn_slot \<Rightarrow> turns \<Rightarrow> turns" where
  "drop_slot now s st =
     (let st1 = release_turn (tn_session s) (tn_id s) st
      in st1\<lparr>tu_idle := turn_ended now (tu_idle st1)\<rparr>)"

definition is_turn_running :: "session_id \<Rightarrow> turns \<Rightarrow> bool" where
  "is_turn_running sid st \<longleftrightarrow> tu_aborts st sid \<noteq> None"

definition abort_turn :: "session_id \<Rightarrow> nat option \<Rightarrow> turns \<Rightarrow> turns" where
  "abort_turn sid want st =
     (case tu_aborts st sid of
        Some (i, c) \<Rightarrow>
          if want = None \<or> want = Some i then st\<lparr>tu_flags := (tu_flags st)(c := True)\<rparr> else st
      | None \<Rightarrow> st)"

definition running_turn_id :: "session_id \<Rightarrow> turns \<Rightarrow> nat option" where
  "running_turn_id sid st = map_option fst (tu_aborts st sid)"

definition get_cancel :: "session_id \<Rightarrow> turns \<Rightarrow> nat option" where
  "get_cancel sid st = map_option snd (tu_aborts st sid)"

definition queue_steering :: "session_id \<Rightarrow> message \<Rightarrow> turns \<Rightarrow> turns" where
  "queue_steering sid m st =
     st\<lparr>tu_steering := (tu_steering st)(sid \<mapsto> (case tu_steering st sid of Some ms \<Rightarrow> ms | None \<Rightarrow> []) @ [m])\<rparr>"

definition drain_steering :: "session_id \<Rightarrow> turns \<Rightarrow> message list \<times> turns" where
  "drain_steering sid st =
     (case tu_steering st sid of Some ms \<Rightarrow> ms | None \<Rightarrow> [], st\<lparr>tu_steering := (tu_steering st)(sid := None)\<rparr>)"

text \<open>The \<^verbatim>\<open>TurnFinishing\<close> interception of the sink: it releases whatever turn is registered now.\<close>

definition release_running :: "session_id \<Rightarrow> turns \<Rightarrow> turns" where
  "release_running sid st =
     (case running_turn_id sid st of Some i \<Rightarrow> release_turn sid i st | None \<Rightarrow> st)"

subsection \<open>Histories\<close>

text \<open>The states of a server with the slots that are alive, the newest first.\<close>

inductive turns_run :: "turn_slot list \<Rightarrow> turns \<Rightarrow> bool" where
  turns_start: "turns_run [] (turns_new now period)"
| turns_register: "turns_run live st \<Longrightarrow> register now sid st = (s, st') \<Longrightarrow> turns_run (s # live) st'"
| turns_adopt: "turns_run live st \<Longrightarrow> register_with now sid c st = (s, st') \<Longrightarrow> turns_run (s # live) st'"
| turns_cancel: "turns_run live st \<Longrightarrow> turns_run live (snd (cancel_new st))"
| turns_drop: "turns_run live st \<Longrightarrow> s \<in> set live \<Longrightarrow> turns_run (remove1 s live) (drop_slot now s st)"
| turns_finishing: "turns_run live st \<Longrightarrow> turns_run live (release_running sid st)"
| turns_abort: "turns_run live st \<Longrightarrow> turns_run live (abort_turn sid want st)"
| turns_steer: "turns_run live st \<Longrightarrow> turns_run live (queue_steering sid m st)"
| turns_drain: "turns_run live st \<Longrightarrow> turns_run live (snd (drain_steering sid st))"
| turns_attach: "turns_run live st \<Longrightarrow> turns_run live (st\<lparr>tu_idle := client_attached now (tu_idle st)\<rparr>)"
| turns_detach: "turns_run live st \<Longrightarrow> turns_run live (st\<lparr>tu_idle := client_detached now (tu_idle st)\<rparr>)"
| turns_touch: "turns_run live st \<Longrightarrow> turns_run live (st\<lparr>tu_idle := idle_touch now (tu_idle st)\<rparr>)"

definition turns_inv :: "turn_slot list \<Rightarrow> turns \<Rightarrow> bool" where
  "turns_inv live st \<longleftrightarrow>
     distinct (map tn_id live) \<and> (\<forall>s \<in> set live. tn_id s < tu_next st) \<and>
     it_running (tu_idle st) = of_nat (length live) \<and>
     (\<forall>sid i c. tu_aborts st sid = Some (i, c) \<longrightarrow>
        \<lparr>tn_session = sid, tn_id = i, tn_cancel = c\<rparr> \<in> set live)"

lemmas idle_defs = idle_touch_def client_attached_def client_detached_def turn_started_def turn_ended_def

lemma release_turn_frame [simp]:
  "tu_idle (release_turn sid i st) = tu_idle st" "tu_next (release_turn sid i st) = tu_next st"
  "tu_flags (release_turn sid i st) = tu_flags st"
  "tu_aborts (release_turn sid i st) =
     (if running_turn_id sid st = Some i then (tu_aborts st)(sid := None) else tu_aborts st)"
  by (auto simp: release_turn_def running_turn_id_def split: option.split prod.split)

lemma turns_inv_cong:
  assumes "turns_inv live st" and "tu_next st' = tu_next st" and "it_running (tu_idle st') = it_running (tu_idle st)"
    and "\<And>sid x. tu_aborts st' sid = Some x \<Longrightarrow> tu_aborts st sid = Some x"
  shows "turns_inv live st'"
  using assms unfolding turns_inv_def by auto

lemma turns_inv_register_with:
  assumes "turns_inv live st" and "register_with now sid c st = (s, st')"
  shows "turns_inv (s # live) st'"
  using assms
  by (auto simp: turns_inv_def register_with_def Let_def idle_defs less_Suc_eq add.commute split: if_splits)

lemma turns_inv_drop:
  assumes inv: "turns_inv live st" and s: "s \<in> set live"
  shows "turns_inv (remove1 s live) (drop_slot now s st)"
proof -
  have d: "distinct live" using inv by (simp add: turns_inv_def distinct_map)
  have "of_nat (length (remove1 s live)) = (of_nat (length live) - 1 :: 64 word)"
  proof -
    have "length live = Suc (length (remove1 s live))" using length_remove1 [of s live] s by (cases live) auto
    then show ?thesis by simp
  qed
  moreover have "distinct (map tn_id (remove1 s live))"
    using inv by (simp add: turns_inv_def distinct_map d inj_on_def)
  moreover have "\<lparr>tn_session = sid, tn_id = i, tn_cancel = c\<rparr> \<in> set (remove1 s live)"
    if "tu_aborts (drop_slot now s st) sid = Some (i, c)" for sid i c
  proof -
    have "tu_aborts st sid = Some (i, c)" and "\<not> (sid = tn_session s \<and> i = tn_id s)"
      using that by (auto simp: drop_slot_def Let_def running_turn_id_def split: if_splits)
    then show ?thesis using inv d by (auto simp: turns_inv_def)
  qed
  ultimately show ?thesis
    using inv d by (auto simp: turns_inv_def drop_slot_def Let_def idle_defs)
qed

lemma turns_run_inv: "turns_run live st \<Longrightarrow> turns_inv live st"
proof (induction rule: turns_run.induct)
  case (turns_start now period)
  then show ?case by (simp add: turns_inv_def turns_new_def idle_new_def)
next
  case (turns_register live st now sid s st')
  have "turns_inv live (snd (cancel_new st))"
    by (rule turns_inv_cong [OF turns_register.IH]) (simp_all add: cancel_new_def)
  with turns_register.hyps(2) turns_inv_register_with show ?case
    by (auto simp: register_def split: prod.splits)
next
  case (turns_adopt live st now sid c s st')
  then show ?case by (blast intro: turns_inv_register_with)
next
  case (turns_drop live st s now)
  then show ?case by (blast intro: turns_inv_drop)
qed (erule turns_inv_cong;
      auto simp: cancel_new_def release_running_def abort_turn_def queue_steering_def drain_steering_def
        idle_defs split: option.splits prod.splits if_splits)+

subsection \<open>The buses of the sessions\<close>

text \<open>
  A bus is shared by the registry, by the sinks of running turns and, through their rings, by the
  clients: \<open>sb_heap\<close> holds the buses, \<open>sb_map\<close> says which one a session has.
\<close>

record session_buses =
  sb_map :: "(session_id \<times> nat) list"
  sb_heap :: "nat \<Rightarrow> bus"
  sb_fresh :: nat

definition buses_new :: session_buses where
  "buses_new = \<lparr>sb_map = [], sb_heap = (\<lambda>_. bus_new), sb_fresh = 0\<rparr>"

definition bus_for :: "session_id \<Rightarrow> session_buses \<Rightarrow> nat \<times> session_buses" where
  "bus_for sid b =
     (case map_of (sb_map b) sid of
        Some a \<Rightarrow> (a, b)
      | None \<Rightarrow>
          (sb_fresh b,
           \<lparr>sb_map = sb_map b @ [(sid, sb_fresh b)],
            sb_heap = (sb_heap b)(sb_fresh b := bus_new), sb_fresh = sb_fresh b + 1\<rparr>))"

definition buses_subscribe :: "session_id \<Rightarrow> nat \<Rightarrow> session_buses \<Rightarrow> (nat \<times> nat) \<times> session_buses" where
  "buses_subscribe sid capacity b =
     (case bus_for sid b of (a, b1) \<Rightarrow>
        (case subscribe capacity (sb_heap b1 a) of (i, bus1) \<Rightarrow>
           ((a, i), b1\<lparr>sb_heap := (sb_heap b1)(a := bus1)\<rparr>)))"

definition buses_publish :: "session_id \<Rightarrow> event \<Rightarrow> session_buses \<Rightarrow> session_buses" where
  "buses_publish sid e b =
     (case bus_for sid b of (a, b1) \<Rightarrow>
        b1\<lparr>sb_heap := (sb_heap b1)(a := publish e (sb_heap b1 a))\<rparr>)"

text \<open>\<open>held\<close>: some sink still has the bus, so that it is not dropped with the entry.\<close>

definition buses_drop_session :: "bool \<Rightarrow> session_id \<Rightarrow> session_buses \<Rightarrow> session_buses" where
  "buses_drop_session held sid b =
     (case map_of (sb_map b) sid of
        None \<Rightarrow> b
      | Some a \<Rightarrow>
          b\<lparr>sb_map := AList.delete sid (sb_map b),
            sb_heap := (if held then sb_heap b else (sb_heap b)(a := bus_drop (sb_heap b a)))\<rparr>)"

definition broadcast_all :: "event \<Rightarrow> session_buses \<Rightarrow> session_buses" where
  "broadcast_all e b =
     fold (\<lambda>(sid, a) b. b\<lparr>sb_heap := (sb_heap b)(a := publish e (sb_heap b a))\<rparr>) (sb_map b) b"

definition buses_ok :: "session_buses \<Rightarrow> bool" where
  "buses_ok b \<longleftrightarrow>
     distinct (map fst (sb_map b)) \<and> distinct (map snd (sb_map b)) \<and>
     (\<forall>a \<in> snd ` set (sb_map b). a < sb_fresh b) \<and> (\<forall>a. bus_ok (sb_heap b a))"

text \<open>What a client of session \<open>sid\<close> with ring \<open>i\<close> has been sent and not yet read.\<close>

definition session_window :: "session_id \<Rightarrow> nat \<Rightarrow> session_buses \<Rightarrow> (nat \<times> event list) option" where
  "session_window sid i b =
     (case map_of (sb_map b) sid of Some a \<Rightarrow> sub_window (sb_heap b a) i | None \<Rightarrow> None)"

lemma bus_for_ok:
  assumes "buses_ok b"
  shows "buses_ok (snd (bus_for sid b)) \<and> map_of (sb_map (snd (bus_for sid b))) sid = Some (fst (bus_for sid b)) \<and>
    (\<forall>s i w. session_window s i b = Some w \<longrightarrow> session_window s i (snd (bus_for sid b)) = Some w)"
proof (cases "map_of (sb_map b) sid")
  case None
  then have "sid \<notin> fst ` set (sb_map b)" by (simp add: map_of_eq_None_iff)
  moreover have "sb_fresh b \<notin> snd ` set (sb_map b)" using assms by (auto simp: buses_ok_def)
  ultimately show ?thesis
    using assms None
    by (auto simp: buses_ok_def bus_for_def bus_ok_new map_add_def session_window_def less_Suc_eq
        split: option.splits if_splits dest!: map_of_SomeD)
qed (use assms in \<open>simp add: bus_for_def\<close>)

lemma map_of_inj:
  "distinct (map snd xs) \<Longrightarrow> map_of xs s = Some a \<Longrightarrow> map_of xs t = Some a \<Longrightarrow> s = t"
  by (induction xs) (auto split: if_splits dest: map_of_SomeD simp: rev_image_eqI)

text \<open>Publishing to one session shows the event to its clients and to nobody else.\<close>

lemma buses_publish_window:
  assumes ok: "buses_ok b" and w: "session_window s i b = Some (n, buf)"
  shows "session_window s i (buses_publish sid e b) =
    Some (n, if s = sid then last_n n (buf @ [e]) else buf)"
proof -
  obtain a b1 where b1: "bus_for sid b = (a, b1)" by force
  with bus_for_ok [OF ok, of sid] w
  have ok1: "buses_ok b1" and a: "map_of (sb_map b1) sid = Some a" and w1: "session_window s i b1 = Some (n, buf)"
    by auto
  then obtain a' where a': "map_of (sb_map b1) s = Some a'" "sub_window (sb_heap b1 a') i = Some (n, buf)"
    by (auto simp: session_window_def split: option.splits)
  have "s = sid \<longleftrightarrow> a' = a"
  proof
    assume "s = sid"
    with a a'(1) show "a' = a" by simp
  next
    assume "a' = a"
    with a a'(1) map_of_inj [of "sb_map b1" s a sid] ok1 show "s = sid" by (simp add: buses_ok_def)
  qed
  with a' b1 window_publish [of "sb_heap b1 a" i n buf e] ok1 show ?thesis
    by (auto simp: buses_publish_def session_window_def buses_ok_def)
qed

lemma buses_publish_ok: "buses_ok b \<Longrightarrow> buses_ok (buses_publish sid e b)"
proof -
  assume "buses_ok b"
  then have "buses_ok (snd (bus_for sid b))" using bus_for_ok by blast
  then show ?thesis
    by (cases "bus_for sid b") (simp add: buses_publish_def buses_ok_def bus_ok_publish)
qed

lemma broadcast_heap:
  "distinct (map snd m) \<Longrightarrow>
   sb_heap (fold (\<lambda>(sid, a) b. b\<lparr>sb_heap := (sb_heap b)(a := publish e (sb_heap b a))\<rparr>) m b) a =
     (if a \<in> snd ` set m then publish e (sb_heap b a) else sb_heap b a)"
proof (induction m arbitrary: b)
  case (Cons x m)
  obtain sid a' where "x = (sid, a')" by (cases x)
  with Cons show ?case by (cases "a' = a") (auto simp: image_iff)
qed simp

lemma broadcast_map: "sb_map (fold (\<lambda>(sid, a) b. b\<lparr>sb_heap := (sb_heap b)(a := publish e (sb_heap b a))\<rparr>) m b) = sb_map b"
  by (induction m arbitrary: b) auto

lemma broadcast_all_window:
  assumes "buses_ok b" and "session_window s i b = Some (n, buf)"
  shows "session_window s i (broadcast_all e b) = Some (n, last_n n (buf @ [e]))"
proof -
  from assms(2) obtain a where a: "map_of (sb_map b) s = Some a" "sub_window (sb_heap b a) i = Some (n, buf)"
    by (auto simp: session_window_def split: option.splits)
  then have "a \<in> snd ` set (sb_map b)" by (force dest: map_of_SomeD)
  with assms(1) a window_publish [of "sb_heap b a" i n buf e] show ?thesis
    by (simp add: session_window_def broadcast_all_def broadcast_map broadcast_heap buses_ok_def)
qed

subsection \<open>The sink of a turn\<close>

record sink_state =
  ss_turns :: turns
  ss_store :: store
  ss_bus :: bus

text \<open>Failures of the scratch writes are ignored.\<close>

definition salvage :: "int \<Rightarrow> session_id \<Rightarrow> live_event \<Rightarrow> store \<Rightarrow> store" where
  "salvage now sid l st =
     (case l of
        ToolStarted cid tool \<Rightarrow> snd (begin_live_tool_call now sid cid tool st)
      | ToolProgress cid progress \<Rightarrow> append_live_tool_progress now sid cid progress st
      | _ \<Rightarrow> st)"

definition sink_emit :: "int \<Rightarrow> session_id \<Rightarrow> live_event \<Rightarrow> sink_state \<Rightarrow> sink_state" where
  "sink_emit now sid l s =
     (if (case l of TurnFinishing _ _ \<Rightarrow> True | _ \<Rightarrow> False)
      then s\<lparr>ss_turns := release_running sid (ss_turns s)\<rparr>
      else
        (let s1 = s\<lparr>ss_store := salvage now sid l (ss_store s)\<rparr>
         in case to_observable_event l of
              Some e \<Rightarrow> s1\<lparr>ss_bus := publish e (ss_bus s1)\<rparr>
            | None \<Rightarrow> s1))"

interpretation sessink: event_sink "sink_emit now sid" "\<lambda>s. sub_window (ss_bus s)" "\<lambda>s. bus_ok (ss_bus s)"
  for now sid
proof
  fix s :: sink_state and l i n buf
  assume ok: "bus_ok (ss_bus s)"
  then show "bus_ok (ss_bus (sink_emit now sid l s))"
    by (auto simp: sink_emit_def Let_def bus_ok_publish split: option.split)
  assume w: "sub_window (ss_bus s) i = Some (n, buf)"
  with ok show "length buf \<le> n" by (rule bus_window_bound)
  show "sub_window (ss_bus (sink_emit now sid l s)) i = Some (n, last_n n (buf @ observable l))"
    using ok w window_publish bus_window_bound
    by (auto simp: sink_emit_def Let_def observable_def to_observable_event_def is_internal_def
        split: option.split live_event.splits)
qed

end
