(* ===== verification/Server_Slots.thy ===== *)
theory Server_Slots
  imports Prelude
begin

text \<open>
  The one-shot question both registries of the server are made of (\<^verbatim>\<open>policy.rs\<close>, \<^verbatim>\<open>interaction.rs\<close>): a
  table from an id to a slot, shared by the thread that waits and the request that answers. The
  waiting thread keeps the slot itself (an \<^verbatim>\<open>Arc\<close>), so a slot outlives its entry in the table:
  \<open>sl_table\<close> maps ids to addresses, \<open>sl_cells\<close> addresses to what was answered.
\<close>

record 'v slots =
  sl_table :: "nat \<rightharpoonup> nat"
  sl_cells :: "nat \<Rightarrow> 'v option"
  sl_fresh :: nat

definition slots_new :: "'v slots" where
  "slots_new = \<lparr>sl_table = (\<lambda>_. None), sl_cells = (\<lambda>_. None), sl_fresh = 0\<rparr>"

definition slot_create :: "nat \<Rightarrow> 'v slots \<Rightarrow> nat \<times> 'v slots" where
  "slot_create i t =
     (sl_fresh t,
      \<lparr>sl_table = (sl_table t)(i \<mapsto> sl_fresh t), sl_cells = (sl_cells t)(sl_fresh t := None),
       sl_fresh = sl_fresh t + 1\<rparr>)"

definition slot_remove :: "nat \<Rightarrow> 'v slots \<Rightarrow> 'v slots" where
  "slot_remove i t = t\<lparr>sl_table := (sl_table t)(i := None)\<rparr>"

definition slot_resolve :: "nat \<Rightarrow> 'v \<Rightarrow> 'v slots \<Rightarrow> bool \<times> 'v slots" where
  "slot_resolve i v t =
     (case sl_table t i of
        Some a \<Rightarrow> (True, t\<lparr>sl_cells := (sl_cells t)(a \<mapsto> v)\<rparr>)
      | None \<Rightarrow> (False, t))"

subsection \<open>Waiting\<close>

datatype 'v polled = Answered 'v | Cancelled | Expired

text \<open>
  One element per iteration of the loop: what other threads did since the last one, whether the turn
  is cancelled, and the time. The result is the outcome and the state then, or \<open>None\<close> while the loop
  still runs. An answer is looked at first, the cancel flag next, the deadline last.
\<close>

record 'o poll =
  po_ops :: "'o list"
  po_cancelled :: bool
  po_now :: nat

definition past :: "nat option \<Rightarrow> nat \<Rightarrow> bool" where
  "past expires now \<longleftrightarrow> (case expires of Some t \<Rightarrow> t \<le> now | None \<Rightarrow> False)"

fun slot_wait ::
  "('o \<Rightarrow> 's \<Rightarrow> 's) \<Rightarrow> ('s \<Rightarrow> 'v slots) \<Rightarrow> nat \<Rightarrow> nat option \<Rightarrow> 'o poll list \<Rightarrow> 's \<Rightarrow> ('v polled \<times> 's) option" where
  "slot_wait act slots_of a expires [] s = None"
| "slot_wait act slots_of a expires (p # ps) s =
     (let s1 = fold act (po_ops p) s
      in case sl_cells (slots_of s1) a of
           Some v \<Rightarrow> Some (Answered v, s1)
         | None \<Rightarrow>
             if po_cancelled p then Some (Cancelled, s1)
             else if past expires (po_now p) then Some (Expired, s1)
             else slot_wait act slots_of a expires ps s1)"

lemma slot_wait_returns:
  "\<exists>p \<in> set ps. po_cancelled p \<or> past expires (po_now p) \<Longrightarrow> slot_wait act slots_of a expires ps s \<noteq> None"
  by (induction ps arbitrary: s) (auto simp: Let_def split: option.split)

subsection \<open>What a table of slots promises\<close>

text \<open>Ids below \<open>n\<close> are taken; no two entries share a slot.\<close>

definition slots_ok :: "nat \<Rightarrow> 'v slots \<Rightarrow> bool" where
  "slots_ok n t \<longleftrightarrow>
     (\<forall>i a. sl_table t i = Some a \<longrightarrow> i < n \<and> a < sl_fresh t) \<and>
     (\<forall>i j a. sl_table t i = Some a \<and> sl_table t j = Some a \<longrightarrow> i = j)"

text \<open>The slot at \<open>a\<close> is the one question \<open>i\<close> waits at, or has left the table.\<close>

definition owned :: "nat \<Rightarrow> nat \<Rightarrow> nat \<Rightarrow> 'v slots \<Rightarrow> bool" where
  "owned n i a t \<longleftrightarrow> i < n \<and> a < sl_fresh t \<and> (\<forall>j. sl_table t j = Some a \<longrightarrow> j = i)"

definition slot_change :: "(nat \<Rightarrow> 'v \<Rightarrow> bool) \<Rightarrow> nat \<Rightarrow> 'v slots \<Rightarrow> nat \<Rightarrow> 'v slots \<Rightarrow> bool" where
  "slot_change ans n t m u \<longleftrightarrow>
     (n \<le> m \<and> u = t) \<or> (m = n \<and> (\<exists>i v. ans i v \<and> u = snd (slot_resolve i v t))) \<or>
     (m = n \<and> (\<exists>i. u = slot_remove i t)) \<or> (m = n + 1 \<and> u = snd (slot_create n t))"

lemma slot_change_ok:
  assumes "slot_change ans n t m u" and "slots_ok n t"
  shows "slots_ok m u"
  using assms unfolding slot_change_def slots_ok_def
  by (elim disjE conjE exE)
    (force simp: slot_resolve_def slot_remove_def slot_create_def split: option.splits if_splits)+

lemma slot_change_owned:
  assumes "slot_change ans n t m u" and "owned n i a t"
  shows "owned m i a u \<and> (sl_cells u a = sl_cells t a \<or> (\<exists>v. sl_cells u a = Some v \<and> ans i v))"
  using assms unfolding slot_change_def owned_def
  by (elim disjE conjE exE)
    (auto simp: slot_resolve_def slot_remove_def slot_create_def split: option.splits if_splits)

text \<open>
  A registry: a state with a table of slots and a counter of ids, and operations each of which changes
  the table by one slot operation at most. \<open>answers\<close> says which answer an operation gives to which id.
\<close>

locale ask_registry =
  fixes act :: "'o \<Rightarrow> 's \<Rightarrow> 's"
    and slots_of :: "'s \<Rightarrow> 'v slots"
    and next_id :: "'s \<Rightarrow> nat"
    and answers :: "'o \<Rightarrow> nat \<Rightarrow> 'v \<Rightarrow> bool"
  assumes act_changes: "slot_change (answers op) (next_id s) (slots_of s) (next_id (act op s)) (slots_of (act op s))"
begin

lemma acts_ok: "slots_ok (next_id s) (slots_of s) \<Longrightarrow> slots_ok (next_id (fold act ops s)) (slots_of (fold act ops s))"
  by (induction ops arbitrary: s) (auto intro: slot_change_ok [OF act_changes])

lemma acts_owned:
  "owned (next_id s) i a (slots_of s) \<Longrightarrow>
   owned (next_id (fold act ops s)) i a (slots_of (fold act ops s)) \<and>
   (sl_cells (slots_of (fold act ops s)) a = sl_cells (slots_of s) a \<or>
    (\<exists>v. sl_cells (slots_of (fold act ops s)) a = Some v \<and> (\<exists>op \<in> set ops. answers op i v)))"
proof (induction ops arbitrary: s)
  case (Cons op ops)
  note c = slot_change_owned [OF act_changes Cons.prems, of op]
  with Cons.IH [of "act op s"] show ?case by auto
qed simp

text \<open>An answer the waiting thread sees was given to its own question, by some thread, meanwhile.\<close>

lemma wait_answered:
  assumes "slot_wait act slots_of a expires ps s = Some (Answered v, s')"
    and "owned (next_id s) i a (slots_of s)" and "sl_cells (slots_of s) a = None"
  shows "\<exists>p \<in> set ps. \<exists>op \<in> set (po_ops p). answers op i v"
  using assms
proof (induction ps arbitrary: s)
  case (Cons p ps)
  let ?s1 = "fold act (po_ops p) s"
  note o = acts_owned [OF Cons.prems(2), of "po_ops p"]
  show ?case
  proof (cases "sl_cells (slots_of ?s1) a")
    case (Some w)
    with o Cons.prems(1,3) show ?thesis by (auto simp: Let_def)
  next
    case None
    with Cons.prems(1) have "slot_wait act slots_of a expires ps ?s1 = Some (Answered v, s')"
      by (auto simp: Let_def split: if_splits)
    from Cons.IH [OF this] o None show ?thesis by auto
  qed
qed simp

lemma wait_silent:
  assumes "owned (next_id s) i a (slots_of s)" and "sl_cells (slots_of s) a = None"
    and "\<forall>p \<in> set ps. \<not> po_cancelled p \<and> \<not> past expires (po_now p) \<and> (\<forall>op \<in> set (po_ops p). \<forall>v. \<not> answers op i v)"
  shows "slot_wait act slots_of a expires ps s = None"
  using assms
proof (induction ps arbitrary: s)
  case (Cons p ps)
  let ?s1 = "fold act (po_ops p) s"
  from acts_owned [OF Cons.prems(1), of "po_ops p"] Cons.prems(2,3)
  have "owned (next_id ?s1) i a (slots_of ?s1)" "sl_cells (slots_of ?s1) a = None" by auto
  with Cons show ?case by (simp add: Let_def)
qed simp

end

lemma created_owned:
  "slots_ok n t \<Longrightarrow> owned (n + 1) n (fst (slot_create n t)) (snd (slot_create n t)) \<and>
   sl_cells (snd (slot_create n t)) (fst (slot_create n t)) = None"
  by (auto simp: slots_ok_def owned_def slot_create_def split: if_splits)

end
