(* ===== verification/Server_Approval.thy ===== *)
theory Server_Approval
  imports Server_Slots React_Env Rust_Str "HOL-Library.AList"
begin

text \<open>
  Approvals: \<^verbatim>\<open>kn9t-server/src/policy.rs\<close> with \<^verbatim>\<open>resolve_approval\<close> of \<^verbatim>\<open>turn.rs\<close> and
  \<^verbatim>\<open>DenyAllApprover\<close> of \<^verbatim>\<open>state.rs\<close>, and the generic interactions of \<^verbatim>\<open>interaction.rs\<close>.
  \<open>parse\<close> is \<^verbatim>\<open>serde_json::from_str\<close>; the TOML crate and the file system are parameters. The id
  counters are not wrapped at 64 bits.
\<close>

subsection \<open>Fingerprints\<close>

definition extract_cmd :: "(string \<Rightarrow> json option) \<Rightarrow> string \<Rightarrow> string option" where
  "extract_cmd parse args =
     (case parse args of
        None \<Rightarrow> None
      | Some v \<Rightarrow>
          (case Option.bind (obj_get ''cmd'' v) dec_str of
             Some s \<Rightarrow> Some s
           | None \<Rightarrow>
               (case Option.bind (obj_get ''command'' v) dec_str of
                  Some s \<Rightarrow> Some s
                | None \<Rightarrow> dec_str v)))"

definition fingerprint :: "(string \<Rightarrow> json option) \<Rightarrow> tool_call \<Rightarrow> string" where
  "fingerprint parse call =
     (case (if tc_name call = ''bash'' then extract_cmd parse (tc_args call) else None) of
        Some cmd \<Rightarrow> ''bash:'' @ trim cmd
      | None \<Rightarrow> tc_name call @ '':'' @ tc_args call)"

subsection \<open>The cache of approvals\<close>

datatype toml = T_Table "(string \<times> toml) list" | T_Array "toml list" | T_String string | T_Other

definition toml_get :: "string \<Rightarrow> toml \<Rightarrow> toml option" where
  "toml_get k v = (case v of T_Table es \<Rightarrow> map_of es k | _ \<Rightarrow> None)"

definition toml_str :: "toml \<Rightarrow> string option" where
  "toml_str v = (case v of T_String s \<Rightarrow> Some s | _ \<Rightarrow> None)"

record approval_cache =
  ac_session :: "session_id \<rightharpoonup> string set"
  ac_persistent :: "string set"

text \<open>\<open>text\<close> is the config file, when it exists and can be read.\<close>

definition approval_cache_new :: "(string \<Rightarrow> toml option) \<Rightarrow> string option \<Rightarrow> approval_cache" where
  "approval_cache_new parse_toml file_text =
     \<lparr>ac_session = (\<lambda>_. None),
      ac_persistent =
        (case Option.bind (Option.bind (Option.bind (Option.bind file_text parse_toml) (toml_get ''policy''))
                (toml_get ''approvals'')) (toml_get ''always'') of
           Some (T_Array vs) \<Rightarrow> set (List.map_filter toml_str vs)
         | _ \<Rightarrow> {})\<rparr>"

definition is_approved :: "session_id option \<Rightarrow> string \<Rightarrow> approval_cache \<Rightarrow> bool" where
  "is_approved session fp c \<longleftrightarrow>
     fp \<in> ac_persistent c \<or>
     (case Option.bind session (ac_session c) of Some fps \<Rightarrow> fp \<in> fps | None \<Rightarrow> False)"

definition approve_session :: "session_id \<Rightarrow> string \<Rightarrow> approval_cache \<Rightarrow> approval_cache" where
  "approve_session sid fp c =
     c\<lparr>ac_session := (ac_session c)(sid \<mapsto> insert fp (case ac_session c sid of Some fps \<Rightarrow> fps | None \<Rightarrow> {}))\<rparr>"

text \<open>
  The config file: its text, if it exists, and which system calls succeed. A temporary file that is
  written but not renamed is not part of the state.
\<close>

record config_file =
  cf_text :: "string option"
  cf_mkdir :: bool
  cf_read :: bool
  cf_write :: bool
  cf_rename :: bool

datatype persist_err =
  Create_Dir | Read_Config | Parse_Config | Root_Panic | Policy_Not_Table | Approvals_Not_Table |
  Always_Not_Array | Serialize | Write_Tmp | Rename

definition toml_entry :: "string \<Rightarrow> toml \<Rightarrow> (string \<times> toml) list \<Rightarrow> toml \<times> (toml \<Rightarrow> (string \<times> toml) list)" where
  "toml_entry k d es = (case map_of es k of Some v \<Rightarrow> v | None \<Rightarrow> d, \<lambda>v. AList.update k v es)"

definition add_always :: "string \<Rightarrow> toml \<Rightarrow> persist_err + toml" where
  "add_always fp doc =
     (case doc of
        T_Table es \<Rightarrow>
          (case toml_entry ''policy'' (T_Table []) es of (policy, put_policy) \<Rightarrow>
            (case policy of
               T_Table ps \<Rightarrow>
                 (case toml_entry ''approvals'' (T_Table []) ps of (approvals, put_approvals) \<Rightarrow>
                   (case approvals of
                      T_Table aps \<Rightarrow>
                        (case toml_entry ''always'' (T_Array []) aps of (always, put_always) \<Rightarrow>
                          (case always of
                             T_Array vs \<Rightarrow>
                               (let vs' = (if Some fp \<in> set (map toml_str vs) then vs else vs @ [T_String fp])
                                in Inr (T_Table (put_policy (T_Table (put_approvals
                                     (T_Table (put_always (T_Array vs'))))))))
                           | _ \<Rightarrow> Inl Always_Not_Array))
                    | _ \<Rightarrow> Inl Approvals_Not_Table))
             | _ \<Rightarrow> Inl Policy_Not_Table))
      | _ \<Rightarrow> Inl Root_Panic)"

definition write_persistent_to_disk ::
  "(string \<Rightarrow> toml option) \<Rightarrow> (toml \<Rightarrow> string option) \<Rightarrow> string \<Rightarrow> config_file \<Rightarrow>
   (persist_err + unit) \<times> config_file" where
  "write_persistent_to_disk parse_toml print_toml fp f =
     (if \<not> cf_mkdir f then (Inl Create_Dir, f)
      else if cf_text f \<noteq> None \<and> \<not> cf_read f then (Inl Read_Config, f)
      else
        (let file_text = (case cf_text f of Some t \<Rightarrow> t | None \<Rightarrow> [])
         in case (if trim file_text = [] then Some (T_Table []) else parse_toml file_text) of
              None \<Rightarrow> (Inl Parse_Config, f)
            | Some doc \<Rightarrow>
                (case add_always fp doc of
                   Inl e \<Rightarrow> (Inl e, f)
                 | Inr doc' \<Rightarrow>
                     (case print_toml doc' of
                        None \<Rightarrow> (Inl Serialize, f)
                      | Some t \<Rightarrow>
                          if \<not> cf_write f then (Inl Write_Tmp, f)
                          else if \<not> cf_rename f then (Inl Rename, f)
                          else (Inr (), f\<lparr>cf_text := Some t\<rparr>)))))"

definition approve_persistent ::
  "(string \<Rightarrow> toml option) \<Rightarrow> (toml \<Rightarrow> string option) \<Rightarrow> string \<Rightarrow> approval_cache \<times> config_file \<Rightarrow>
   (persist_err + unit) \<times> approval_cache \<times> config_file" where
  "approve_persistent parse_toml print_toml fp cf =
     (case cf of (c, f) \<Rightarrow>
        if fp \<in> ac_persistent c then (Inr (), c, f)
        else (case write_persistent_to_disk parse_toml print_toml fp f of
                (r, f') \<Rightarrow> (r, c\<lparr>ac_persistent := insert fp (ac_persistent c)\<rparr>, f')))"

text \<open>
  An approval whose write fails is never written: the cache already has it, so later requests to
  persist it return success and leave the file alone.
\<close>

lemma failed_write_never_retried:
  assumes "approve_persistent pt qt fp (c, f) = (Inl e, c', f')"
  shows "f' = f \<and> approve_persistent pt qt fp (c', g) = (Inr (), c', g)"
proof -
  have "f' = f"
    using assms
    by (auto simp: approve_persistent_def write_persistent_to_disk_def Let_def
        split: if_splits option.splits sum.splits prod.splits)
  moreover have "fp \<in> ac_persistent c'"
    using assms by (auto simp: approve_persistent_def split: if_splits prod.splits)
  ultimately show ?thesis by (simp add: approve_persistent_def)
qed

lemma approve_persistent_cache:
  "fst (snd (approve_persistent pt qt fp (c, f))) = c\<lparr>ac_persistent := insert fp (ac_persistent c)\<rparr>"
  by (auto simp: approve_persistent_def insert_absorb split: prod.split)

text \<open>What was written is what the next start loads.\<close>

lemma map_of_update [simp]: "map_of (AList.update k v es) k = Some v"
  by (simp add: update_conv')

lemma persisted_is_loaded:
  assumes "write_persistent_to_disk pt qt fp f = (Inr (), f')"
    and "\<And>v t. qt v = Some t \<Longrightarrow> pt t = Some v"
  shows "fp \<in> ac_persistent (approval_cache_new pt (cf_text f'))"
proof -
  from assms(1) obtain doc doc' t where r: "add_always fp doc = Inr doc'" "qt doc' = Some t" "cf_text f' = Some t"
    by (auto simp: write_persistent_to_disk_def Let_def split: if_splits option.splits sum.splits)
  have pt: "pt t = Some doc'" by (rule assms(2) [OF r(2)])
  from r(1) obtain es ps aps vs where
    "doc' = T_Table (AList.update ''policy'' (T_Table (AList.update ''approvals'' (T_Table
       (AList.update ''always'' (T_Array vs) aps)) ps)) es)" "Some fp \<in> set (map toml_str vs)"
    by (auto simp: add_always_def toml_entry_def Let_def toml_str_def split: toml.splits if_splits)
  with pt r(3) show ?thesis
    by (auto simp: approval_cache_new_def toml_get_def List.map_filter_def toml_str_def image_iff split: toml.splits)
qed

subsection \<open>The registry of approvals\<close>

record approval_meta =
  am_fingerprint :: string
  am_session :: session_id
  am_tool :: string

text \<open>The registry, the cache, the config file and the counter of ids.\<close>

record approvals =
  ap_cache :: approval_cache
  ap_file :: config_file
  ap_slots :: "decision slots"
  ap_meta :: "nat \<rightharpoonup> approval_meta"
  ap_next :: nat

definition approvals_new :: "approval_cache \<Rightarrow> config_file \<Rightarrow> approvals" where
  "approvals_new c f =
     \<lparr>ap_cache = c, ap_file = f, ap_slots = slots_new, ap_meta = (\<lambda>_. None), ap_next = 1\<rparr>"

definition registry_create :: "nat \<Rightarrow> approval_meta \<Rightarrow> approvals \<Rightarrow> nat \<times> approvals" where
  "registry_create i m st =
     (case slot_create i (ap_slots st) of
        (a, t) \<Rightarrow> (a, st\<lparr>ap_slots := t, ap_meta := (ap_meta st)(i \<mapsto> m)\<rparr>))"

definition registry_remove :: "nat \<Rightarrow> approvals \<Rightarrow> approvals" where
  "registry_remove i st =
     st\<lparr>ap_slots := slot_remove i (ap_slots st), ap_meta := (ap_meta st)(i := None)\<rparr>"

definition registry_resolve :: "nat \<Rightarrow> decision \<Rightarrow> approvals \<Rightarrow> bool \<times> approvals" where
  "registry_resolve i d st =
     (case slot_resolve i d (ap_slots st) of (ok, t) \<Rightarrow> (ok, st\<lparr>ap_slots := t\<rparr>))"

definition registry_resolve_with_meta ::
  "nat \<Rightarrow> decision \<Rightarrow> approvals \<Rightarrow> approval_meta option \<times> approvals" where
  "registry_resolve_with_meta i d st =
     (case slot_resolve i d (ap_slots st) of
        (ok, t) \<Rightarrow> (if ok then ap_meta st i else None, st\<lparr>ap_slots := t\<rparr>))"

subsection \<open>Answers\<close>

definition record_approval :: "nat \<Rightarrow> bool \<Rightarrow> approvals \<Rightarrow> approvals" where
  "record_approval i allow st =
     snd (registry_resolve i (if allow then Decide_Allow else Decide_Deny ''denied by user'') st)"

datatype approval_err = Unknown_Decision string | Unknown_Scope string

definition effective_scope :: "string \<Rightarrow> string option \<Rightarrow> approval_err + string" where
  "effective_scope dec scope =
     (case scope of
        Some s \<Rightarrow>
          if s \<in> {''once'', ''session'', ''always''}
          then Inr (if dec = ''always'' then ''always'' else s)
          else Inl (Unknown_Scope s)
      | None \<Rightarrow> Inr (if dec = ''always'' then ''always'' else ''once''))"

definition cache_answer ::
  "(string \<Rightarrow> toml option) \<Rightarrow> (toml \<Rightarrow> string option) \<Rightarrow> string \<Rightarrow> approval_meta \<Rightarrow> approvals \<Rightarrow> approvals" where
  "cache_answer pt qt scope m st =
     (if scope = ''session'' then
        (if am_session m = [] then st
         else st\<lparr>ap_cache := approve_session (am_session m) (am_fingerprint m) (ap_cache st)\<rparr>)
      else if scope = ''always'' then
        (case approve_persistent pt qt (am_fingerprint m) (ap_cache st, ap_file st) of
           (_, c, f) \<Rightarrow> st\<lparr>ap_cache := c, ap_file := f\<rparr>)
      else st)"

definition resolve_approval ::
  "(string \<Rightarrow> toml option) \<Rightarrow> (toml \<Rightarrow> string option) \<Rightarrow> nat \<Rightarrow> string \<Rightarrow> string option \<Rightarrow> approvals \<Rightarrow>
   (approval_err + decision) \<times> approvals" where
  "resolve_approval pt qt i dec scope st =
     (if dec \<notin> {''allow'', ''always'', ''deny''} then (Inl (Unknown_Decision dec), st)
      else
        (case effective_scope dec scope of
           Inl e \<Rightarrow> (Inl e, st)
         | Inr eff \<Rightarrow>
             (let allow = (dec \<noteq> ''deny'');
                  d = (if allow then Decide_Allow else Decide_Deny ''denied by user'')
              in case registry_resolve_with_meta i d st of
                   (Some m, st1) \<Rightarrow> (Inr d, if allow then cache_answer pt qt eff m st1 else st1)
                 | (None, st1) \<Rightarrow> (Inr d, snd (registry_resolve i d st1)))))"

subsection \<open>The approvers\<close>

definition request_begin ::
  "(string \<Rightarrow> json option) \<Rightarrow> tool_call \<Rightarrow> string \<Rightarrow> string \<Rightarrow> session_id \<Rightarrow> approvals \<Rightarrow>
   (decision + nat \<times> nat \<times> live_event) \<times> approvals" where
  "request_begin parse call cwd reason session st =
     (let fp = fingerprint parse call
      in if is_approved (Some session) fp (ap_cache st) then (Inl Decide_Allow, st)
         else
           (let i = ap_next st;
                m = \<lparr>am_fingerprint = fp, am_session = session, am_tool = tc_name call\<rparr>
            in case registry_create i m (st\<lparr>ap_next := i + 1\<rparr>) of
                 (a, st1) \<Rightarrow>
                   (Inr (i, a, ApprovalRequest i (tc_name call)
                      (case parse (tc_args call) of Some j \<Rightarrow> j | None \<Rightarrow> JNull) cwd reason), st1)))"

definition approval_outcome :: "decision polled \<Rightarrow> decision" where
  "approval_outcome r =
     (case r of
        Answered d \<Rightarrow> d
      | Cancelled \<Rightarrow> Decide_Deny ''cancelled''
      | Expired \<Rightarrow> Decide_Deny ''approval timed out with no answer'')"

text \<open>What other threads do to the approvals while one of them waits.\<close>

datatype approval_op =
    Op_Ask tool_call string string session_id
  | Op_Answer nat string "string option"
  | Op_Record nat bool
  | Op_Gone nat

definition approval_act ::
  "(string \<Rightarrow> toml option) \<Rightarrow> (toml \<Rightarrow> string option) \<Rightarrow> (string \<Rightarrow> json option) \<Rightarrow>
   approval_op \<Rightarrow> approvals \<Rightarrow> approvals" where
  "approval_act pt qt parse op st =
     (case op of
        Op_Ask call cwd reason session \<Rightarrow> snd (request_begin parse call cwd reason session st)
      | Op_Answer i dec scope \<Rightarrow> snd (resolve_approval pt qt i dec scope st)
      | Op_Record i allow \<Rightarrow> record_approval i allow st
      | Op_Gone i \<Rightarrow> registry_remove i st)"

text \<open>
  \<^verbatim>\<open>InteractiveApprover::request\<close>, started at time \<open>now\<close>: \<open>None\<close> while it waits, else the decision, the
  events it emitted and the state. The thread that gives up removes the id in a second step; an answer
  that arrives between the two is acknowledged and has no effect.
\<close>

definition interactive_request ::
  "(string \<Rightarrow> toml option) \<Rightarrow> (toml \<Rightarrow> string option) \<Rightarrow> (string \<Rightarrow> json option) \<Rightarrow> nat option \<Rightarrow> nat \<Rightarrow>
   tool_call \<Rightarrow> string \<Rightarrow> string \<Rightarrow> session_id \<Rightarrow> approval_op poll list \<Rightarrow> approvals \<Rightarrow>
   (decision \<times> live_event list \<times> approvals) option" where
  "interactive_request pt qt parse limit now call cwd reason session ps st =
     (case request_begin parse call cwd reason session st of
        (Inl d, st1) \<Rightarrow> Some (d, [], st1)
      | (Inr (i, a, e), st1) \<Rightarrow>
          (case slot_wait (approval_act pt qt parse) ap_slots a (map_option (\<lambda>d. now + d) limit) ps st1 of
             None \<Rightarrow> None
           | Some (r, st2) \<Rightarrow> Some (approval_outcome r, [e], registry_remove i st2)))"

definition non_interactive_request ::
  "(string \<Rightarrow> json option) \<Rightarrow> tool_call \<Rightarrow> string \<Rightarrow> session_id \<Rightarrow> approval_cache \<Rightarrow> decision" where
  "non_interactive_request parse call reason session c =
     (if is_approved (Some session) (fingerprint parse call) c then Decide_Allow
      else Decide_Deny (''approval required ('' @ reason @ '') but session is non-interactive''))"

definition deny_all_request :: "string \<Rightarrow> decision" where
  "deny_all_request reason = Decide_Deny (''approval required ('' @ reason @ ''), no approver configured'')"

subsection \<open>The registry as a table of slots\<close>

definition approval_answers :: "approval_op \<Rightarrow> nat \<Rightarrow> decision \<Rightarrow> bool" where
  "approval_answers op i d \<longleftrightarrow>
     (case op of
        Op_Answer j dec scope \<Rightarrow>
          j = i \<and> dec \<in> {''allow'', ''always'', ''deny''} \<and> (\<exists>eff. effective_scope dec scope = Inr eff) \<and>
          d = (if dec \<noteq> ''deny'' then Decide_Allow else Decide_Deny ''denied by user'')
      | Op_Record j allow \<Rightarrow> j = i \<and> d = (if allow then Decide_Allow else Decide_Deny ''denied by user'')
      | _ \<Rightarrow> False)"

lemma cache_answer_frame [simp]:
  "ap_slots (cache_answer pt qt scope m st) = ap_slots st"
  "ap_meta (cache_answer pt qt scope m st) = ap_meta st"
  "ap_next (cache_answer pt qt scope m st) = ap_next st"
  by (simp_all add: cache_answer_def split: prod.split)

lemma registry_frame [simp]:
  "ap_next (registry_remove i st) = ap_next st" "ap_cache (registry_remove i st) = ap_cache st"
  "ap_next (snd (registry_resolve i d st)) = ap_next st" "ap_cache (snd (registry_resolve i d st)) = ap_cache st"
  "ap_meta (snd (registry_resolve i d st)) = ap_meta st"
  "ap_slots (snd (registry_resolve i d st)) = snd (slot_resolve i d (ap_slots st))"
  by (simp_all add: registry_remove_def registry_resolve_def split: prod.split)

lemma resolve_twice: "slot_resolve i d t = (ok, u) \<Longrightarrow> snd (slot_resolve i d u) = u"
  by (auto simp: slot_resolve_def split: option.splits)

lemma resolve_approval_slots:
  "ap_next (snd (resolve_approval pt qt i dec scope st)) = ap_next st \<and>
   ap_meta (snd (resolve_approval pt qt i dec scope st)) = ap_meta st \<and>
   ap_slots (snd (resolve_approval pt qt i dec scope st)) =
     (if dec \<in> {''allow'', ''always'', ''deny''} \<and> (\<exists>eff. effective_scope dec scope = Inr eff)
      then snd (slot_resolve i (if dec \<noteq> ''deny'' then Decide_Allow else Decide_Deny ''denied by user'') (ap_slots st))
      else ap_slots st)"
  by (cases "effective_scope dec scope")
    (auto simp: resolve_approval_def registry_resolve_with_meta_def Let_def
      split: prod.split option.split dest: resolve_twice)

lemma request_begin_InrD:
  assumes "request_begin parse call cwd reason session st = (Inr (i, a, e), st1)"
  shows "i = ap_next st \<and> ap_next st1 = i + 1 \<and> ap_cache st1 = ap_cache st \<and>
    \<not> is_approved (Some session) (fingerprint parse call) (ap_cache st) \<and>
    (a, ap_slots st1) = slot_create i (ap_slots st) \<and>
    ap_meta st1 = (ap_meta st)(i \<mapsto> \<lparr>am_fingerprint = fingerprint parse call, am_session = session, am_tool = tc_name call\<rparr>)"
  using assms by (auto simp: request_begin_def registry_create_def Let_def split: if_splits prod.splits)

lemma request_begin_Inl:
  "request_begin parse call cwd reason session st = (Inl d, st1) \<Longrightarrow>
   d = Decide_Allow \<and> st1 = st \<and> is_approved (Some session) (fingerprint parse call) (ap_cache st)"
  by (auto simp: request_begin_def registry_create_def Let_def split: if_splits prod.splits)

interpretation appr: ask_registry "approval_act pt qt parse" ap_slots ap_next approval_answers
  for pt qt parse
proof
  fix op and s :: approvals
  show "slot_change (approval_answers op) (ap_next s) (ap_slots s)
     (ap_next (approval_act pt qt parse op s)) (ap_slots (approval_act pt qt parse op s))"
  proof (cases op)
    case (Op_Ask call cwd reason session)
    show ?thesis
    proof (cases "request_begin parse call cwd reason session s")
      case (Pair r s1)
      show ?thesis
      proof (cases r)
        case (Inl d)
        with Pair Op_Ask request_begin_Inl [of parse call cwd reason session s] show ?thesis
          by (simp add: approval_act_def slot_change_def)
      next
        case (Inr iae)
        obtain i a e where iae: "iae = (i, a, e)" by (cases iae)
        note * = request_begin_InrD [OF Pair [unfolded Inr iae]]
        then have "ap_slots s1 = snd (slot_create i (ap_slots s))" by (metis snd_conv)
        with * Pair Op_Ask show ?thesis by (simp add: approval_act_def slot_change_def)
      qed
    qed
  next
    case (Op_Answer i dec scope)
    then show ?thesis
      using resolve_approval_slots [of pt qt i dec scope s]
      by (auto simp: approval_act_def slot_change_def approval_answers_def)
  next
    case (Op_Record i allow)
    then show ?thesis
      by (auto simp: approval_act_def slot_change_def approval_answers_def record_approval_def)
  next
    case (Op_Gone i)
    then show ?thesis
      by (auto simp: approval_act_def slot_change_def registry_remove_def)
  qed
qed

subsection \<open>Where approvals come from\<close>

text \<open>
  The states the approvals of a server can reach from a cache \<open>c0\<close> with no session entries, with the
  questions asked and the answers that allowed something, and for which scope.
\<close>

definition asked_by :: "(string \<Rightarrow> json option) \<Rightarrow> approval_op \<Rightarrow> approvals \<Rightarrow> (nat \<times> approval_meta) set" where
  "asked_by parse op st =
     (case op of
        Op_Ask call cwd reason session \<Rightarrow>
          {(ap_next st, \<lparr>am_fingerprint = fingerprint parse call, am_session = session, am_tool = tc_name call\<rparr>)}
      | _ \<Rightarrow> {})"

definition allowed_by :: "approval_op \<Rightarrow> (nat \<times> string) set" where
  "allowed_by op =
     (case op of
        Op_Answer i dec scope \<Rightarrow>
          (case effective_scope dec scope of
             Inr eff \<Rightarrow> if dec \<in> {''allow'', ''always''} then {(i, eff)} else {}
           | Inl _ \<Rightarrow> {})
      | _ \<Rightarrow> {})"

inductive approvals_run ::
  "(string \<Rightarrow> toml option) \<Rightarrow> (toml \<Rightarrow> string option) \<Rightarrow> (string \<Rightarrow> json option) \<Rightarrow> approval_cache \<Rightarrow>
   (nat \<times> approval_meta) set \<Rightarrow> (nat \<times> string) set \<Rightarrow> approvals \<Rightarrow> bool" for pt qt parse c0 where
  run_start: "ac_session c0 = (\<lambda>_. None) \<Longrightarrow> approvals_run pt qt parse c0 {} {} (approvals_new c0 f)"
| run_act: "approvals_run pt qt parse c0 asked allowed st \<Longrightarrow>
    approvals_run pt qt parse c0 (asked_by parse op st \<union> asked) (allowed_by op \<union> allowed)
      (approval_act pt qt parse op st)"

text \<open>A cached approval is the answer of a user to a question with that fingerprint, in that scope.\<close>

definition cache_founded ::
  "approval_cache \<Rightarrow> (nat \<times> approval_meta) set \<Rightarrow> (nat \<times> string) set \<Rightarrow> approval_cache \<Rightarrow> bool" where
  "cache_founded c0 asked allowed c \<longleftrightarrow>
     (\<forall>fp \<in> ac_persistent c. fp \<in> ac_persistent c0 \<or>
        (\<exists>i m. (i, m) \<in> asked \<and> am_fingerprint m = fp \<and> (i, ''always'') \<in> allowed)) \<and>
     (\<forall>sid fps fp. ac_session c sid = Some fps \<and> fp \<in> fps \<longrightarrow>
        (\<exists>i m. (i, m) \<in> asked \<and> am_fingerprint m = fp \<and> am_session m = sid \<and> (i, ''session'') \<in> allowed))"

definition approvals_inv ::
  "approval_cache \<Rightarrow> (nat \<times> approval_meta) set \<Rightarrow> (nat \<times> string) set \<Rightarrow> approvals \<Rightarrow> bool" where
  "approvals_inv c0 asked allowed st \<longleftrightarrow>
     slots_ok (ap_next st) (ap_slots st) \<and>
     (\<forall>i m. ap_meta st i = Some m \<longrightarrow> (i, m) \<in> asked) \<and>
     cache_founded c0 asked allowed (ap_cache st)"

lemma cache_founded_mono:
  "cache_founded c0 asked allowed c \<Longrightarrow> asked \<subseteq> asked' \<Longrightarrow> allowed \<subseteq> allowed' \<Longrightarrow>
   cache_founded c0 asked' allowed' c"
  unfolding cache_founded_def by blast

lemma cache_answer_founded:
  assumes "cache_founded c0 asked allowed (ap_cache st)" and "(i, m) \<in> asked"
  shows "cache_founded c0 asked (insert (i, eff) allowed) (ap_cache (cache_answer pt qt eff m st))"
proof (cases "eff = ''session'' \<and> am_session m \<noteq> []")
  case True
  with assms show ?thesis
    unfolding cache_founded_def
    by (fastforce simp: cache_answer_def approve_session_def split: if_splits option.splits)
next
  case False
  show ?thesis
  proof (cases "eff = ''always''")
    case True
    obtain r c f where p: "approve_persistent pt qt (am_fingerprint m) (ap_cache st, ap_file st) = (r, c, f)"
      by (cases "approve_persistent pt qt (am_fingerprint m) (ap_cache st, ap_file st)")
    with approve_persistent_cache [of pt qt "am_fingerprint m" "ap_cache st" "ap_file st"]
    have "c = (ap_cache st)\<lparr>ac_persistent := insert (am_fingerprint m) (ac_persistent (ap_cache st))\<rparr>" by simp
    with True p assms show ?thesis unfolding cache_founded_def by (auto simp: cache_answer_def)
  next
    case False2: False
    with False have "ap_cache (cache_answer pt qt eff m st) = ap_cache st" by (auto simp: cache_answer_def)
    moreover have "cache_founded c0 asked (insert (i, eff) allowed) (ap_cache st)"
      by (rule cache_founded_mono [OF assms(1)]) auto
    ultimately show ?thesis by simp
  qed
qed

lemma resolve_approval_cache:
  assumes "ap_cache (snd (resolve_approval pt qt i dec scope st)) \<noteq> ap_cache st"
  shows "\<exists>m eff st1. ap_meta st i = Some m \<and> effective_scope dec scope = Inr eff \<and>
    dec \<in> {''allow'', ''always''} \<and> ap_cache st1 = ap_cache st \<and>
    ap_cache (snd (resolve_approval pt qt i dec scope st)) = ap_cache (cache_answer pt qt eff m st1)"
proof -
  from assms obtain eff where d: "dec \<in> {''allow'', ''always'', ''deny''}" "effective_scope dec scope = Inr eff"
    by (auto simp: resolve_approval_def split: if_splits sum.splits)
  let ?d = "if dec \<noteq> ''deny'' then Decide_Allow else Decide_Deny ''denied by user''"
  obtain mo st1 where m: "registry_resolve_with_meta i ?d st = (mo, st1)" by force
  then have "ap_cache st1 = ap_cache st" and mo: "mo = None \<or> mo = ap_meta st i"
    by (auto simp: registry_resolve_with_meta_def split: prod.splits)
  moreover have "dec \<noteq> ''deny''" and "mo \<noteq> None"
    using assms d m \<open>ap_cache st1 = ap_cache st\<close>
    by (auto simp: resolve_approval_def Let_def split: option.splits)
  ultimately show ?thesis
    using assms d m by (auto simp: resolve_approval_def Let_def)
qed

lemma approvals_run_inv:
  "approvals_run pt qt parse c0 asked allowed st \<Longrightarrow> approvals_inv c0 asked allowed st"
proof (induction rule: approvals_run.induct)
  case (run_start f)
  then show ?case
    by (simp add: approvals_inv_def approvals_new_def slots_ok_def slots_new_def cache_founded_def)
next
  case (run_act asked allowed st op)
  let ?st' = "approval_act pt qt parse op st"
  have ok: "slots_ok (ap_next ?st') (ap_slots ?st')"
    using run_act.IH slot_change_ok [OF appr.act_changes] by (auto simp: approvals_inv_def)
  have keep: "ap_meta st j = Some m \<Longrightarrow> (j, m) \<in> asked" for j m
    using run_act.IH by (simp add: approvals_inv_def)
  have c: "cache_founded c0 asked allowed (ap_cache st)" using run_act.IH by (simp add: approvals_inv_def)
  note mono = cache_founded_mono [OF c]
  show ?case
  proof (cases op)
    case (Op_Ask call cwd reason session)
    obtain r st1 where r: "request_begin parse call cwd reason session st = (r, st1)" by force
    have "(\<forall>j m. ap_meta st1 j = Some m \<longrightarrow> (j, m) \<in> asked_by parse op st \<union> asked) \<and> ap_cache st1 = ap_cache st"
    proof (cases r)
      case (Inl d)
      with request_begin_Inl [OF r [unfolded Inl]] keep show ?thesis by auto
    next
      case (Inr iae)
      obtain i a e where iae: "iae = (i, a, e)" by (cases iae)
      from request_begin_InrD [OF r [unfolded Inr iae]] keep show ?thesis
        by (auto simp: asked_by_def Op_Ask)
    qed
    with ok r mono show ?thesis by (auto simp: approvals_inv_def approval_act_def Op_Ask)
  next
    case (Op_Answer i dec scope)
    have "cache_founded c0 asked (allowed_by op \<union> allowed) (ap_cache ?st')"
    proof (cases "ap_cache ?st' = ap_cache st")
      case True
      with mono show ?thesis by simp
    next
      case False
      with resolve_approval_cache [of pt qt i dec scope st] Op_Answer
      obtain m eff st1 where *: "ap_meta st i = Some m" "effective_scope dec scope = Inr eff"
        "dec \<in> {''allow'', ''always''}" "ap_cache st1 = ap_cache st"
        "ap_cache ?st' = ap_cache (cache_answer pt qt eff m st1)"
        by (auto simp: approval_act_def)
      from cache_answer_founded [of c0 asked allowed st1 i m eff pt qt] c * keep Op_Answer
      show ?thesis by (simp add: allowed_by_def)
    qed
    with ok keep resolve_approval_slots [of pt qt i dec scope st] show ?thesis
      by (auto simp: approvals_inv_def asked_by_def approval_act_def Op_Answer)
  next
    case (Op_Record i allow)
    with ok keep c show ?thesis
      by (auto simp: approvals_inv_def asked_by_def allowed_by_def approval_act_def record_approval_def)
  next
    case (Op_Gone i)
    with ok keep c show ?thesis
      by (auto simp: approvals_inv_def asked_by_def allowed_by_def approval_act_def registry_remove_def split: if_splits)
  qed
qed

lemma approvedD:
  "is_approved (Some sid) fp c \<Longrightarrow> cache_founded c0 asked allowed c \<Longrightarrow>
   fp \<in> ac_persistent c0 \<or>
   (\<exists>i m. (i, m) \<in> asked \<and> am_fingerprint m = fp \<and>
      ((i, ''always'') \<in> allowed \<or> (i, ''session'') \<in> allowed \<and> am_session m = sid))"
  unfolding is_approved_def cache_founded_def by (force split: option.splits)

lemma request_answered:
  assumes "interactive_request pt qt parse limit now call cwd reason session ps st = Some (Decide_Allow, evs, st')"
    and "slots_ok (ap_next st) (ap_slots st)"
    and "\<not> is_approved (Some session) (fingerprint parse call) (ap_cache st)"
  shows "\<exists>p \<in> set ps. \<exists>op \<in> set (po_ops p). approval_answers op (ap_next st) Decide_Allow"
proof -
  obtain r st1 where b: "request_begin parse call cwd reason session st = (r, st1)" by force
  obtain i a e where r: "r = Inr (i, a, e)"
  proof (cases r)
    case (Inl d)
    with request_begin_Inl [OF b [unfolded Inl]] assms(3) show ?thesis by simp
  next
    case (Inr iae)
    then show ?thesis using that by (cases iae) auto
  qed
  note * = request_begin_InrD [OF b [unfolded r]]
  then have "a = fst (slot_create i (ap_slots st))" "ap_slots st1 = snd (slot_create i (ap_slots st))"
    by (metis fst_conv, metis snd_conv)
  with created_owned [OF assms(2)] * have o: "owned (ap_next st1) i a (ap_slots st1)" "sl_cells (ap_slots st1) a = None"
    by simp_all
  from assms(1) b r obtain w st2 where
    "slot_wait (approval_act pt qt parse) ap_slots a (map_option (\<lambda>d. now + d) limit) ps st1 = Some (w, st2)"
    "approval_outcome w = Decide_Allow"
    by (auto simp: interactive_request_def split: option.splits)
  moreover from this(2) have "w = Answered Decide_Allow" by (cases w) (simp_all add: approval_outcome_def)
  ultimately show ?thesis using appr.wait_answered [OF _ o] * by blast
qed

lemma request_returns:
  assumes "\<exists>p \<in> set ps. po_cancelled p \<or> past (map_option (\<lambda>d. now + d) limit) (po_now p)"
  shows "interactive_request pt qt parse limit now call cwd reason session ps st \<noteq> None"
proof -
  have "slot_wait (approval_act pt qt parse) ap_slots a (map_option (\<lambda>d. now + d) limit) ps st1 \<noteq> None" for a st1
    by (rule slot_wait_returns [OF assms])
  then have w: "\<exists>r st2. slot_wait (approval_act pt qt parse) ap_slots a (map_option (\<lambda>d. now + d) limit) ps st1 = Some (r, st2)"
    for a st1 by (metis not_None_eq surj_pair)
  obtain r st1 where r: "request_begin parse call cwd reason session st = (r, st1)" by force
  show ?thesis
  proof (cases r)
    case (Inr iae)
    then show ?thesis using r w [of "fst (snd iae)" st1]
      by (cases iae) (auto simp: interactive_request_def)
  qed (use r in \<open>simp add: interactive_request_def\<close>)
qed

subsection \<open>Interactions\<close>

record interactions =
  ix_slots :: "json slots"
  ix_next :: nat

definition interactions_new :: interactions where
  "interactions_new = \<lparr>ix_slots = slots_new, ix_next = 1\<rparr>"

definition interaction_create :: "interactions \<Rightarrow> (nat \<times> nat) \<times> interactions" where
  "interaction_create st =
     (let i = ix_next st
      in case slot_create i (ix_slots st) of
           (a, t) \<Rightarrow> ((i, a), \<lparr>ix_slots = t, ix_next = i + 1\<rparr>))"

definition interaction_discard :: "nat \<Rightarrow> interactions \<Rightarrow> interactions" where
  "interaction_discard i st = st\<lparr>ix_slots := slot_remove i (ix_slots st)\<rparr>"

definition interaction_resolve :: "nat \<Rightarrow> json \<Rightarrow> interactions \<Rightarrow> bool \<times> interactions" where
  "interaction_resolve i v st =
     (case slot_resolve i v (ix_slots st) of (ok, t) \<Rightarrow> (ok, st\<lparr>ix_slots := t\<rparr>))"

definition has_pending :: "nat \<Rightarrow> interactions \<Rightarrow> bool" where
  "has_pending i st \<longleftrightarrow> sl_table (ix_slots st) i \<noteq> None"

datatype interaction_op = Ix_Create | Ix_Respond nat json | Ix_Discard nat

definition interaction_act :: "interaction_op \<Rightarrow> interactions \<Rightarrow> interactions" where
  "interaction_act op st =
     (case op of
        Ix_Create \<Rightarrow> snd (interaction_create st)
      | Ix_Respond i v \<Rightarrow> snd (interaction_resolve i v st)
      | Ix_Discard i \<Rightarrow> interaction_discard i st)"

text \<open>\<^verbatim>\<open>wait_until\<close>, called at time \<open>now\<close> with the handle \<open>(i, a)\<close>.\<close>

definition wait_until ::
  "nat \<Rightarrow> nat \<Rightarrow> nat option \<Rightarrow> nat \<Rightarrow> interaction_op poll list \<Rightarrow> interactions \<Rightarrow>
   (json option \<times> interactions) option" where
  "wait_until i a limit now ps st =
     (case slot_wait interaction_act ix_slots a (map_option (\<lambda>d. now + d) limit) ps st of
        None \<Rightarrow> None
      | Some (r, st1) \<Rightarrow>
          Some (case r of Answered v \<Rightarrow> Some v | _ \<Rightarrow> None, interaction_discard i st1))"

interpretation inter: ask_registry interaction_act ix_slots ix_next
  "\<lambda>op i v. op = Ix_Respond i v"
proof
  fix op and s :: interactions
  show "slot_change (\<lambda>i v. op = Ix_Respond i v) (ix_next s) (ix_slots s)
     (ix_next (interaction_act op s)) (ix_slots (interaction_act op s))"
  proof (cases op)
    case Ix_Create
    then show ?thesis
      by (cases "slot_create (ix_next s) (ix_slots s)")
        (auto simp: interaction_act_def slot_change_def interaction_create_def Let_def)
  next
    case (Ix_Respond i v)
    then show ?thesis
      by (cases "slot_resolve i v (ix_slots s)")
        (auto simp: interaction_act_def slot_change_def interaction_resolve_def)
  next
    case (Ix_Discard i)
    then show ?thesis
      by (auto simp: interaction_act_def slot_change_def interaction_discard_def)
  qed
qed

text \<open>
  What a plugin gets back is a response to its own question; it gets something back once the turn is
  cancelled or the deadline passed; and afterwards the question is no longer pending, so a late
  response is refused.
\<close>

lemma wait_until_spec:
  assumes "slots_ok (ix_next st) (ix_slots st)" and "interaction_create st = ((i, a), st1)"
  shows "wait_until i a limit now ps st1 = Some (Some v, st2) \<Longrightarrow>
      \<exists>p \<in> set ps. Ix_Respond i v \<in> set (po_ops p)"
    and "\<exists>p \<in> set ps. po_cancelled p \<or> past (map_option (\<lambda>d. now + d) limit) (po_now p) \<Longrightarrow>
      wait_until i a limit now ps st1 \<noteq> None"
    and "wait_until i a limit now ps st1 = Some (r, st2) \<Longrightarrow> \<not> fst (interaction_resolve i w st2)"
proof -
  have *: "i = ix_next st" "ix_next st1 = i + 1" "a = fst (slot_create i (ix_slots st))"
    "ix_slots st1 = snd (slot_create i (ix_slots st))"
    using assms(2) by (auto simp: interaction_create_def Let_def split: prod.splits)
  with created_owned [OF assms(1)] have o: "owned (ix_next st1) i a (ix_slots st1)" "sl_cells (ix_slots st1) a = None"
    by simp_all
  show "\<exists>p \<in> set ps. Ix_Respond i v \<in> set (po_ops p)" if w: "wait_until i a limit now ps st1 = Some (Some v, st2)"
  proof -
    from w obtain s' where "slot_wait interaction_act ix_slots a (map_option (\<lambda>d. now + d) limit) ps st1 = Some (Answered v, s')"
      by (auto simp: wait_until_def split: option.splits polled.splits)
    from inter.wait_answered [OF this o] show ?thesis by auto
  qed
  show "wait_until i a limit now ps st1 \<noteq> None"
    if "\<exists>p \<in> set ps. po_cancelled p \<or> past (map_option (\<lambda>d. now + d) limit) (po_now p)"
    using slot_wait_returns [OF that, of interaction_act ix_slots a st1]
    by (auto simp: wait_until_def split: option.splits)
  show "\<not> fst (interaction_resolve i w st2)" if "wait_until i a limit now ps st1 = Some (r, st2)"
    using that
    by (auto simp: wait_until_def interaction_discard_def interaction_resolve_def slot_resolve_def slot_remove_def
        split: option.splits prod.splits)
qed

end
