(* ===== verification/Server_Routes.thy ===== *)
theory Server_Routes
  imports Server_Turns Server_Approval Server_Guard Store_Plan Store_Fork Store_Session
begin

text \<open>
  The write routes of a session, \<^verbatim>\<open>kn9t-server/src/routes/session.rs\<close>, and the threads they start
  (\<^verbatim>\<open>spawn_turn\<close> and \<^verbatim>\<open>spawn_compact\<close> of \<^verbatim>\<open>turn.rs\<close>). A request body is given decoded. Every append
  is echoed to the session's bus by the observer \<^verbatim>\<open>ServerState::new\<close> installs. \<open>sv_names\<close> is the column
  \<^verbatim>\<open>sessions.name\<close>; \<open>sv_threads\<close> are the threads that were spawned and have not run yet.
\<close>

subsection \<open>The state\<close>

datatype server_thread = Turn_Thread session_id model_spec | Compact_Thread session_id compact_span

record server =
  sv_store :: store
  sv_turns :: turns
  sv_leases :: lease_map
  sv_approvals :: approvals
  sv_buses :: session_buses
  sv_ready :: bool
  sv_reactivation :: "session_id \<rightharpoonup> string set"
  sv_default :: "model_spec option"
  sv_names :: "session_id \<rightharpoonup> string"
  sv_cwd :: string
  sv_threads :: "server_thread list"

record json_resp =
  jr_status :: nat
  jr_body :: json

definition resp_ok :: "json \<Rightarrow> json_resp" where
  "resp_ok v = \<lparr>jr_status = 200, jr_body = v\<rparr>"

definition resp_error :: "nat \<Rightarrow> string \<Rightarrow> string \<Rightarrow> json_resp" where
  "resp_error http code msg =
     \<lparr>jr_status = http, jr_body = JObj [(''error'', JStr code), (''message'', JStr msg)]\<rparr>"

text \<open>\<^verbatim>\<open>Store::append\<close> followed by its observer.\<close>

definition sv_append ::
  "(json \<Rightarrow> string) \<Rightarrow> int \<Rightarrow> session_id \<Rightarrow> event \<Rightarrow> server \<Rightarrow> (store_err + nat) \<times> server" where
  "sv_append text_of now sid e sv =
     (case append text_of now sid e (sv_store sv) of
        (Inl err, st) \<Rightarrow> (Inl err, sv\<lparr>sv_store := st\<rparr>)
      | (Inr n, st) \<Rightarrow>
          (Inr n, sv\<lparr>sv_store := st, sv_buses := buses_publish sid (with_seq n e) (sv_buses sv)\<rparr>))"

definition session_exists :: "session_id \<Rightarrow> server \<Rightarrow> bool" where
  "session_exists sid sv \<longleftrightarrow> session_of sid (st_db (sv_store sv)) \<noteq> None"

subsection \<open>Life cycle\<close>

definition create_route ::
  "(store_err \<Rightarrow> string) \<Rightarrow> int \<Rightarrow> session_id \<Rightarrow> string option \<Rightarrow> model_ref option \<Rightarrow> string option \<Rightarrow> server \<Rightarrow>
   json_resp \<times> server" where
  "create_route err_text now fresh cwd model nm sv =
     (if \<not> sv_ready sv then (resp_error 503 ''loading'' ''plugins loading, retry shortly'', sv)
      else
        (let dir = (case cwd of Some c \<Rightarrow> c | None \<Rightarrow> sv_cwd sv)
         in case (case model of Some m \<Rightarrow> Some m | None \<Rightarrow> map_option ms_ref (sv_default sv)) of
              None \<Rightarrow> (resp_error 400 ''bad_model'' ''no model supplied and no server default'', sv)
            | Some m \<Rightarrow>
                (case create_session now fresh dir m (sv_store sv) of
                   (Inl e, st) \<Rightarrow> (resp_error 500 ''store_error'' (err_text e), sv\<lparr>sv_store := st\<rparr>)
                 | (Inr (), st) \<Rightarrow>
                     (resp_ok (JObj [(''id'', JStr fresh), (''cwd'', JStr dir), (''name'', enc_opt JStr nm),
                        (''model'', JObj [(''provider'', JStr (mr_provider m)), (''id'', JStr (mr_id m))])]),
                      sv\<lparr>sv_store := st,
                         sv_names := (case nm of Some n \<Rightarrow> (sv_names sv)(fresh \<mapsto> n) | None \<Rightarrow> sv_names sv)\<rparr>))))"

definition parse_reason :: "string option \<Rightarrow> string + fork_reason" where
  "parse_reason reason =
     (case reason of
        None \<Rightarrow> Inr Fork
      | Some r \<Rightarrow>
          if r = ''fork'' then Inr Fork else if r = ''rewind'' then Inr Rewind
          else if r = ''subagent'' then Inr Fork_Subagent else if r = ''tree'' then Inr Tree
          else Inl (''reason must be one of fork|rewind|subagent|tree, got '' @ [CHR 0x27] @ r @ [CHR 0x27]))"

definition fork_route ::
  "(store_err \<Rightarrow> string) \<Rightarrow> msg_id \<Rightarrow> int \<Rightarrow> session_id \<Rightarrow> session_id \<Rightarrow> nat option \<Rightarrow> string option \<Rightarrow> server \<Rightarrow>
   json_resp \<times> server" where
  "fork_route err_text mid now fresh sid origin_seq reason sv =
     (case parse_reason reason of
        Inl msg \<Rightarrow> (resp_error 400 ''bad_reason'' msg, sv)
      | Inr rs \<Rightarrow>
          (case session_of sid (st_db (sv_store sv)) of
             None \<Rightarrow> (resp_error 404 ''not_found'' ''session not found'', sv)
           | Some r \<Rightarrow>
               (case fork_session mid now
                       \<lparr>fa_origin = sid, fa_new = fresh,
                        fa_seq = (case origin_seq of Some n \<Rightarrow> n | None \<Rightarrow> 0), fa_reason = rs,
                        fa_budget = None, fa_cwd = s_cwd r\<rparr> (sv_store sv) of
                  (Inr (), st) \<Rightarrow> (resp_ok (JObj [(''id'', JStr fresh)]), sv\<lparr>sv_store := st\<rparr>)
                | (Inl e, st) \<Rightarrow> (resp_error 400 ''fork_failed'' (err_text e), sv\<lparr>sv_store := st\<rparr>))))"

definition delete_route ::
  "(store_err \<Rightarrow> string) \<Rightarrow> (json \<Rightarrow> string) \<Rightarrow> bool \<Rightarrow> session_id \<Rightarrow> server \<Rightarrow> json_resp \<times> server" where
  "delete_route err_text text_of held sid sv =
     (if \<not> session_exists sid sv then (resp_error 404 ''not_found'' ''session not found'', sv)
      else
        (case delete_session text_of sid (sv_store sv) of
           (Inr (), st) \<Rightarrow>
             (resp_ok (JObj [(''deleted'', JStr sid)]),
              sv\<lparr>sv_store := st, sv_buses := buses_drop_session held sid (sv_buses sv)\<rparr>)
         | (Inl e, st) \<Rightarrow> (resp_error 400 ''delete_failed'' (err_text e), sv\<lparr>sv_store := st\<rparr>)))"

definition lease_acquire_route :: "string \<Rightarrow> nat \<Rightarrow> session_id \<Rightarrow> bool \<Rightarrow> server \<Rightarrow> json_resp \<times> server" where
  "lease_acquire_route token now sid takeover sv =
     (case acquire token now sid takeover (sv_leases sv) of
        (Granted h, m) \<Rightarrow>
          (resp_ok (JObj [(''lease'', JStr h), (''session'', JStr sid)]), sv\<lparr>sv_leases := m\<rparr>)
      | (Busy, m) \<Rightarrow>
          (resp_error 409 ''session_busy'' ''another client holds the lease'', sv\<lparr>sv_leases := m\<rparr>))"

definition lease_release_route :: "session_id \<Rightarrow> string option \<Rightarrow> server \<Rightarrow> json_resp \<times> server" where
  "lease_release_route sid holder sv =
     (case holder of
        None \<Rightarrow> (resp_error 409 ''session_busy'' ''you do not hold this lease'', sv)
      | Some h \<Rightarrow>
          (case release sid h (sv_leases sv) of (ok, m) \<Rightarrow>
             (if ok then resp_ok (JObj [(''released'', JStr sid)])
              else resp_error 409 ''session_busy'' ''you do not hold this lease'', sv\<lparr>sv_leases := m\<rparr>)))"

subsection \<open>Prompt and steer\<close>

definition parse_data_uri :: "(string \<Rightarrow> string option) \<Rightarrow> string \<Rightarrow> (string \<times> string) option" where
  "parse_data_uri b64dec uri =
     (case strip_prefix ''data:'' uri of
        None \<Rightarrow> None
      | Some rest \<Rightarrow>
          (case split_once CHR '','' rest of
             None \<Rightarrow> None
           | Some (head, data) \<Rightarrow>
               if ends_with head '';base64''
               then map_option (\<lambda>bytes. (take (length head - 7) head, bytes)) (b64dec data)
               else None))"

definition blob_content :: "store \<Rightarrow> string \<Rightarrow> content" where
  "blob_content st h =
     Image (''sha256:'' @ h) (case get_blob h (st_db st) of Some (_, m) \<Rightarrow> m | None \<Rightarrow> ''application/octet-stream'')"

fun store_images ::
  "(string \<Rightarrow> string) \<Rightarrow> (string \<Rightarrow> string option) \<Rightarrow> int \<Rightarrow> string list \<Rightarrow> store \<Rightarrow> content list \<times> store" where
  "store_images sha b64dec now [] st = ([], st)"
| "store_images sha b64dec now (uri # uris) st =
     (case parse_data_uri b64dec uri of
        None \<Rightarrow> store_images sha b64dec now uris st
      | Some (mime, bytes) \<Rightarrow>
          (case put_blob sha now bytes mime st of (h, st1) \<Rightarrow>
             (case store_images sha b64dec now uris st1 of (cs, st2) \<Rightarrow>
                (Image (''sha256:'' @ h) mime # cs, st2))))"

definition session_model :: "msg_id \<Rightarrow> session_id \<Rightarrow> server \<Rightarrow> model_spec option" where
  "session_model mid sid sv =
     (case get_model_spec_for_session mid sid (sv_store sv) of Some m \<Rightarrow> Some m | None \<Rightarrow> sv_default sv)"

definition spawn_turn :: "msg_id \<Rightarrow> session_id \<Rightarrow> server \<Rightarrow> server" where
  "spawn_turn mid sid sv =
     (case session_model mid sid sv of
        None \<Rightarrow> sv
      | Some m \<Rightarrow> sv\<lparr>sv_threads := sv_threads sv @ [Turn_Thread sid m]\<rparr>)"

definition prompt_route ::
  "(store_err \<Rightarrow> string) \<Rightarrow> (json \<Rightarrow> string) \<Rightarrow> (string \<Rightarrow> string) \<Rightarrow> (string \<Rightarrow> string option) \<Rightarrow> int \<Rightarrow> msg_id \<Rightarrow>
   session_id \<Rightarrow> string \<Rightarrow> string list \<Rightarrow> string list \<Rightarrow> server \<Rightarrow> json_resp \<times> server" where
  "prompt_route err_text text_of sha b64dec now mid sid ptext hashes images sv =
     (if \<not> sv_ready sv then (resp_error 503 ''loading'' ''plugins loading, retry shortly'', sv)
      else if is_turn_running sid (sv_turns sv) then
        (resp_error 409 ''turn_running''
          ''A turn is already running for this session. Wait for it to complete before sending another prompt.'', sv)
      else
        (case store_images sha b64dec now images (sv_store sv) of (imgs, st1) \<Rightarrow>
          (let cs = (if ptext = [] then [] else [Text ptext]) @ map (blob_content (sv_store sv)) hashes @ imgs;
               msg = \<lparr>msg_id = mid, msg_role = Role_User, msg_content = cs, msg_silent = False\<rparr>
           in case sv_append text_of now sid (MessageAppended 0 msg) (sv\<lparr>sv_store := st1\<rparr>) of
                (Inl e, sv1) \<Rightarrow> (resp_error 404 ''not_found'' (err_text e), sv1)
              | (Inr n, sv1) \<Rightarrow>
                  (resp_ok (JObj [(''accepted'', JBool True), (''seq'', enc_uint n)]), spawn_turn mid sid sv1))))"

definition steer_route ::
  "(store_err \<Rightarrow> string) \<Rightarrow> (json \<Rightarrow> string) \<Rightarrow> int \<Rightarrow> msg_id \<Rightarrow> session_id \<Rightarrow> string \<Rightarrow> server \<Rightarrow> json_resp \<times> server" where
  "steer_route err_text text_of now mid sid stext sv =
     (let msg = \<lparr>msg_id = mid, msg_role = Role_User, msg_content = [Text stext], msg_silent = False\<rparr>
      in if is_turn_running sid (sv_turns sv) then
           (resp_ok (JObj [(''steered'', JBool True), (''queued'', JBool True)]),
            sv\<lparr>sv_turns := queue_steering sid msg (sv_turns sv)\<rparr>)
         else
           (case sv_append text_of now sid (MessageAppended 0 msg) sv of
              (Inr n, sv1) \<Rightarrow> (resp_ok (JObj [(''steered'', JBool True), (''seq'', enc_uint n)]), sv1)
            | (Inl e, sv1) \<Rightarrow> (resp_error 404 ''not_found'' (err_text e), sv1)))"

definition abort_route :: "session_id \<Rightarrow> server \<Rightarrow> json_resp \<times> server" where
  "abort_route sid sv =
     (resp_ok (JObj [(''aborted'', JStr sid)]), sv\<lparr>sv_turns := abort_turn sid None (sv_turns sv)\<rparr>)"

text \<open>The head of the thread \<^verbatim>\<open>spawn_turn\<close> starts, up to the composition of the loop.\<close>

definition start_turn :: "nat \<Rightarrow> session_id \<Rightarrow> model_spec \<Rightarrow> server \<Rightarrow> turn_slot \<times> server" where
  "start_turn now sid m sv =
     (case register now sid (sv_turns sv) of (slot, t) \<Rightarrow>
        (slot, sv\<lparr>sv_turns := t, sv_store := register_model_spec m (sv_store sv)\<rparr>))"

subsection \<open>Settings\<close>

definition set_model_route ::
  "(store_err \<Rightarrow> string) \<Rightarrow> (json \<Rightarrow> string) \<Rightarrow> int \<Rightarrow> session_id \<Rightarrow> model_ref \<Rightarrow> server \<Rightarrow> json_resp \<times> server" where
  "set_model_route err_text text_of now sid m sv =
     (case sv_append text_of now sid (ModelChanged 0 m) sv of
        (Inr n, sv1) \<Rightarrow> (resp_ok (JObj [(''model_set'', JBool True), (''seq'', enc_uint n)]), sv1)
      | (Inl e, sv1) \<Rightarrow> (resp_error 404 ''not_found'' (err_text e), sv1))"

text \<open>The order of \<open>reenabled\<close> is the iteration order of a hash set: here that of the old list.\<close>

definition set_tools_route ::
  "(store_err \<Rightarrow> string) \<Rightarrow> (json \<Rightarrow> string) \<Rightarrow> msg_id \<Rightarrow> int \<Rightarrow> session_id \<Rightarrow> string list \<Rightarrow> server \<Rightarrow>
   json_resp \<times> server" where
  "set_tools_route err_text text_of mid now sid disabled sv =
     (let old = (case snapshot mid sid (sv_store sv) of Inr s \<Rightarrow> sn_disabled s | Inl _ \<Rightarrow> []);
          reenabled = filter (\<lambda>t. t \<notin> set disabled) (remdups old)
      in case sv_append text_of now sid (ToolsToggled 0 disabled) sv of
           (Inr n, sv1) \<Rightarrow>
             (resp_ok (JObj [(''tools_set'', JBool True), (''seq'', enc_uint n),
                (''reenabled'', JArr (map JStr reenabled))]),
              if reenabled = [] then sv1
              else sv1\<lparr>sv_reactivation := (sv_reactivation sv1)(sid \<mapsto> set reenabled)\<rparr>)
         | (Inl e, sv1) \<Rightarrow> (resp_error 404 ''not_found'' (err_text e), sv1))"

definition rename_route :: "session_id \<Rightarrow> string \<Rightarrow> server \<Rightarrow> json_resp \<times> server" where
  "rename_route sid nm sv =
     (let n = trim nm
      in if n = [] then (resp_error 400 ''bad_name'' ''name must be non-empty'', sv)
         else if 80 < length n then (resp_error 400 ''bad_name'' ''name must be <= 80 chars'', sv)
         else if \<not> session_exists sid sv then (resp_error 404 ''not_found'' ''session not found'', sv)
         else
           (resp_ok (JObj [(''id'', JStr sid), (''name'', JStr n)]),
            sv\<lparr>sv_names := (sv_names sv)(sid \<mapsto> n),
               sv_buses := buses_publish sid (Ev_TitleChanged n) (sv_buses sv)\<rparr>))"

definition approve_route ::
  "(string \<Rightarrow> toml option) \<Rightarrow> (toml \<Rightarrow> string option) \<Rightarrow> (approval_err \<Rightarrow> string) \<Rightarrow> nat \<Rightarrow> string \<Rightarrow> string option \<Rightarrow>
   server \<Rightarrow> json_resp \<times> server" where
  "approve_route pt qt err_text i dec scope sv =
     (case resolve_approval pt qt i dec scope (sv_approvals sv) of
        (Inr _, a) \<Rightarrow>
          (resp_ok (JObj [(''approved'', enc_uint i), (''decision'', JStr dec),
             (''scope'', JStr (case scope of Some s \<Rightarrow> s | None \<Rightarrow> if dec = ''always'' then ''always'' else ''once''))]),
           sv\<lparr>sv_approvals := a\<rparr>)
      | (Inl e, a) \<Rightarrow> (resp_error 400 ''bad_approval'' (err_text e), sv\<lparr>sv_approvals := a\<rparr>))"

subsection \<open>Compaction on demand\<close>

text \<open>The span that is forced when the plan proposes none: the cut of \<open>find_cut\<close>, written out again.\<close>

definition forced_span :: "nat list \<Rightarrow> message list \<Rightarrow> compact_span" where
  "forced_span seqs msgs =
     (let cut = find_cut msgs (length msgs div 2);
          start = (case seqs of [] \<Rightarrow> 1 | s # _ \<Rightarrow> s);
          stop = (if 0 < cut then (if cut - 1 < length seqs then seqs ! (cut - 1) else cut) else start)
      in \<lparr>cs_replaced = \<lparr>sr_start = start, sr_end = stop\<rparr>, cs_messages = take cut msgs\<rparr>)"

definition compact_route ::
  "(nat \<Rightarrow> msg_id) \<Rightarrow> (string \<Rightarrow> string) \<Rightarrow> (string \<Rightarrow> bool) \<Rightarrow> session_id \<Rightarrow> server \<Rightarrow> json_resp \<times> server" where
  "compact_route mint b64 parses sid sv =
     (if \<not> session_exists sid sv then (resp_error 404 ''not_found'' ''session not found'', sv)
      else if is_turn_running sid (sv_turns sv) then
        (resp_error 409 ''turn_running''
          ''A turn is already running for this session. Wait for it to finish before compacting.'', sv)
      else
        (let plan = plan_request mint b64 parses sid (sv_store sv);
             accepted = (\<lambda>csp. (resp_ok (JObj [(''accepted'', JBool True), (''message'', JStr ''compaction started'')]),
               sv\<lparr>sv_threads := sv_threads sv @ [Compact_Thread sid csp]\<rparr>))
         in case rp_compact plan of
              Some csp \<Rightarrow> accepted csp
            | None \<Rightarrow>
                if length (rp_messages plan) < 2
                then (resp_error 400 ''nothing_to_compact'' ''not enough messages to compact'', sv)
                else accepted (forced_span
                  (map m_seq (sort_key m_seq (messages_of sid (st_db (sv_store sv))))) (rp_messages plan))))"

text \<open>
  The thread \<^verbatim>\<open>spawn_compact\<close> starts: the slot is held from the start to the end. \<open>result\<close> is what the
  compactor plugin answered, or the message that there is none.
\<close>

definition run_compact ::
  "(store_err \<Rightarrow> string) \<Rightarrow> (json \<Rightarrow> string) \<Rightarrow> int \<Rightarrow> nat \<Rightarrow> session_id \<Rightarrow> compact_span \<Rightarrow>
   string + message \<Rightarrow> server \<Rightarrow> server" where
  "run_compact err_text text_of now t sid csp result sv =
     (case register t sid (sv_turns sv) of (slot, tu) \<Rightarrow>
        (let sv1 = sv\<lparr>sv_turns := tu\<rparr>;
             fail = (\<lambda>msg s. s\<lparr>sv_buses := buses_publish sid (Ev_Error (''Compaction failed: '' @ msg)) (sv_buses s)\<rparr>);
             sv2 = (case result of
                      Inl e \<Rightarrow> fail e sv1
                    | Inr summary \<Rightarrow>
                        (case sv_append text_of now sid (Compacted 0 (cs_replaced csp) summary) sv1 of
                           (Inr _, s) \<Rightarrow> s
                         | (Inl e, s) \<Rightarrow> fail (err_text e) s))
         in sv2\<lparr>sv_turns := drop_slot t slot (sv_turns sv2)\<rparr>))"

subsection \<open>What a prompt leaves alone\<close>

lemma sv_append_frame [simp]:
  "sv_turns (snd (sv_append text_of now s e x)) = sv_turns x"
  "sv_ready (snd (sv_append text_of now s e x)) = sv_ready x"
  by (simp_all add: sv_append_def split: prod.split sum.split)

lemma spawn_turn_frame [simp]:
  "sv_turns (spawn_turn m s x) = sv_turns x" "sv_ready (spawn_turn m s x) = sv_ready x"
  by (simp_all add: spawn_turn_def split: option.split)

text \<open>The only answer of a prompt that is a 409 is the one that finds a turn registered.\<close>

lemma prompt_route_frame:
  assumes "prompt_route err_text text_of sha b64dec now mid sid ptext hashes images sv = (r, sv')"
  shows "sv_turns sv' = sv_turns sv \<and> sv_ready sv' = sv_ready sv \<and>
    (jr_status r = 409 \<longrightarrow> is_turn_running sid (sv_turns sv))"
proof (cases "sv_ready sv \<and> \<not> is_turn_running sid (sv_turns sv)")
  case True
  obtain imgs st1 where i: "store_images sha b64dec now images (sv_store sv) = (imgs, st1)" by force
  define msg where "msg = \<lparr>msg_id = mid, msg_role = Role_User,
      msg_content = (if ptext = [] then [] else [Text ptext]) @ map (blob_content (sv_store sv)) hashes @ imgs,
      msg_silent = False\<rparr>"
  obtain x sv1 where a: "sv_append text_of now sid (MessageAppended 0 msg) (sv\<lparr>sv_store := st1\<rparr>) = (x, sv1)" by force
  then have "sv_turns sv1 = sv_turns sv \<and> sv_ready sv1 = sv_ready sv"
    using sv_append_frame [of text_of now sid "MessageAppended 0 msg" "sv\<lparr>sv_store := st1\<rparr>"] by simp
  moreover have "prompt_route err_text text_of sha b64dec now mid sid ptext hashes images sv =
    (case (x, sv1) of
        (Inl e, sv1) \<Rightarrow> (resp_error 404 ''not_found'' (err_text e), sv1)
      | (Inr n, sv1) \<Rightarrow> (resp_ok (JObj [(''accepted'', JBool True), (''seq'', enc_uint n)]), spawn_turn mid sid sv1))"
    using True i a by (simp add: prompt_route_def Let_def msg_def)
  ultimately show ?thesis
    using assms by (cases x) (auto simp: resp_ok_def resp_error_def)
next
  case False
  with assms show ?thesis by (auto simp: prompt_route_def resp_error_def split: if_splits)
qed

lemma run_compact_store:
  "sv_store (run_compact err_text text_of now t sid csp (Inr summary) sv) =
   snd (append text_of now sid (Compacted 0 (cs_replaced csp) summary) (sv_store sv))"
  by (simp add: run_compact_def sv_append_def Let_def split: prod.split sum.split)

end
