(* ===== verification/Server_Examples.thy ===== *)
theory Server_Examples
  imports Store_Examples Server_Attach Server_Routes
begin

text \<open>Concrete leases, approvals and server states on which the theorems about the server are applied.\<close>

definition ex_leases :: lease_map where
  "ex_leases = snd (acquire ''y'' 1 ''s'' True (snd (acquire ''x'' 0 ''s'' False (lease_map_new 300))))"

lemma ex_leases_run: "lease_run 300 [(''s'', ''lease-2-y''), (''s'', ''lease-1-x'')] 1 ex_leases"
proof -
  let ?m0 = "lease_map_new 300"
  have "acquire ''x'' 0 ''s'' False ?m0 = (Granted ''lease-1-x'', snd (acquire ''x'' 0 ''s'' False ?m0))"
    by (rule prod_eqI) code_simp+
  from run_wait [OF run_granted [OF run_new this], of 1]
  have "lease_run 300 [(''s'', ''lease-1-x'')] 1 (snd (acquire ''x'' 0 ''s'' False ?m0))" by simp
  moreover have "acquire ''y'' 1 ''s'' True (snd (acquire ''x'' 0 ''s'' False ?m0)) =
      (Granted ''lease-2-y'', ex_leases)"
    by (rule prod_eqI) code_simp+
  ultimately show ?thesis by (rule run_granted)
qed

definition ex_request :: "string \<Rightarrow> (string \<times> string) list \<Rightarrow> http_request" where
  "ex_request url hs = \<lparr>hr_method = Post, hr_url = url,
     hr_headers = [(''authorization'', ''Bearer tok''), (''x-lease'', ''lease-2-y'')] @ hs\<rparr>"

lemma ex_request_authed: "Option.bind (header ''Authorization'' (ex_request url hs)) parse_bearer = Some ''tok''"
proof -
  have "map ascii_lower ''authorization'' = map ascii_lower ''Authorization''" by code_simp
  then have "header ''Authorization'' (ex_request url hs) = Some ''Bearer tok''"
    by (simp add: header_def ex_request_def)
  moreover have "trim ''Bearer tok'' = ''Bearer tok''" "trim ''tok'' = ''tok''"
    by (rule trim_visible; simp add: visible_def)+
  moreover have "strip_prefix ''Bearer '' ''Bearer tok'' = Some ''tok''" by code_simp
  ultimately show ?thesis by (simp add: parse_bearer_def)
qed

definition ex_file :: config_file where
  "ex_file = \<lparr>cf_text = None, cf_mkdir = True, cf_read = True, cf_write = True, cf_rename = True\<rparr>"

definition ex_cache :: approval_cache where
  "ex_cache = \<lparr>ac_session = (\<lambda>_. None), ac_persistent = {}\<rparr>"

definition ex_write_call :: tool_call where
  "ex_write_call = \<lparr>tc_id = ''c'', tc_name = ''write'', tc_args = ''{}''\<rparr>"

text \<open>One question pending, of session \<open>t\<close>.\<close>

definition ex_asked :: approvals where
  "ex_asked = snd (request_begin (\<lambda>_. None) ex_write_call [] [] ''t'' (approvals_new ex_cache ex_file))"

definition ex_server :: "store \<Rightarrow> server" where
  "ex_server st =
     \<lparr>sv_store = st, sv_turns = turns_new 0 60, sv_leases = ex_leases, sv_approvals = ex_asked,
      sv_buses = buses_new, sv_ready = True, sv_reactivation = (\<lambda>_. None), sv_default = Some ex_spec,
      sv_names = (\<lambda>_. None), sv_cwd = ''/'', sv_threads = []\<rparr>"

text \<open>A session whose second message has a tool call that was never answered.\<close>

definition ex_kept :: message where
  "ex_kept = \<lparr>msg_id = ''x'', msg_role = Role_User, msg_content = [Text ''keep''], msg_silent = False\<rparr>"

definition ex_open :: store where
  "ex_open = fold (\<lambda>e st. snd (append ex_text 0 ''s'' e st))
     (map (MessageAppended 0) [ex_user, ex_call, ex_kept, ex_user]) ex1"

lemma ex_open_reachable: "store_reachable ex_text ex_open"
  unfolding ex_open_def by (rule reachable_appends [OF ex1_reachable]) code_simp

definition ex_compact :: "json_resp \<times> server" where
  "ex_compact = compact_route (\<lambda>_. ''n'') (\<lambda>s. s) (\<lambda>_. True) ''s'' (ex_server ex_open)"

definition ex_span :: compact_span where
  "ex_span = (case sv_threads (snd ex_compact) of Compact_Thread _ c # _ \<Rightarrow> c)"

text \<open>The transcript has the message.\<close>

definition ex_keeps :: "store \<Rightarrow> bool" where
  "ex_keeps st \<longleftrightarrow> enc_contents (msg_content ex_kept) \<in> set (map m_content (messages_of ''s'' (durable_db st)))"

end
