(* ===== verification/Scenarios.thy ===== *)
theory Scenarios
  imports React_Examples Server_Examples
begin

text \<open>
  Facts about the program that are not among the properties of the root theory: the check of the
  projection on a reachable store, what a run records and when it has a result, and concrete runs in which the code does not do what a comment or
  a document of the repository promises.
\<close>

text \<open>The check of gate G2 is quiet on every reachable store.\<close>

lemma check_clean:
  assumes "store_reachable text_of st"
  shows "reproject_check new_id (durable_db st) = []"
  using reachable_inv [OF assms] reproject_check_clean by (simp add: store_inv_def)

lemma check_clean_witness: "reproject_check [] (durable_db ex3) = []"
  by (rule check_clean [OF ex3_reachable])

text \<open>
  The progress a dead process salvaged never reaches the model: the statement that reads it
  names a table that does not exist, so a plan's closing results always say only that the call was
  interrupted.
\<close>

lemma salvage_never_read:
  "get_live_tool_progress sid cid st = Inl (Bad_Statement ''live_tool_callsWHERE'') \<and>
   salvage_text (salvage_from sid st cid) = interrupted_tool_result"
  by (simp add: get_live_tool_progress_fails salvage_from_def salvage_text_def)

text \<open>
  Blob counts and forks: a fork copies messages that reference a blob without counting them,
  while deleting the fork does decrement, so a blob the origin still references is deleted.
\<close>

lemma fork_delete_loses_blob:
  "store_reachable ex_text ex_img3 \<and>
   refcount ''ab'' (st_db ex_img1) = Some 1 \<and> refcount ''ab'' (st_db ex_img2) = Some 1 \<and>
   get_blob ''ab'' (st_db ex_img3) = None \<and>
   map m_content (messages_of ''s'' (st_db ex_img3)) = [enc_contents (msg_content ex_image)]"
  by (intro conjI ex_img3_reachable) code_simp+

text \<open>
  The reproject check compares keys only: a store whose messages differ from the log in their
  content alone still passes it.
\<close>

lemma check_ignores_content:
  assumes "db_ok d" and "map message_key (messages d') = map message_key (messages d)"
    and "d' = d\<lparr>messages := messages d'\<rparr>"
  shows "reproject_check new_id d' = []"
proof -
  have "events d' = events d" and "usages d' = usages d"
    using assms(3) by (metis db.select_convs db.surjective db.update_convs(3))+
  then have "reproject_check new_id d' = reproject_check new_id d"
    by (simp add: reproject_check_def assms(2))
  with reproject_check_clean [OF assms(1)] show ?thesis by simp
qed

lemma check_ignores_content_witness:
  "reproject_check [] ((st_db ex2)\<lparr>messages := map (\<lambda>m. m\<lparr>m_content := JNull\<rparr>) (messages (st_db ex2))\<rparr>) = []"
proof -
  have "st_txn ex2 = None" by code_simp
  then have "db_ok (st_db ex2)"
    using reachable_inv [OF ex2_reachable] by (simp add: store_inv_def durable_db_def)
  then show ?thesis
    by (rule check_ignores_content) (simp_all add: message_key_def comp_def)
qed

text \<open>
  The flush recognizes an evicted durable echo only by a later durable one. If an echo is followed
  by as many transient events as the ring holds before the flush reads it, the event is in no frame of
  the prelude and no gap is reported.
\<close>

lemma lost_echo_unflagged:
  fixes new_id :: msg_id and lost :: event
  assumes "store_reachable text_of st" and "st_txn st = None" and "store_log st sid = Some es"
    and "in_i64 (int from)" and "bus_ok b" and "subscribe cap b = (i, b1)" and "\<forall>e \<in> set ts. seq e = None"
    and "max cap 1 \<le> length ts"
  defines "p \<equiv> build_attach_prelude text_of new_id st sid from
      (fst (drain_ring (the (bus_rings (fold publish (lost # ts) b1) i))))"
  shows "ap_frames p = map (sse_frame text_of) (drop from es) @
      (case get_live_message sid st of Some q \<Rightarrow> [live_partial_frame (text_of q)] | None \<Rightarrow> []) @
      map (sse_frame text_of) (last_n (max cap 1) ts) \<and>
    \<not> ap_gap p \<and> ap_contiguous p = length es"
proof -
  have b1: "bus_rings b1 i = Some \<lparr>rg_buf = [], rg_closed = False, rg_capacity = max cap 1\<rparr>" "bus_ok b1"
    using assms(6) bus_ok_subscribe [OF assms(5), of cap] by (auto simp: subscribe_def)
  have "rg_buf (the (bus_rings (fold publish xs b1) i)) = last_n (max cap 1) xs" for xs
    using publishes_window [OF b1(2), of i "max cap 1" "[]" xs] b1(1) by (auto simp: sub_window_def)
  moreover have "last_n (max cap 1) (lost # ts) = last_n (max cap 1) ts"
    using assms(8) by (simp add: last_n_def Suc_diff_le)
  ultimately have w: "fst (drain_ring (the (bus_rings (fold publish (lost # ts) b1) i))) = last_n (max cap 1) ts"
    unfolding drain_all fst_conv by (simp only:)
  have "flush h xs c False = (xs, c, False)" if "\<forall>e \<in> set xs. seq e = None" for h xs c
    using that by (induction xs) simp_all
  moreover have "\<forall>e \<in> set (last_n (max cap 1) ts). seq e = None"
    using assms(7) by (auto simp: last_n_def dest: in_set_dropD)
  ultimately show ?thesis
    using read_durable_log [OF reachable_inv [OF assms(1)] assms(2-4), of new_id]
    unfolding p_def w build_attach_prelude_def by simp
qed

lemma lost_echo_unflagged_witness:
  "\<not> ap_gap (build_attach_prelude ex_text ''n'' ex2 ''s'' 3
      (last_n 1 [MessageAppended 4 ex_user, Ev_TextDelta ''t'' 0 ''x'']))"
proof -
  have "\<exists>es. store_log ex2 ''s'' = Some es" by (rule exI [of _ "the (store_log ex2 ''s'')"]) code_simp
  then obtain es where es: "store_log ex2 ''s'' = Some es" by blast
  have a: "st_txn ex2 = None" "in_i64 (int 3)" by code_simp+
  obtain b1 where b1: "subscribe 1 bus_new = (0, b1)" "bus_rings b1 0 = Some \<lparr>rg_buf = [], rg_closed = False, rg_capacity = 1\<rparr>"
    by (simp add: subscribe_def bus_new_def)
  moreover have "bus_ok b1" using bus_ok_subscribe [OF bus_ok_new, of 1] b1(1) by simp
  then have "sub_window (fold publish [MessageAppended 4 ex_user, Ev_TextDelta ''t'' 0 ''x''] b1) 0 =
      Some (1, last_n 1 [MessageAppended 4 ex_user, Ev_TextDelta ''t'' 0 ''x''])"
    by (subst publishes_window [of _ _ _ "[]"]) (simp_all add: b1 sub_window_def)
  ultimately show ?thesis
    using lost_echo_unflagged [OF ex2_reachable a(1) es a(2) bus_ok_new b1(1), of "[Ev_TextDelta ''t'' 0 ''x'']"
        "''n''" "MessageAppended 4 ex_user"]
    by (auto simp: drain_all sub_window_def simp del: fold_simps)
qed

text \<open>
  Two turns of one session: a prompt checks for a running turn, but the turn is registered only when
  its thread runs. A second prompt before that is not refused; once both threads have registered, the end
  of the first turn deregisters the second, which then neither blocks a prompt nor can be aborted.
\<close>

lemma two_prompts_two_turns:
  fixes bus :: bus and stop :: stop_reason and k :: nat
  assumes "sv_ready sv" and "\<not> is_turn_running sid (sv_turns sv)"
    and "prompt_route err_text text_of sha b64dec now mid1 sid text1 blobs1 images1 sv = (r1, sv1)"
    and "prompt_route err_text text_of sha b64dec now mid2 sid text2 blobs2 images2 sv1 = (r2, sv2)"
    and "start_turn t1 sid m1 sv2 = (s1, sv3)" and "start_turn t2 sid m2 sv3 = (s2, sv4)"
  defines "ended \<equiv> sink_emit now sid (TurnFinishing k stop)
      \<lparr>ss_turns = sv_turns sv4, ss_store = sv_store sv4, ss_bus = bus\<rparr>"
  shows "jr_status r2 \<noteq> 409 \<and> tn_id s1 < tn_id s2 \<and> running_turn_id sid (sv_turns sv4) = Some (tn_id s2) \<and>
    \<not> is_turn_running sid (ss_turns ended) \<and> abort_turn sid want (ss_turns ended) = ss_turns ended"
proof -
  have "jr_status r2 \<noteq> 409"
    using prompt_route_frame [OF assms(3)] prompt_route_frame [OF assms(4)] assms(2) by auto
  then show ?thesis
    using assms(5,6)
    by (auto simp: ended_def start_turn_def register_def register_with_def cancel_new_def Let_def
        running_turn_id_def sink_emit_def release_running_def release_turn_def is_turn_running_def
        abort_turn_def split: prod.splits)
qed

lemma two_prompts_two_turns_witness:
  "\<exists>sv1 sv2 sv3 sv4 r1 r2 s1 s2.
     prompt_route (\<lambda>_. []) ex_text (\<lambda>_. []) (\<lambda>_. None) 0 ''m'' ''s'' ''one'' [] [] (ex_server ex4) = (r1, sv1) \<and>
     prompt_route (\<lambda>_. []) ex_text (\<lambda>_. []) (\<lambda>_. None) 0 ''n'' ''s'' ''two'' [] [] sv1 = (r2, sv2) \<and>
     start_turn 1 ''s'' ex_spec sv2 = (s1, sv3) \<and> start_turn 2 ''s'' ex_spec sv3 = (s2, sv4) \<and>
     jr_status r2 \<noteq> 409 \<and> running_turn_id ''s'' (sv_turns sv4) = Some (tn_id s2)"
proof -
  obtain r1 sv1 where p1: "prompt_route (\<lambda>_. []) ex_text (\<lambda>_. []) (\<lambda>_. None) 0 ''m'' ''s'' ''one'' [] [] (ex_server ex4) = (r1, sv1)"
    by force
  obtain r2 sv2 where p2: "prompt_route (\<lambda>_. []) ex_text (\<lambda>_. []) (\<lambda>_. None) 0 ''n'' ''s'' ''two'' [] [] sv1 = (r2, sv2)"
    by force
  obtain s1 sv3 where t1: "start_turn 1 ''s'' ex_spec sv2 = (s1, sv3)" by force
  obtain s2 sv4 where t2: "start_turn 2 ''s'' ex_spec sv3 = (s2, sv4)" by force
  have "sv_ready (ex_server ex4)" "\<not> is_turn_running ''s'' (sv_turns (ex_server ex4))"
    by (simp_all add: ex_server_def turns_new_def is_turn_running_def)
  from two_prompts_two_turns [OF this p1 p2 t1 t2] p1 p2 t1 t2 show ?thesis by blast
qed

text \<open>
  A compaction forced by the route can lose a message. When the plan has inserted a result for a call
  that was never answered, the route cuts the plan's messages but counts the cut in stored rows: the range
  that is replaced then holds a message that the compactor is not given, and that is in the transcript no
  more afterwards.
\<close>

lemma forced_compaction_loses_message:
  "jr_status (fst (compact_route (\<lambda>_. ''n'') (\<lambda>s. s) (\<lambda>_. True) ''s'' (ex_server ex_open))) = 200 \<and>
   ex_keeps ex_open \<and> msg_content ex_kept \<notin> set (map msg_content (cs_messages ex_span)) \<and>
   \<not> ex_keeps (sv_store (run_compact (\<lambda>_. []) ex_text 0 1 ''s'' ex_span (Inr ex_user) (snd ex_compact)))"
proof -
  have "cs_replaced ex_span = \<lparr>sr_start = 1, sr_end = 3\<rparr>" by code_simp
  moreover have "sv_store (snd ex_compact) = ex_open"
    by (simp add: ex_compact_def compact_route_def ex_server_def Let_def split: option.split)
  moreover have "\<not> ex_keeps (snd (append ex_text 0 ''s'' (Compacted 0 \<lparr>sr_start = 1, sr_end = 3\<rparr> ex_user) ex_open))"
    by code_simp
  moreover have "jr_status (fst ex_compact) = 200" by code_simp
  moreover have "ex_keeps ex_open" by code_simp
  moreover have "msg_content ex_kept \<notin> set (map msg_content (cs_messages ex_span))" by code_simp
  ultimately show ?thesis by (simp add: run_compact_store ex_compact_def)
qed

text \<open>
  Closing a bus releases its receivers: a subscriber that has drained its ring gets the end of
  the stream instead of waiting for an event that cannot come.
\<close>

lemma closed_bus_never_blocks:
  assumes "bus_reachable b" and "bus_rings b i = Some r"
  shows "fst (recv i (bus_drop b)) \<noteq> Waits"
  by (rule recv_after_drop [OF bus_reachable_ok [OF assms(1)] assms(2)])

lemma closed_bus_never_blocks_witness:
  "fst (recv 0 (bus_drop (snd (subscribe 4 bus_new)))) \<noteq> Waits"
  by (rule closed_bus_never_blocks [OF reach_step [OF reach_new step_subscribe]]) (simp add: subscribe_def bus_new_def)

text \<open>
  The store notifies its observer after it has released the lock, so an append can be in the log
  before its echo is on the bus. A client that subscribes and reads in that window is sent the event
  twice: by the replay, and by the live loop, which does not know the head any more.
\<close>

lemma late_echo_twice:
  fixes new_id :: msg_id
  assumes "store_reachable text_of st" and "event_in_range e" and "append text_of now sid e st = (Inr n, st')"
    and "st_txn st = None" and "from < n" and "in_i64 (int from)" and "bus_ok b"
    and "subscribe cap b = (i, b1)"
  defines "p \<equiv> build_attach_prelude text_of new_id st' sid from (fst (drain_ring (the (bus_rings b1 i))))"
    and "b2 \<equiv> publish (with_seq n e) b1"
  shows "sse_frame text_of (with_seq n e) \<in> set (ap_frames p) \<and> ap_head p = n \<and> \<not> ap_gap p \<and>
    fst (recv i b2) = Received (with_seq n e) \<and>
    run_live_loop text_of [(fst (recv i b2), True)] = ([sse_frame text_of (with_seq n e)], 1)"
proof -
  have inv: "store_inv (durable_db st)" by (rule reachable_inv [OF assms(1)])
  obtain es where es: "store_log st sid = Some es" "n = length es + 1"
      "store_log st' sid = Some (es @ [with_seq n e])"
    using append_log [OF inv assms(2,3)] by auto
  have st': "store_inv (durable_db st')" "st_txn st' = None"
  proof -
    have "store_reachable text_of st'"
      using reach_store_step [OF assms(1) step_append [OF assms(2)], of now sid] assms(3) by simp
    then show "store_inv (durable_db st')" by (rule reachable_inv)
    show "st_txn st' = None" using assms(3,4) by (auto simp: append_Inr_iff)
  qed
  have "read_durable_since new_id st' sid from = (drop from (es @ [with_seq n e]), n)"
    using read_durable_log [OF st' es(3) assms(6)] es(2) by simp
  moreover have "drop from (es @ [with_seq n e]) = drop from es @ [with_seq n e]" using assms(5) es(2) by simp
  moreover have b1: "bus_rings b1 i = Some \<lparr>rg_buf = [], rg_closed = False, rg_capacity = max cap 1\<rparr>"
    "bus_ok b1"
    using assms(8) bus_ok_subscribe [OF assms(7), of cap] by (auto simp: subscribe_def)
  moreover have "bus_rings b2 i = Some \<lparr>rg_buf = [with_seq n e], rg_closed = False, rg_capacity = max cap 1\<rparr>"
    unfolding b2_def publish_ring [OF b1(2)] b1(1) by (simp add: ring_push_def)
  ultimately show ?thesis
    by (simp add: p_def build_attach_prelude_def drain_all recv_def ring_recv_def)
qed

lemma late_echo_twice_witness:
  "\<exists>st'. append ex_text 0 ''s'' (MessageAppended 0 ex_user) ex2 = (Inr 4, st') \<and>
     sse_frame ex_text (MessageAppended 4 ex_user) \<in>
       set (ap_frames (build_attach_prelude ex_text ''n'' st' ''s'' 3 []))"
proof -
  obtain st' where st': "append ex_text 0 ''s'' (MessageAppended 0 ex_user) ex2 = (Inr 4, st')"
    by (rule that [of "snd (append ex_text 0 ''s'' (MessageAppended 0 ex_user) ex2)"], rule prod_eqI) code_simp+
  have "event_in_range (MessageAppended 0 ex_user)" "st_txn ex2 = None" "in_i64 (int 3)" by code_simp+
  moreover obtain b1 where "subscribe 1024 bus_new = (0, b1)"
      "the (bus_rings b1 0) = \<lparr>rg_buf = [], rg_closed = False, rg_capacity = 1024\<rparr>"
    by (simp add: subscribe_def bus_new_def)
  ultimately show ?thesis
    using late_echo_twice [OF ex2_reachable _ st', of 3 bus_new 1024 0 b1 "''n''"] bus_ok_new st'
    by (simp add: drain_all)
qed

text \<open>
  An approval is guarded by a lease, but not by the lease of the session that asks: the holder of
  any session's lease, naming that session, has its answer to a question of another session accepted,
  and with scope \<^verbatim>\<open>session\<close> cached for that other session.
\<close>

lemma approve_any_session:
  assumes "ap_meta (sv_approvals sv) i = Some q" and "sl_table (ap_slots (sv_approvals sv)) i = Some a"
    and "lease_of sid (sv_leases sv) = Some l" and "t - le_active l < lm_idle (sv_leases sv)"
    and "am_session q \<noteq> sid" and "am_session q \<noteq> []"
    and "hr_method req = Post" and "segments (path_of (hr_url req)) = [''approve'']"
    and "header ''Origin'' req = None" and "Option.bind (header ''Authorization'' req) parse_bearer = Some token"
    and "header ''X-Lease'' req = Some (le_holder l)" and "header ''X-Lease-Session'' req = Some sid"
  shows "fst (handle token t req (sv_leases sv)) = Dispatch [''approve''] \<and>
    (let sv1 = snd (approve_route pt qt err_text i ''allow'' (Some ''session'') sv)
     in sl_cells (ap_slots (sv_approvals sv1)) a = Some Decide_Allow \<and>
        is_approved (Some (am_session q)) (am_fingerprint q) (ap_cache (sv_approvals sv1)))"
proof -
  have "holds t sid (le_holder l) (sv_leases sv) = (True, set_active t sid l (sv_leases sv))"
    using assms(3,4) by (simp add: holds_def)
  then have "fst (handle token t req (sv_leases sv)) = Dispatch [''approve'']"
    using assms(7-12)
    by (simp add: handle_def Let_def token_matches_iff is_lease_required_def check_lease_def lease_session_for_def)
  then show ?thesis
    using assms(1,2,6)
    by (simp add: approve_route_def resolve_approval_def effective_scope_def registry_resolve_with_meta_def
        slot_resolve_def cache_answer_def approve_session_def is_approved_def Let_def)
qed

lemma approve_any_session_witness:
  "is_approved (Some ''t'') (fingerprint (\<lambda>_. None) ex_write_call)
     (ap_cache (sv_approvals (snd (approve_route (\<lambda>_. None) (\<lambda>_. None) (\<lambda>_. []) 1 ''allow'' (Some ''session'')
       (ex_server ex2)))))"
proof -
  let ?q = "\<lparr>am_fingerprint = fingerprint (\<lambda>_. None) ex_write_call, am_session = ''t'', am_tool = ''write''\<rparr>"
  let ?l = "\<lparr>le_holder = ''lease-2-y'', le_active = 1\<rparr>"
  let ?r = "ex_request ''/approve'' [(''X-Lease-Session'', ''s'')]"
  have "ap_meta ex_asked 1 = Some ?q" "sl_table (ap_slots ex_asked) 1 = Some 0"
    by (simp_all add: ex_asked_def request_begin_def is_approved_def ex_cache_def approvals_new_def
        registry_create_def slot_create_def slots_new_def Let_def ex_write_call_def)
  moreover have "lease_of ''s'' ex_leases = Some ?l" "1 - le_active ?l < lm_idle ex_leases" by code_simp+
  moreover have "segments (path_of (hr_url ?r)) = [''approve'']" "header ''Origin'' ?r = None"
    "header ''X-Lease'' ?r = Some (le_holder ?l)" "header ''X-Lease-Session'' ?r = Some ''s''" "hr_method ?r = Post"
    by code_simp+
  ultimately show ?thesis
    using approve_any_session [of "ex_server ex2" 1 ?q 0 "''s''" ?l 1 ?r "''tok''"] ex_request_authed
    by (simp add: ex_server_def Let_def)
qed

text \<open>
  The only usage a run ever records is of the kind \<open>Main\<close>, and the only events it appends are messages,
  usage and compaction events. The documents (R-RCT-090, R-RCT-095) and the comments of \<^verbatim>\<open>exec.rs\<close> want a
  record of the kind \<open>Compaction\<close> for a compaction; no code appends one.
\<close>

lemma run_appends:
  assumes "run env p w = Some (r, w')"
  shows "\<exists>es. w_log w' = w_log w @ es \<and>
     (\<forall>e \<in> set es. compaction_event e \<or> (\<exists>m. e = MessageAppended 0 m) \<or>
        (\<exists>u. e = UsageRecorded 0 u \<and> ur_kind u = Main))"
proof -
  have "logs loop_event w w'"
    using loop_log.run_from_keeps [OF assms [unfolded run_def] refl logs_refl [OF refl]] by simp
  then show ?thesis by (auto simp: logs_def loop_event_def main_usage_iff)
qed

lemma run_appends_witness:
  "\<exists>r w'. run (ex_env False) ex_params (ex_world []) = Some (r, w') \<and>
     (\<forall>n u. UsageRecorded n u \<in> set (w_log w') \<longrightarrow> ur_kind u = Main)"
proof -
  have "sequential_tools (ex_env False)" "rc_max_turns (pr_config ex_params) = Some 2"
    by (simp_all add: sequential_tools_def ex_env_def ex_process_def ex_tool_def ex_params_def)
  from run_from_returns [OF this] obtain r w' where run: "run (ex_env False) ex_params (ex_world []) = Some (r, w')"
    by (metis run_def surj_pair)
  have "w_log (ex_world ([] :: event list)) = []" by (simp add: ex_world_def)
  with run_appends [OF run] have
    "\<forall>e \<in> set (w_log w'). compaction_event e \<or> (\<exists>m. e = MessageAppended 0 m) \<or> (\<exists>u. e = UsageRecorded 0 u \<and> ur_kind u = Main)"
    by auto
  then have "ur_kind u = Main" if "UsageRecorded n u \<in> set (w_log w')" for n u
    using that by (fastforce simp: compaction_event_def)
  with run show ?thesis by blast
qed

text \<open>
  With a turn cap and no parallel tool in any registry snapshot, a run has a result (one that unwinds
  included), as long as each call of the provider, of a tool, of a hook and of the compactor has one: in
  the model they are functions. A call that hangs, a sequential tool say, hangs the run.
\<close>

lemma capped_run_returns:
  assumes "\<forall>x. \<forall>t \<in> set (fst (e_tools env x)). \<not> tl_parallel_safe t" and "rc_max_turns (pr_config p) = Some n"
  shows "\<exists>r w'. run env p w = Some (r, w')"
  using run_from_returns [of env p n 0 w] assms by (auto simp: sequential_tools_def run_def)

lemma capped_run_returns_witness:
  "\<exists>r w'. run (ex_env False) ex_params (ex_world []) = Some (r, w')"
  by (rule capped_run_returns [where n = 2]) (simp_all add: ex_env_def ex_process_def ex_tool_def ex_params_def)

end
