(* ===== verification/Provider_Decode.thy ===== *)
theory Provider_Decode
  imports Provider_Assemble Provider_Retry
begin

text \<open>
  The reading side of \<^verbatim>\<open>kn9t-provider-openai\<close> (\<^verbatim>\<open>decode.rs\<close>, \<^verbatim>\<open>provider.rs\<close>) and the line splitter
  of \<^verbatim>\<open>kn9t-provider-core/src/sse.rs\<close>: a chat-completions stream or response becomes chunks. The JSON
  parser and printer are the parameters \<open>parse\<close>, which answers an error text or a value, and \<open>text_of\<close>.
  The last part shows that the streamed and the unstreamed form of an answer assemble to the same message.
\<close>

subsection \<open>Reading a value\<close>

definition str_at :: "string \<Rightarrow> json \<Rightarrow> string option" where
  "str_at k j = Option.bind (obj_get k j) dec_str"

definition arr_of :: "json \<Rightarrow> json list option" where
  "arr_of j = (case j of JArr xs \<Rightarrow> Some xs | _ \<Rightarrow> None)"

definition u64_of :: "json \<Rightarrow> nat option" where
  "u64_of j = dec_uint u64_max j"

text \<open>\<^verbatim>\<open>pointer("/a/b")\<close>, for keys that are not array indices.\<close>

definition pointer :: "string \<Rightarrow> string \<Rightarrow> json \<Rightarrow> json option" where
  "pointer a b j = Option.bind (obj_get a j) (obj_get b)"

definition or_else :: "'a option \<Rightarrow> 'a option \<Rightarrow> 'a option" where
  "or_else x y = (case x of None \<Rightarrow> y | Some _ \<Rightarrow> x)"

text \<open>\<^verbatim>\<open>.and_then(as_u64).unwrap_or(0) as u32\<close>.\<close>

definition count_of :: "json option \<Rightarrow> nat" where
  "count_of x = cast_u32 (case Option.bind x u64_of of None \<Rightarrow> 0 | Some n \<Rightarrow> n)"

text \<open>Addition of two \<^verbatim>\<open>u32\<close> in a release build.\<close>

definition add_u32 :: "nat \<Rightarrow> nat \<Rightarrow> nat" where
  "add_u32 a b = cast_u32 (a + b)"

lemma reader_simps [codec_simps]:
  "str_at k (JObj kvs) = (case map_of kvs k of Some (JStr s) \<Rightarrow> Some s | _ \<Rightarrow> None)"
  "arr_of (JArr xs) = Some xs"
  "pointer a b (JObj kvs) = (case map_of kvs a of Some v \<Rightarrow> obj_get b v | None \<Rightarrow> None)"
  by (auto simp: str_at_def obj_get_def arr_of_def pointer_def dec_str_def split: option.split json.split)

lemma cast_u32_id: "in_u32 n \<Longrightarrow> cast_u32 n = n"
  by (simp add: cast_u32_def in_u32_def u32_max_def)

subsection \<open>Quirks (quirks.rs)\<close>

record quirks =
  q_max_tokens_field :: string
  q_system_role :: string
  q_usage_in_stream :: bool
  q_finish_reason :: bool
  q_reasoning :: string
  q_tool_result_name :: bool
  q_thinking_style :: string
  q_thinking_replay :: string
  q_require_tools :: bool
  q_streaming :: bool
  q_extra_body :: json
  q_trim_trailing_whitespace :: bool
  q_session_header :: string
  q_api :: string

definition default_quirks :: quirks where
  "default_quirks =
     \<lparr>q_max_tokens_field = ''max_tokens'', q_system_role = ''system'', q_usage_in_stream = False,
      q_finish_reason = True, q_reasoning = ''none'', q_tool_result_name = False,
      q_thinking_style = ''none'', q_thinking_replay = ''strip'', q_require_tools = False,
      q_streaming = True, q_extra_body = JNull, q_trim_trailing_whitespace = False,
      q_session_header = [], q_api = ''chat''\<rparr>"

definition merge_quirks :: "quirks \<Rightarrow> quirks \<Rightarrow> quirks" where
  "merge_quirks provider model =
     \<lparr>q_max_tokens_field = q_max_tokens_field model, q_system_role = q_system_role model,
      q_usage_in_stream = q_usage_in_stream model, q_finish_reason = q_finish_reason model,
      q_reasoning = q_reasoning model, q_tool_result_name = q_tool_result_name model,
      q_thinking_style = q_thinking_style model, q_thinking_replay = q_thinking_replay model,
      q_require_tools = q_require_tools model, q_streaming = q_streaming model,
      q_extra_body = (if q_extra_body model = JNull then q_extra_body provider else q_extra_body model),
      q_trim_trailing_whitespace = (q_trim_trailing_whitespace model \<or> q_trim_trailing_whitespace provider),
      q_session_header = q_session_header model, q_api = q_api model\<rparr>"

text \<open>
  Merging is associative, and the default is neutral on the left. It is not neutral on the right: a
  model block that names nothing resets the provider's fields to their defaults, all but two.
\<close>

lemma merge_quirks_assoc:
  "merge_quirks (merge_quirks a b) c = merge_quirks a (merge_quirks b c)"
  by (simp add: merge_quirks_def)

lemma merge_quirks_default_left: "merge_quirks default_quirks q = q"
  by (simp add: merge_quirks_def default_quirks_def)

lemma merge_quirks_default_right:
  "merge_quirks q default_quirks =
     default_quirks\<lparr>q_extra_body := q_extra_body q,
       q_trim_trailing_whitespace := q_trim_trailing_whitespace q\<rparr>"
  by (simp add: merge_quirks_def default_quirks_def)

subsection \<open>Fallback prices (pricing.rs)\<close>

text \<open>
  An entry of the parsed table, in dollars per million tokens; \<open>compile\<close> is the regex crate with case
  ignored. An entry whose pattern does not compile is left out, and the first that matches is taken.
\<close>

record price_entry =
  pe_pattern :: string
  pe_input :: f64
  pe_output :: f64
  pe_cache_read :: f64
  pe_cache_write :: f64

definition entry_price :: "price_entry \<Rightarrow> price" where
  "entry_price e =
     \<lparr>p_input = usd_to_micros (pe_input e), p_output = usd_to_micros (pe_output e),
      p_cache_read = usd_to_micros (pe_cache_read e), p_cache_write = usd_to_micros (pe_cache_write e)\<rparr>"

definition pricing_table ::
  "(string \<Rightarrow> (string \<Rightarrow> bool) option) \<Rightarrow> price_entry list \<Rightarrow> ((string \<Rightarrow> bool) \<times> price) list" where
  "pricing_table compile es =
     List.map_filter (\<lambda>e. map_option (\<lambda>f. (f, entry_price e)) (compile (pe_pattern e))) es"

definition lookup_price ::
  "(string \<Rightarrow> (string \<Rightarrow> bool) option) \<Rightarrow> price_entry list \<Rightarrow> string \<Rightarrow> price option" where
  "lookup_price compile es api = map_option snd (List.find (\<lambda>(f, _). f api) (pricing_table compile es))"

text \<open>A fallback price is in the range of its type, whatever the table says.\<close>

lemma usd_to_micros_range: "in_i64 (usd_to_micros d)"
  by (simp add: usd_to_micros_def in_i64_def i64_min_def i64_max_def)

lemma lookup_price_range:
  assumes "lookup_price compile es api = Some p"
  shows "in_i64 (p_input p) \<and> in_i64 (p_output p) \<and> in_i64 (p_cache_read p) \<and> in_i64 (p_cache_write p)"
proof -
  obtain f where "List.find (\<lambda>(f, _). f api) (pricing_table compile es) = Some (f, p)"
    using assms by (auto simp: lookup_price_def)
  then have "(f, p) \<in> set (pricing_table compile es)" by (auto dest: find_SomeD')
  then obtain e where "p = entry_price e"
    by (auto simp: pricing_table_def List.map_filter_def)
  then show ?thesis by (simp add: entry_price_def usd_to_micros_range)
qed

subsection \<open>Headers and the body reader (http.rs, abort.rs)\<close>

datatype auth_scheme = Auth_Bearer | Auth_Token | Auth_Omit

definition auth_headers :: "(auth_scheme \<times> string) option \<Rightarrow> (string \<times> string) list" where
  "auth_headers auth = (case auth of
     Some (Auth_Bearer, key) \<Rightarrow> [(''Authorization'', ''Bearer '' @ key)]
   | Some (Auth_Token, key) \<Rightarrow> [(''Authorization'', ''token '' @ key)]
   | _ \<Rightarrow> [])"

text \<open>
  A read of the body happens on a thread of its own; the reader polls the cancel flag and the channel.
  A poll is what it sees of both.
\<close>

datatype read_poll = Read_Done "string + string" | Read_Pending | Reader_Gone

fun read_polls :: "(bool \<times> read_poll) list \<Rightarrow> (string + string) option" where
  "read_polls [] = None"
| "read_polls ((True, _) # ps) = Some (Inl ''cancelled'')"
| "read_polls ((False, Read_Done r) # ps) = Some r"
| "read_polls ((False, Read_Pending) # ps) = read_polls ps"
| "read_polls ((False, Reader_Gone) # ps) = Some (Inl ''reader thread died'')"

definition cancellable_read :: "bool \<Rightarrow> (bool \<times> read_poll) list \<Rightarrow> (string + string) option" where
  "cancellable_read cancelled ps = (if cancelled then Some (Inl ''cancelled'') else read_polls ps)"

text \<open>The read returns at the first poll that sees the flag, an answer, or the end of the thread.\<close>

lemma cancellable_read_returns:
  "cancellable_read c ps = None \<longleftrightarrow> \<not> c \<and> (\<forall>p \<in> set ps. p = (False, Read_Pending))"
proof -
  have "read_polls ps = None \<longleftrightarrow> (\<forall>p \<in> set ps. p = (False, Read_Pending))"
    by (induction ps rule: read_polls.induct) auto
  then show ?thesis by (simp add: cancellable_read_def)
qed

subsection \<open>One frame (decode.rs)\<close>

record tool_slot =
  sl_idx :: nat
  sl_id :: string
  sl_name :: string

record stream_state =
  st_tools :: "tool_slot list"
  st_has_tool_calls :: bool

definition empty_slot :: tool_slot where
  "empty_slot = \<lparr>sl_idx = 0, sl_id = [], sl_name = []\<rparr>"

definition stream_init :: stream_state where
  "stream_init = \<lparr>st_tools = [], st_has_tool_calls = False\<rparr>"

definition decode_stop :: "string \<Rightarrow> bool \<Rightarrow> quirks \<Rightarrow> stop_reason" where
  "decode_stop reason has_tools q =
     (if reason = ''stop'' then (if \<not> q_finish_reason q \<and> has_tools then ToolUse else Stop)
      else if reason = ''tool_calls'' then ToolUse
      else if reason = ''length'' then Length
      else if reason = ''content_filter'' then Refusal
      else Stop)"

definition decode_usage :: "json \<Rightarrow> tokens" where
  "decode_usage u =
     (let prompt = count_of (obj_get ''prompt_tokens'' u);
          output = count_of (obj_get ''completion_tokens'' u);
          cwrite = count_of (or_else (obj_get ''cache_creation_input_tokens'' u)
            (pointer ''prompt_tokens_details'' ''cache_creation_input_tokens'' u));
          cread = count_of (or_else (obj_get ''cached_tokens'' u)
            (pointer ''prompt_tokens_details'' ''cached_tokens'' u));
          reasoning = count_of (or_else (obj_get ''reasoning_tokens'' u)
            (pointer ''completion_tokens_details'' ''reasoning_tokens'' u))
      in \<lparr>t_input = prompt - add_u32 cread cwrite, t_output = output, t_cache_read = cread,
          t_cache_write = cwrite, t_reasoning = reasoning\<rparr>)"

text \<open>The slots up to the index exist after \<^verbatim>\<open>while state.tools.len() <= idx\<close>.\<close>

definition ensure_slot :: "nat \<Rightarrow> tool_slot list \<Rightarrow> tool_slot list" where
  "ensure_slot i ts = ts @ replicate (Suc i - length ts) empty_slot"

definition decode_tool_call :: "json \<Rightarrow> tool_slot list \<Rightarrow> chunk list \<times> tool_slot list" where
  "decode_tool_call tc tools =
     (let idx = count_of (obj_get ''index'' tc);
          ts = ensure_slot idx tools;
          slot = (ts ! idx)\<lparr>sl_idx := idx\<rparr>;
          args = (case Option.bind (pointer ''function'' ''arguments'' tc) dec_str of
                    Some a \<Rightarrow> if a = [] then [] else [Chunk_ToolArgs idx a] | None \<Rightarrow> [])
      in (case str_at ''id'' tc of
            Some i \<Rightarrow>
              if sl_id slot = []
              then let n = (case Option.bind (pointer ''function'' ''name'' tc) dec_str of
                              Some n \<Rightarrow> n | None \<Rightarrow> [])
                   in (Chunk_ToolCall idx i n # args, ts[idx := slot\<lparr>sl_id := i, sl_name := n\<rparr>])
              else (args, ts[idx := slot])
          | None \<Rightarrow> (args, ts[idx := slot])))"

fun decode_tool_calls :: "json list \<Rightarrow> tool_slot list \<Rightarrow> chunk list \<times> tool_slot list" where
  "decode_tool_calls [] ts = ([], ts)"
| "decode_tool_calls (tc # tcs) ts =
     (let (cs, ts') = decode_tool_call tc ts; (cs', ts'') = decode_tool_calls tcs ts' in (cs @ cs', ts''))"

text \<open>A text field of the delta, if it is there and not empty.\<close>

definition delta_text :: "string \<Rightarrow> json \<Rightarrow> string option" where
  "delta_text k d = (case str_at k d of Some s \<Rightarrow> if s = [] then None else Some s | None \<Rightarrow> None)"

definition thinking_shown :: "quirks \<Rightarrow> json \<Rightarrow> chunk list" where
  "thinking_shown q d =
     (if q_thinking_style q = ''reasoning_content''
      then (case delta_text ''reasoning_content'' d of Some s \<Rightarrow> [Chunk_Thinking 0 s] | None \<Rightarrow> [])
      else [])"

definition text_shown :: "json \<Rightarrow> chunk list" where
  "text_shown d = (case delta_text ''content'' d of Some s \<Rightarrow> [Chunk_Text 0 s] | None \<Rightarrow> [])"

definition decode_choice :: "quirks \<Rightarrow> json \<Rightarrow> stream_state \<Rightarrow> chunk list \<times> stream_state" where
  "decode_choice q choice st =
     (case obj_get ''delta'' choice of
        None \<Rightarrow> ([], st)
      | Some d \<Rightarrow>
          (let (calls, st') = (case Option.bind (obj_get ''tool_calls'' d) arr_of of
                 None \<Rightarrow> ([], st)
               | Some tcs \<Rightarrow> (let (cs, ts) = decode_tool_calls tcs (st_tools st)
                             in (cs, \<lparr>st_tools = ts, st_has_tool_calls = True\<rparr>)));
               stop = (case str_at ''finish_reason'' choice of
                 Some r \<Rightarrow> if r \<noteq> [] \<and> r \<noteq> ''null''
                   then [Chunk_Stop (decode_stop r (st_has_tool_calls st') q)] else []
               | None \<Rightarrow> [])
           in (text_shown d @ thinking_shown q d @ calls @ stop, st')))"

definition usage_chunks :: "model_ref \<Rightarrow> json \<Rightarrow> chunk list" where
  "usage_chunks m v = (case obj_get ''usage'' v of
     Some u \<Rightarrow> [Chunk_Usage \<lparr>u_tokens = decode_usage u, u_model = m\<rparr>] | None \<Rightarrow> [])"

text \<open>A frame with an \<^verbatim>\<open>error\<close> key, whatever its value, is an error.\<close>

definition frame_error :: "(json \<Rightarrow> string) \<Rightarrow> json \<Rightarrow> prov_err" where
  "frame_error text_of e =
     (if is_context_overflow 400 (text_of e) then ContextOverflow else prov_err.Stream (text_of e))"

definition decode_value ::
  "(json \<Rightarrow> string) \<Rightarrow> quirks \<Rightarrow> model_ref \<Rightarrow> json \<Rightarrow> stream_state \<Rightarrow> (prov_err + chunk list) \<times> stream_state" where
  "decode_value text_of q m v st =
     (case obj_get ''error'' v of
        Some e \<Rightarrow> (Inl (frame_error text_of e), st)
      | None \<Rightarrow>
          (case Option.bind (obj_get ''choices'' v) arr_of of
             Some (choice # _) \<Rightarrow>
               (let (cs, st') = decode_choice q choice st in (Inr (usage_chunks m v @ cs), st'))
           | _ \<Rightarrow> (Inr (usage_chunks m v), st)))"

definition decode_delta ::
  "(string \<Rightarrow> string + json) \<Rightarrow> (json \<Rightarrow> string) \<Rightarrow> quirks \<Rightarrow> model_ref \<Rightarrow> string \<Rightarrow> stream_state
    \<Rightarrow> (prov_err + chunk list) \<times> stream_state" where
  "decode_delta parse text_of q m bytes st =
     (case parse bytes of
        Inl e \<Rightarrow> (Inl (Decode (''json: '' @ e)), st)
      | Inr v \<Rightarrow> decode_value text_of q m v st)"

subsection \<open>A response that is not streamed (provider.rs)\<close>

definition some_text :: "string option \<Rightarrow> string" where
  "some_text x = (case x of Some s \<Rightarrow> s | None \<Rightarrow> [])"

fun synthesize_calls :: "nat \<Rightarrow> json list \<Rightarrow> chunk list" where
  "synthesize_calls i [] = []"
| "synthesize_calls i (tc # tcs) =
     Chunk_ToolCall (cast_u32 i) (some_text (str_at ''id'' tc))
       (some_text (Option.bind (pointer ''function'' ''name'' tc) dec_str))
     # Chunk_ToolArgs (cast_u32 i) (some_text (Option.bind (pointer ''function'' ''arguments'' tc) dec_str))
     # synthesize_calls (Suc i) tcs"

text \<open>Indexing a missing key of a value yields null, whose fields are all missing.\<close>

definition synthesize_chunks :: "json \<Rightarrow> quirks \<Rightarrow> model_ref \<Rightarrow> prov_err + chunk list" where
  "synthesize_chunks v q m =
     (case Option.bind (obj_get ''choices'' v) arr_of of
        None \<Rightarrow> Inl (Decode ''no choices'')
      | Some [] \<Rightarrow> Inl (Decode ''empty choices'')
      | Some (choice # _) \<Rightarrow>
          (let msg = (case obj_get ''message'' choice of Some x \<Rightarrow> x | None \<Rightarrow> JNull);
               tcs = (case Option.bind (obj_get ''tool_calls'' msg) arr_of of Some xs \<Rightarrow> xs | None \<Rightarrow> []);
               reason = (case str_at ''finish_reason'' choice of Some r \<Rightarrow> r | None \<Rightarrow> ''stop'')
           in Inr (usage_chunks m v @ thinking_shown q msg @ text_shown msg @ synthesize_calls 0 tcs @
                [Chunk_Stop (decode_stop reason (tcs \<noteq> []) q)])))"

subsection \<open>Lines (sse.rs)\<close>

fun drop_eol :: "string \<Rightarrow> string" where
  "drop_eol [] = []"
| "drop_eol (c # s) =
     (let t = drop_eol s in if t = [] \<and> (c = CHR 0x0D \<or> c = CHR 0x0A) then [] else c # t)"

text \<open>
  What the iterator yields: \<open>cs\<close> are the observations of the cancel flag, one per turn of the loop, and
  \<open>ls\<close> the results of \<^verbatim>\<open>read_line\<close> until the end of the body.
\<close>

fun sse_iter :: "bool list \<Rightarrow> (string + string) list \<Rightarrow> (string + string) list" where
  "sse_iter [] ls = []"
| "sse_iter (True # cs) ls = Inl ''cancelled'' # sse_iter cs ls"
| "sse_iter (False # cs) [] = []"
| "sse_iter (False # cs) (Inl e # ls) = Inl e # sse_iter cs ls"
| "sse_iter (False # cs) (Inr l # ls) =
     (case strip_prefix ''data: '' (drop_eol l) of
        Some p \<Rightarrow> if p = ''[DONE]'' then [] else Inr p # sse_iter cs ls
      | None \<Rightarrow> sse_iter cs ls)"

text \<open>The \<^verbatim>\<open>flat_map\<close> of \<^verbatim>\<open>attempt\<close> over the payloads.\<close>

fun decode_stream ::
  "(string \<Rightarrow> 'st \<Rightarrow> (prov_err + chunk list) \<times> 'st) \<Rightarrow> (string + string) list \<Rightarrow> 'st
    \<Rightarrow> (prov_err + chunk) list" where
  "decode_stream dec [] st = []"
| "decode_stream dec (Inl e # ls) st = Inl (prov_err.Stream e) # decode_stream dec ls st"
| "decode_stream dec (Inr p # ls) st =
     (let (r, st') = dec p st
      in (case r of Inl e \<Rightarrow> [Inl e] | Inr cs \<Rightarrow> map Inr cs) @ decode_stream dec ls st')"

lemma drop_eol_plain:
  "c \<noteq> CHR 0x0D \<Longrightarrow> c \<noteq> CHR 0x0A \<Longrightarrow> drop_eol (s @ [c]) = s @ [c]"
  by (induction s) auto

lemma drop_eol_lf: "drop_eol (s @ [CHR 0x0A]) = drop_eol s"
  by (induction s) auto

lemma sse_iter_skips:
  "strip_prefix ''data: '' (drop_eol l) = None \<Longrightarrow> sse_iter (False # cs) (Inr l # ls) = sse_iter cs ls"
  by simp

text \<open>What is not a payload is skipped: comments, event names, blank lines.\<close>

definition payload_of :: "string \<Rightarrow> string option" where
  "payload_of l = strip_prefix ''data: '' (drop_eol l)"

lemma sse_iter_lines:
  assumes "''[DONE]'' \<notin> set (List.map_filter payload_of ls)" and "drop_eol end_line = ''data: [DONE]''"
  shows "sse_iter (replicate (Suc (length ls)) False) (map Inr (ls @ [end_line])) =
    map Inr (List.map_filter payload_of ls)"
  using assms(1)
proof (induction ls)
  case Nil
  then show ?case
    by (simp add: List.map_filter_simps strip_prefix_def starts_with_def assms(2))
next
  case (Cons l ls)
  then show ?case
    by (cases "payload_of l") (auto simp: List.map_filter_simps payload_of_def)
qed

text \<open>A cancelled stream assembles to an error, wherever the flag is first seen.\<close>

lemma decode_stream_append:
  "\<exists>st'. decode_stream dec (xs @ ys) st = decode_stream dec xs st @ decode_stream dec ys st'"
proof (induction xs arbitrary: st)
  case (Cons x xs)
  show ?case
  proof (cases x)
    case (Inr p)
    obtain r st1 where "dec p st = (r, st1)" by fastforce
    with Inr Cons [of st1] show ?thesis by auto
  next
    case (Inl e)
    with Cons [of st] show ?thesis by auto
  qed
qed auto

lemma sse_iter_cancelled:
  assumes "True \<in> set cs" and "\<And>p. p \<in> set ls \<Longrightarrow> \<exists>l. p = Inr l \<and> drop_eol l \<noteq> ''data: [DONE]''"
    and "length cs \<le> length ls"
  shows "Inl ''cancelled'' \<in> set (sse_iter cs ls)"
  using assms
proof (induction cs ls rule: sse_iter.induct)
  case (5 cs l ls)
  have "True \<in> set cs" "length cs \<le> length ls" using 5 by auto
  moreover have "strip_prefix ''data: '' (drop_eol l) \<noteq> Some ''[DONE]''"
    using "5.prems"(2) [of "Inr l"] unfolding strip_prefix_def starts_with_def
    by (auto split: if_splits) (metis append_Cons append_Nil append_take_drop_id)
  ultimately show ?case
    using 5 by (auto split: option.split)
qed (force)+

subsection \<open>What a chat service says\<close>

text \<open>
  The frames of an answer: each may carry text, thinking and pieces of several calls, where a piece is of
  the call at its index, announces it or not, and has a part of the arguments or none. Then the frame
  that ends the answer, and the one with its usage; and the same answer as one response.
\<close>

record call_piece =
  cp_index :: nat
  cp_head :: "(string \<times> string) option"
  cp_args :: string

record answer_piece =
  ap_text :: "string option"
  ap_think :: "string option"
  ap_calls :: "call_piece list"

definition call_piece_json :: "call_piece \<Rightarrow> json" where
  "call_piece_json p = JObj ((''index'', enc_uint (cp_index p)) # (case cp_head p of
       Some (k, n) \<Rightarrow> [(''id'', JStr k), (''type'', JStr ''function''),
         (''function'', JObj [(''name'', JStr n), (''arguments'', JStr (cp_args p))])]
     | None \<Rightarrow> [(''function'', JObj [(''arguments'', JStr (cp_args p))])]))"

definition text_field :: "string \<Rightarrow> string option \<Rightarrow> (string \<times> json) list" where
  "text_field k x = (case x of Some s \<Rightarrow> [(k, JStr s)] | None \<Rightarrow> [])"

definition delta_of :: "answer_piece \<Rightarrow> json" where
  "delta_of p = JObj (text_field ''content'' (ap_text p) @ text_field ''reasoning_content'' (ap_think p) @
     (if ap_calls p = [] then [] else [(''tool_calls'', JArr (map call_piece_json (ap_calls p)))]))"

definition frame_of :: "answer_piece \<Rightarrow> json" where
  "frame_of p = JObj [(''choices'', JArr [JObj [(''delta'', delta_of p), (''finish_reason'', JNull)]])]"

text \<open>What the frame says, as chunks.\<close>

definition call_chunks :: "call_piece \<Rightarrow> chunk list" where
  "call_chunks p = (case cp_head p of Some (k, n) \<Rightarrow> [Chunk_ToolCall (cp_index p) k n] | None \<Rightarrow> []) @
     [Chunk_ToolArgs (cp_index p) (cp_args p)]"

definition piece_chunks :: "answer_piece \<Rightarrow> chunk list" where
  "piece_chunks p = (case ap_text p of Some s \<Rightarrow> [Chunk_Text 0 s] | None \<Rightarrow> []) @
     (case ap_think p of Some s \<Rightarrow> [Chunk_Thinking 0 s] | None \<Rightarrow> []) @
     concat (map call_chunks (ap_calls p))"

definition said :: "answer_piece list \<Rightarrow> chunk list" where
  "said ps = concat (map piece_chunks ps)"

definition finish_frame :: "string \<Rightarrow> json" where
  "finish_frame r = JObj [(''choices'', JArr [JObj [(''delta'', JObj []), (''finish_reason'', JStr r)]])]"

definition usage_frame :: "json \<Rightarrow> json" where
  "usage_frame u = JObj [(''choices'', JArr []), (''usage'', u)]"

definition answer_calls :: "chunk list \<Rightarrow> json list" where
  "answer_calls cs = map (\<lambda>(i, k, n). JObj [(''id'', JStr k), (''type'', JStr ''function''),
     (''function'', JObj [(''name'', JStr n), (''arguments'', JStr (joined (arg_deltas cs) i))])])
     (sort_key fst (call_heads cs))"

definition response_of :: "chunk list \<Rightarrow> string \<Rightarrow> json \<Rightarrow> json" where
  "response_of cs r u =
     JObj [(''choices'', JArr [JObj
        [(''message'', JObj
           [(''role'', JStr ''assistant''),
            (''content'', JStr (concat (map snd (text_deltas cs)))),
            (''reasoning_content'', JStr (concat (map snd (think_deltas cs)))),
            (''tool_calls'', JArr (answer_calls cs))]),
         (''finish_reason'', JStr r)]]),
       (''usage'', u)]"

definition chat_chunk :: "chunk \<Rightarrow> bool" where
  "chat_chunk c = (case c of
     Chunk_Text i _ \<Rightarrow> i = 0 | Chunk_Thinking i _ \<Rightarrow> i = 0
   | Chunk_ToolCall i k _ \<Rightarrow> in_u32 i \<and> k \<noteq> [] | Chunk_ToolArgs i _ \<Rightarrow> in_u32 i | _ \<Rightarrow> False)"

text \<open>What the decoder lets through: no empty delta, and thinking only with the quirk.\<close>

definition shown :: "quirks \<Rightarrow> chunk \<Rightarrow> bool" where
  "shown q c = (case c of
     Chunk_Text _ s \<Rightarrow> s \<noteq> [] | Chunk_Thinking _ s \<Rightarrow> q_thinking_style q = ''reasoning_content'' \<and> s \<noteq> []
   | Chunk_ToolArgs _ a \<Rightarrow> a \<noteq> [] | _ \<Rightarrow> True)"

definition about_call :: "chunk \<Rightarrow> bool" where
  "about_call c = (case c of Chunk_ToolCall _ _ _ \<Rightarrow> True | Chunk_ToolArgs _ _ \<Rightarrow> True | _ \<Rightarrow> False)"

text \<open>The slots of calls that were not announced have no id yet.\<close>

definition slots_free :: "nat set \<Rightarrow> tool_slot list \<Rightarrow> bool" where
  "slots_free A ts \<longleftrightarrow> (\<forall>i < length ts. i \<notin> A \<longrightarrow> sl_id (ts ! i) = [])"

lemma count_of_index: "in_u32 i \<Longrightarrow> count_of (Some (enc_uint i)) = i"
  by (simp add: count_of_def u64_of_def dec_uint_def enc_uint_def cast_u32_id in_u32_def u32_max_def u64_max_def)

lemma ensure_slot_length: "i < length (ensure_slot i ts)"
  by (simp add: ensure_slot_def)

lemma slots_free_update:
  assumes "slots_free A ts" and "B = insert i A \<or> B = A \<and> sl_id s = sl_id (ensure_slot i ts ! i)"
  shows "slots_free B ((ensure_slot i ts)[i := s])"
proof -
  have "slots_free A (ensure_slot i ts)"
    using assms(1) by (auto simp: slots_free_def ensure_slot_def nth_append empty_slot_def)
  with assms(2) show ?thesis
    by (auto simp: slots_free_def nth_list_update ensure_slot_length)
qed

lemma announced_piece:
  assumes "announced A (call_chunks p @ cs)"
  shows "cp_head p \<noteq> None \<Longrightarrow> cp_index p \<notin> A \<and> announced (insert (cp_index p) A) cs"
    and "cp_head p = None \<Longrightarrow> cp_index p \<in> A \<and> announced A cs"
  using assms by (auto simp: call_chunks_def)

lemma decode_call_piece:
  assumes "\<forall>c \<in> set (call_chunks p). chat_chunk c" and "announced A (call_chunks p @ cs)" and "slots_free A ts"
  shows "\<exists>ts' B. decode_tool_call (call_piece_json p) ts = (filter (shown q) (call_chunks p), ts') \<and>
    slots_free B ts' \<and> announced B cs"
proof (cases "cp_head p")
  case None
  then have "in_u32 (cp_index p)" "announced A cs"
    using assms(1) announced_piece(2) [OF assms(2)] by (auto simp: call_chunks_def chat_chunk_def)
  then show ?thesis
    using slots_free_update [OF assms(3), of A "cp_index p"] None
    by (intro exI [of _ "(ensure_slot (cp_index p) ts)
          [cp_index p := (ensure_slot (cp_index p) ts ! cp_index p)\<lparr>sl_idx := cp_index p\<rparr>]"]
        exI [of _ A] conjI)
      (simp_all add: decode_tool_call_def call_piece_json_def call_chunks_def shown_def Let_def codec_simps
        obj_get_JObj count_of_index)
next
  case (Some h)
  obtain k n where h: "h = (k, n)" by (cases h)
  have u: "in_u32 (cp_index p)" "k \<noteq> []"
    using assms(1) Some h by (auto simp: call_chunks_def chat_chunk_def)
  have a: "cp_index p \<notin> A" "announced (insert (cp_index p) A) cs"
    using announced_piece(1) [OF assms(2)] Some by auto
  have "sl_id (ensure_slot (cp_index p) ts ! cp_index p) = []"
    using assms(3) a(1) by (auto simp: slots_free_def ensure_slot_def nth_append empty_slot_def)
  then show ?thesis
    using slots_free_update [OF assms(3), of "insert (cp_index p) A" "cp_index p"] u a(2) Some h
    by (intro exI [of _ "(ensure_slot (cp_index p) ts)[cp_index p :=
            (ensure_slot (cp_index p) ts ! cp_index p)\<lparr>sl_idx := cp_index p, sl_id := k, sl_name := n\<rparr>]"]
        exI [of _ "insert (cp_index p) A"] conjI)
      (simp_all add: decode_tool_call_def call_piece_json_def call_chunks_def shown_def Let_def codec_simps
        obj_get_JObj count_of_index)
qed

lemma decode_call_pieces:
  assumes "\<forall>c \<in> set (concat (map call_chunks ps)). chat_chunk c"
    and "announced A (concat (map call_chunks ps) @ cs)" and "slots_free A ts"
  shows "\<exists>ts' B. decode_tool_calls (map call_piece_json ps) ts =
      (filter (shown q) (concat (map call_chunks ps)), ts') \<and> slots_free B ts' \<and> announced B cs"
  using assms
proof (induction ps arbitrary: A ts)
  case (Cons p ps)
  from decode_call_piece [of p A "concat (map call_chunks ps) @ cs" ts q] Cons.prems obtain ts1 A1 where
    one: "decode_tool_call (call_piece_json p) ts = (filter (shown q) (call_chunks p), ts1)"
      "slots_free A1 ts1" "announced A1 (concat (map call_chunks ps) @ cs)"
    by auto
  from Cons.IH [OF _ one(3,2)] Cons.prems(1) one(1) show ?case by auto
qed auto

lemma announced_texts:
  "announced A (piece_chunks p @ cs) = announced A (concat (map call_chunks (ap_calls p)) @ cs)"
  by (simp add: piece_chunks_def split: option.split)

lemma about_calls: "(\<exists>c \<in> set (piece_chunks p). about_call c) \<longleftrightarrow> ap_calls p \<noteq> []"
  by (cases "ap_calls p") (auto simp: piece_chunks_def call_chunks_def about_call_def split: option.split)

lemma decode_frame:
  assumes "\<forall>c \<in> set (piece_chunks p). chat_chunk c" and "announced A (piece_chunks p @ cs)"
    and "slots_free A (st_tools st)"
  shows "\<exists>st' B. decode_value text_of q m (frame_of p) st = (Inr (filter (shown q) (piece_chunks p)), st') \<and>
     slots_free B (st_tools st') \<and> announced B cs \<and>
     (st_has_tool_calls st' \<longleftrightarrow> st_has_tool_calls st \<or> (\<exists>c \<in> set (piece_chunks p). about_call c))"
proof -
  have "\<forall>c \<in> set (concat (map call_chunks (ap_calls p))). chat_chunk c"
    using assms(1) by (simp add: piece_chunks_def)
  from decode_call_pieces [OF this assms(2) [unfolded announced_texts] assms(3), of q] obtain ts' B where
    calls: "decode_tool_calls (map call_piece_json (ap_calls p)) (st_tools st) =
      (filter (shown q) (concat (map call_chunks (ap_calls p))), ts')" "slots_free B ts'" "announced B cs"
    by blast
  let ?st = "if ap_calls p = [] then st else \<lparr>st_tools = ts', st_has_tool_calls = True\<rparr>"
  have ts: "slots_free B (st_tools ?st)"
    using calls by auto
  have "text_shown (delta_of p) = filter (shown q) (case ap_text p of Some s \<Rightarrow> [Chunk_Text 0 s] | None \<Rightarrow> [])"
    by (simp add: text_shown_def delta_of_def delta_text_def text_field_def obj_get_JObj codec_simps shown_def
        split: option.split)
  moreover have "thinking_shown q (delta_of p) =
      filter (shown q) (case ap_think p of Some s \<Rightarrow> [Chunk_Thinking 0 s] | None \<Rightarrow> [])"
    by (auto simp: thinking_shown_def delta_of_def delta_text_def text_field_def obj_get_JObj codec_simps shown_def
        split: option.split)
  moreover have "Option.bind (obj_get ''tool_calls'' (delta_of p)) arr_of =
      (if ap_calls p = [] then None else Some (map call_piece_json (ap_calls p)))"
    by (simp add: delta_of_def text_field_def obj_get_JObj codec_simps split: option.split)
  ultimately have "decode_value text_of q m (frame_of p) st = (Inr (filter (shown q) (piece_chunks p)), ?st)"
    using calls(1)
    by (auto simp: decode_value_def frame_of_def decode_choice_def usage_chunks_def obj_get_JObj codec_simps
        piece_chunks_def Let_def)
  with ts calls(3) show ?thesis
    by (intro exI [of _ ?st] exI [of _ B]) (simp add: about_calls)
qed

subsection \<open>Streamed or not, the same message\<close>

text \<open>The decoding of a run of frames, as \<^verbatim>\<open>attempt\<close> does it after the line splitter and the parser.\<close>

fun decode_frames :: "(json \<Rightarrow> string) \<Rightarrow> quirks \<Rightarrow> model_ref \<Rightarrow> json list \<Rightarrow> stream_state \<Rightarrow> (prov_err + chunk) list" where
  "decode_frames text_of q m [] st = []"
| "decode_frames text_of q m (v # vs) st =
     (let (r, st') = decode_value text_of q m v st
      in (case r of Inl e \<Rightarrow> [Inl e] | Inr cs \<Rightarrow> map Inr cs) @ decode_frames text_of q m vs st')"

lemma decode_stream_frames:
  "map parse ps = map Inr vs \<Longrightarrow>
   decode_stream (decode_delta parse text_of q m) (map Inr ps) st = decode_frames text_of q m vs st"
proof (induction ps arbitrary: vs st)
  case (Cons p ps)
  then obtain v vs' where "vs = v # vs'" "parse p = Inr v" "map parse ps = map Inr vs'" by auto
  with Cons.IH show ?case by (auto simp: decode_delta_def split: prod.split sum.split)
qed simp

lemma decode_frames_deltas:
  assumes "\<forall>c \<in> set (said ps). chat_chunk c" and "announced A (said ps)" and "slots_free A (st_tools st)"
  shows "\<exists>st'. decode_frames text_of q m (map frame_of ps @ vs) st =
      map Inr (filter (shown q) (said ps)) @ decode_frames text_of q m vs st' \<and>
    (st_has_tool_calls st' \<longleftrightarrow> st_has_tool_calls st \<or> (\<exists>c \<in> set (said ps). about_call c))"
  using assms
proof (induction ps arbitrary: A st)
  case Nil
  then show ?case by (auto simp: said_def)
next
  case (Cons p ps)
  have said: "said (p # ps) = piece_chunks p @ said ps" by (simp add: said_def)
  from decode_frame [of p A "said ps" st text_of q m] Cons.prems obtain st1 B where
    s: "decode_value text_of q m (frame_of p) st = (Inr (filter (shown q) (piece_chunks p)), st1)"
      "slots_free B (st_tools st1)" "announced B (said ps)"
      "st_has_tool_calls st1 \<longleftrightarrow> st_has_tool_calls st \<or> (\<exists>c \<in> set (piece_chunks p). about_call c)"
    unfolding said by auto
  from Cons.IH [OF _ s(3,2)] Cons.prems(1) obtain st' where
    "decode_frames text_of q m (map frame_of ps @ vs) st1 =
      map Inr (filter (shown q) (said ps)) @ decode_frames text_of q m vs st'"
    "st_has_tool_calls st' \<longleftrightarrow> st_has_tool_calls st1 \<or> (\<exists>c \<in> set (said ps). about_call c)"
    unfolding said by auto
  with s show ?case by (intro exI [of _ st']) (auto simp: said)
qed

lemma announced_heads:
  "announced A cs \<Longrightarrow> A = {} \<Longrightarrow> (\<exists>c \<in> set cs. about_call c) \<longleftrightarrow> call_heads cs \<noteq> []"
  by (induction A cs rule: announced.induct) (auto simp: about_call_def)

lemma decode_ending:
  assumes "r \<noteq> []" and "r \<noteq> ''null''"
  shows "decode_frames text_of q m [finish_frame r, usage_frame u] st =
     map Inr [Chunk_Stop (decode_stop r (st_has_tool_calls st) q), Chunk_Usage \<lparr>u_tokens = decode_usage u, u_model = m\<rparr>]"
  using assms
  by (simp add: finish_frame_def usage_frame_def decode_value_def decode_choice_def obj_get_JObj codec_simps
      text_shown_def thinking_shown_def delta_text_def usage_chunks_def)

text \<open>What is assembled, in full.\<close>

definition last_usage :: "chunk list \<Rightarrow> usage option" where
  "last_usage cs = fold (\<lambda>c u. case c of Chunk_Usage x \<Rightarrow> Some x | _ \<Rightarrow> u) cs None"

definition last_stop :: "chunk list \<Rightarrow> stop_reason" where
  "last_stop cs = fold (\<lambda>c r. case c of Chunk_Stop x \<Rightarrow> x | _ \<Rightarrow> r) cs Stop"

definition call_ok :: "(string \<Rightarrow> bool) \<Rightarrow> content \<Rightarrow> bool" where
  "call_ok parses c = (case c of content.ToolCall _ _ a \<Rightarrow> parses a | _ \<Rightarrow> True)"

lemma fold_asm_last:
  "as_usage (fold (\<lambda>c s. snd (asm_chunk m c s)) cs s) =
     fold (\<lambda>c u. case c of Chunk_Usage x \<Rightarrow> Some x | _ \<Rightarrow> u) cs (as_usage s)"
  "as_stop (fold (\<lambda>c s. snd (asm_chunk m c s)) cs s) =
     fold (\<lambda>c r. case c of Chunk_Stop x \<Rightarrow> x | _ \<Rightarrow> r) cs (as_stop s)"
proof (induction cs arbitrary: s)
  case (Cons c cs)
  { case 1 then show ?case using Cons(1) by (cases c) simp_all
  next
    case 2 then show ?case using Cons(2) by (cases c) simp_all }
qed simp_all

lemma assemble_full:
  assumes "announced {} cs"
  shows "snd (assemble parses m (map Inr cs)) =
     (if \<forall>c \<in> set (stream_calls cs). call_ok parses c
      then Inr \<lparr>am_message = \<lparr>msg_id = m, msg_role = Role_Assistant, msg_content = stream_content cs,
                  msg_silent = False\<rparr>,
                am_usage = (case last_usage cs of Some u \<Rightarrow> u
                  | None \<Rightarrow> \<lparr>u_tokens = tokens_default, u_model = \<lparr>mr_provider = [], mr_id = []\<rparr>\<rparr>),
                am_stop = last_stop cs, am_usage_reported = (last_usage cs \<noteq> None)\<rparr>
      else Inl Truncated)"
proof -
  have texts: "text_blocks f (as_text (fold (\<lambda>c s. snd (asm_chunk m c s)) cs asm_init)) = map f (blocks_of (text_deltas cs))"
    "text_blocks f (as_think (fold (\<lambda>c s. snd (asm_chunk m c s)) cs asm_init)) = map f (blocks_of (think_deltas cs))" for f
    by (simp_all add: fold_asm_text fold_asm_think asm_init_def text_blocks_push_parts)
  have lasts: "as_usage (fold (\<lambda>c s. snd (asm_chunk m c s)) cs asm_init) = last_usage cs"
    "as_stop (fold (\<lambda>c s. snd (asm_chunk m c s)) cs asm_init) = last_stop cs"
    by (simp_all only: fold_asm_last) (simp_all add: asm_init_def last_usage_def last_stop_def)
  have "(\<forall>h \<in> set (call_heads cs). parses (call_args cs (fst h))) \<longleftrightarrow> (\<forall>c \<in> set (stream_calls cs). call_ok parses c)"
    by (auto simp: stream_calls_def call_ok_def)
  then show ?thesis
    using call_blocks_stream [OF assms, of parses m]
    by (auto simp: assemble_def asm_loop_ok asm_finish_def texts lasts stream_content_def)
qed

lemma assemble_cong:
  assumes "announced {} cs" and "announced {} ds"
    and "blocks_of (text_deltas cs) = blocks_of (text_deltas ds)"
    and "blocks_of (think_deltas cs) = blocks_of (think_deltas ds)"
    and "stream_calls cs = stream_calls ds"
    and "last_usage cs = last_usage ds" and "last_stop cs = last_stop ds"
  shows "snd (assemble parses m (map Inr cs)) = snd (assemble parses m (map Inr ds))"
  using assms by (simp add: assemble_full stream_content_def)

text \<open>Hiding chunks changes no block and no call.\<close>

lemma shown_simps:
  "shown q (Chunk_Text i s) \<longleftrightarrow> s \<noteq> []"
  "shown q (Chunk_Thinking i s) \<longleftrightarrow> q_thinking_style q = ''reasoning_content'' \<and> s \<noteq> []"
  "shown q (Chunk_ToolArgs i s) \<longleftrightarrow> s \<noteq> []"
  "shown q (Chunk_ToolCall i k n)" "shown q (Chunk_Usage u)" "shown q (Chunk_Stop r)"
  by (simp_all add: shown_def)

lemma concat_shown_text: "concat (map snd (text_deltas (filter (shown q) cs))) = concat (map snd (text_deltas cs))"
proof (induction cs)
  case (Cons c cs)
  then show ?case by (cases c) (auto simp: shown_simps)
qed simp

lemma concat_shown_think:
  "concat (map snd (think_deltas (filter (shown q) cs))) =
     (if q_thinking_style q = ''reasoning_content'' then concat (map snd (think_deltas cs)) else [])"
proof (induction cs)
  case (Cons c cs)
  then show ?case by (cases c) (auto simp: shown_simps simp del: concat_eq_Nil_conv)
qed simp

lemma heads_shown: "call_heads (filter (shown q) cs) = call_heads cs"
proof (induction cs)
  case (Cons c cs)
  then show ?case by (cases c) (auto simp: shown_simps)
qed simp

lemma args_shown: "joined (arg_deltas (filter (shown q) cs)) i = joined (arg_deltas cs) i"
proof (induction cs)
  case (Cons c cs)
  then show ?case by (cases c) (auto simp: shown_simps)
qed simp

lemma stream_calls_cong:
  "call_heads cs = call_heads ds \<Longrightarrow> (\<And>i. joined (arg_deltas cs) i = joined (arg_deltas ds) i) \<Longrightarrow>
   stream_calls cs = stream_calls ds"
  by (auto simp: stream_calls_def call_args_def)

lemma announced_shown: "announced A cs \<Longrightarrow> announced A (filter (shown q) cs)"
  by (induction A cs rule: announced.induct) (auto simp: shown_simps)

lemma deltas_append:
  "text_deltas (xs @ ys) = text_deltas xs @ text_deltas ys"
  "think_deltas (xs @ ys) = think_deltas xs @ think_deltas ys"
  "arg_deltas (xs @ ys) = arg_deltas xs @ arg_deltas ys"
  "call_heads (xs @ ys) = call_heads xs @ call_heads ys"
  "joined (ds @ es) i = joined ds i @ joined es i"
  by (simp_all add: text_deltas_def think_deltas_def arg_deltas_def call_heads_def joined_def)

text \<open>All deltas of an answer are of block 0, so it has at most one text and one thinking block.\<close>

lemma blocks_zero:
  assumes "fst ` set ds \<subseteq> {0}"
  shows "blocks_of ds = (if concat (map snd ds) = [] then [] else [concat (map snd ds)])"
proof -
  have "filter (\<lambda>p. fst p = 0) ds = ds" using assms by (auto intro: filter_True)
  then have "joined ds 0 = concat (map snd ds)" by (simp add: joined_def)
  moreover have "fst ` set ds = {} \<or> fst ` set ds = {0}" using assms by (rule subset_singletonD)
  ultimately show ?thesis by (auto simp: blocks_of_def simp del: concat_eq_Nil_conv)
qed

lemma blocks_zero_cong:
  "fst ` set ds \<subseteq> {0} \<Longrightarrow> fst ` set es \<subseteq> {0} \<Longrightarrow> concat (map snd ds) = concat (map snd es) \<Longrightarrow>
   blocks_of ds = blocks_of es"
  by (simp only: blocks_zero)

lemma chat_chunk_zero:
  "\<forall>c \<in> set cs. chat_chunk c \<Longrightarrow> fst ` set (text_deltas cs) \<subseteq> {0} \<and> fst ` set (think_deltas cs) \<subseteq> {0}"
proof (induction cs)
  case (Cons c cs)
  then show ?case by (cases c) (auto simp: chat_chunk_def)
qed simp

text \<open>The calls of a response, in their order.\<close>

definition call_json :: "string \<times> string \<times> string \<Rightarrow> json" where
  "call_json = (\<lambda>(k, n, a). JObj [(''id'', JStr k), (''type'', JStr ''function''),
     (''function'', JObj [(''name'', JStr n), (''arguments'', JStr a)])])"

definition call_block :: "string \<times> string \<times> string \<Rightarrow> content" where
  "call_block = (\<lambda>(k, n, a). content.ToolCall k n (if a = [] then ''{}'' else a))"

lemma synthesize_call_json:
  "synthesize_calls i (map call_json (x # xs)) =
     Chunk_ToolCall (cast_u32 i) (fst x) (fst (snd x)) # Chunk_ToolArgs (cast_u32 i) (snd (snd x))
     # synthesize_calls (Suc i) (map call_json xs)"
  by (cases x) (simp add: call_json_def codec_simps obj_get_JObj some_text_def)

lemma synthesize_heads:
  assumes "\<forall>j < length xs. cast_u32 (i + j) = i + j"
  shows "call_heads (synthesize_calls i (map call_json xs)) =
      map (\<lambda>(j, k, n, a). (j, k, n)) (enumerate i xs) \<and>
    arg_deltas (synthesize_calls i (map call_json xs)) = map (\<lambda>(j, k, n, a). (j, a)) (enumerate i xs) \<and>
    text_deltas (synthesize_calls i (map call_json xs)) = [] \<and>
    think_deltas (synthesize_calls i (map call_json xs)) = []"
  using assms
proof (induction xs arbitrary: i)
  case (Cons x xs)
  have i: "cast_u32 i = i" using Cons.prems [rule_format, of 0] by simp
  have "\<forall>j < length xs. cast_u32 (Suc i + j) = Suc i + j"
    using Cons.prems by (metis Suc_less_eq add_Suc add_Suc_right length_Cons)
  from Cons.IH [OF this] i show ?case
    by (cases x) (simp only: synthesize_call_json, simp)
qed simp

lemma joined_enumerate:
  "joined (map (\<lambda>(j, k, n, a). (j, a)) (enumerate i xs)) (i + l) =
     (if l < length xs then snd (snd (xs ! l)) else [])"
proof (induction xs arbitrary: i l)
  case (Cons x xs)
  show ?case
  proof (cases l)
    case 0
    have "joined (map (\<lambda>(j, k, n, a). (j, a)) (enumerate (Suc i) xs)) i = []"
      by (auto simp: joined_def filter_empty_conv dest: in_set_enumerate_eq [THEN iffD1])
    with 0 show ?thesis by (cases x) simp
  next
    case (Suc l')
    with Cons [of "Suc i" l'] show ?thesis by (cases x) simp
  qed
qed simp

lemma synthesize_stream_calls:
  assumes "\<forall>j < length xs. cast_u32 j = j"
    and "call_heads cs = call_heads (synthesize_calls 0 (map call_json xs))"
    and "arg_deltas cs = arg_deltas (synthesize_calls 0 (map call_json xs))"
  shows "stream_calls cs = map call_block xs"
proof -
  have heads: "call_heads cs = map (\<lambda>(j, k, n, a). (j, k, n)) (enumerate 0 xs)"
    and args: "arg_deltas cs = map (\<lambda>(j, k, n, a). (j, a)) (enumerate 0 xs)"
    using synthesize_heads [of xs 0] assms by simp_all
  have "map fst (call_heads cs) = map fst (enumerate 0 xs)"
    unfolding heads map_map by (intro map_cong) auto
  then have "sorted (map fst (call_heads cs))" by (simp del: map_fst_enumerate)
  then have "sort_key fst (call_heads cs) = call_heads cs" by (rule sort_key_sorted_id)
  moreover have "call_args cs l = (if snd (snd (xs ! l)) = [] then ''{}'' else snd (snd (xs ! l)))"
    if "l < length xs" for l
    using joined_enumerate [of 0 xs l] that by (simp add: call_args_def args)
  ultimately show ?thesis
    unfolding stream_calls_def
    by (intro nth_equalityI) (simp_all add: heads nth_enumerate_eq call_block_def split_def)
qed

text \<open>The calls of an answer as triples.\<close>

definition call_triples :: "chunk list \<Rightarrow> (string \<times> string \<times> string) list" where
  "call_triples cs = map (\<lambda>(i, k, n). (k, n, joined (arg_deltas cs) i)) (sort_key fst (call_heads cs))"

lemma answer_calls_json: "answer_calls cs = map call_json (call_triples cs)"
  by (simp add: answer_calls_def call_triples_def call_json_def split_def)

lemma stream_calls_triples: "stream_calls cs = map call_block (call_triples cs)"
  by (simp add: stream_calls_def call_triples_def call_block_def call_args_def split_def)

lemma announced_distinct:
  "announced A cs \<Longrightarrow> distinct (map fst (call_heads cs)) \<and> fst ` set (call_heads cs) \<inter> A = {}"
  by (induction A cs rule: announced.induct) auto

lemma chat_heads_u32: "\<forall>c \<in> set cs. chat_chunk c \<Longrightarrow> h \<in> set (call_heads cs) \<Longrightarrow> in_u32 (fst h)"
proof (induction cs)
  case (Cons c cs)
  then show ?case by (cases c) (auto simp: chat_chunk_def)
qed simp

lemma call_index_u32:
  assumes "\<forall>c \<in> set cs. chat_chunk c" and "announced {} cs" and "j < length (call_triples cs)"
  shows "cast_u32 j = j"
proof (rule cast_u32_id)
  let ?N = "nat u32_max"
  have "fst ` set (call_heads cs) \<subseteq> {..?N}"
    using chat_heads_u32 [OF assms(1)] by (fastforce simp: in_u32_def le_nat_iff)
  then have "card (set (map fst (call_heads cs))) \<le> Suc ?N"
    using card_mono [of "{..?N}" "fst ` set (call_heads cs)"] by simp
  then have "length (call_heads cs) \<le> Suc ?N"
    using announced_distinct [OF assms(2)] by (metis distinct_card length_map)
  with assms(3) show "in_u32 j" by (simp add: call_triples_def in_u32_def u32_max_def)
qed

lemma announced_synthesized:
  "(\<forall>j < length xs. cast_u32 (i + j) = i + j) \<Longrightarrow> (\<forall>a \<in> A. a < i) \<Longrightarrow>
   announced A (synthesize_calls i (map call_json xs) @ [Chunk_Stop s])"
proof (induction xs arbitrary: i A)
  case (Cons x xs)
  have i: "cast_u32 i = i" using Cons.prems(1) [rule_format, of 0] by simp
  have "\<forall>j < length xs. cast_u32 (Suc i + j) = Suc i + j"
    using Cons.prems(1) by (metis Suc_less_eq add_Suc add_Suc_right length_Cons)
  moreover have "\<forall>a \<in> insert i A. a < Suc i" using Cons.prems(2) by (auto simp: less_SucI)
  ultimately have "announced (insert i A) (synthesize_calls (Suc i) (map call_json xs) @ [Chunk_Stop s])"
    by (rule Cons.IH)
  then show ?case using i Cons.prems(2) unfolding synthesize_call_json by auto
qed simp

lemma last_stop_end: "last_stop (cs @ [Chunk_Stop s]) = s"
  by (simp add: last_stop_def)

lemma last_usage_end:
  "last_usage (cs @ [Chunk_Usage u]) = Some u"
  "last_stop (cs @ [Chunk_Usage u]) = last_stop cs"
  by (simp_all add: last_usage_def last_stop_def)

lemma last_usage_calls:
  "fold (\<lambda>c u. case c of Chunk_Usage x \<Rightarrow> Some x | _ \<Rightarrow> u) (synthesize_calls i tcs) u = u"
  by (induction tcs arbitrary: i) simp_all

lemma synthesize_response:
  assumes "\<forall>j < length (call_triples cs). cast_u32 j = j"
  shows "\<exists>ds. synthesize_chunks (response_of cs r u) q m = Inr ds \<and> announced {} ds \<and>
     text_deltas ds = (if concat (map snd (text_deltas cs)) = [] then [] else [(0, concat (map snd (text_deltas cs)))]) \<and>
     think_deltas ds = (if q_thinking_style q = ''reasoning_content'' \<and> concat (map snd (think_deltas cs)) \<noteq> []
        then [(0, concat (map snd (think_deltas cs)))] else []) \<and>
     stream_calls ds = stream_calls cs \<and>
     last_usage ds = Some \<lparr>u_tokens = decode_usage u, u_model = m\<rparr> \<and>
     last_stop ds = decode_stop r (call_triples cs \<noteq> []) q"
proof -
  let ?t = "concat (map snd (text_deltas cs))" and ?k = "concat (map snd (think_deltas cs))"
  let ?think = "if q_thinking_style q = ''reasoning_content'' \<and> ?k \<noteq> [] then [Chunk_Thinking 0 ?k] else []"
  let ?text = "if ?t = [] then [] else [Chunk_Text 0 ?t]"
  let ?calls = "synthesize_calls 0 (map call_json (call_triples cs))"
  let ?ds = "Chunk_Usage \<lparr>u_tokens = decode_usage u, u_model = m\<rparr> # ?think @ ?text @ ?calls @
    [Chunk_Stop (decode_stop r (call_triples cs \<noteq> []) q)]"
  have "synthesize_chunks (response_of cs r u) q m = Inr ?ds"
    by (simp add: synthesize_chunks_def response_of_def obj_get_JObj codec_simps usage_chunks_def
        thinking_shown_def text_shown_def delta_text_def answer_calls_json Let_def
        del: concat_eq_Nil_conv)
  moreover have "announced {} (?calls @ [Chunk_Stop (decode_stop r (call_triples cs \<noteq> []) q)])"
    by (rule announced_synthesized) (use assms in auto)
  then have "announced {} ?ds" by (simp del: concat_eq_Nil_conv)
  moreover have "call_heads ?ds = call_heads ?calls" "arg_deltas ?ds = arg_deltas ?calls"
    by (simp_all add: deltas_append del: concat_eq_Nil_conv)
  then have "stream_calls ?ds = stream_calls cs"
    using synthesize_stream_calls [OF assms] by (simp only: stream_calls_triples [of cs])
  moreover have "text_deltas ?ds = (if ?t = [] then [] else [(0, ?t)])"
    "think_deltas ?ds = (if q_thinking_style q = ''reasoning_content'' \<and> ?k \<noteq> [] then [(0, ?k)] else [])"
    using synthesize_heads [of "call_triples cs" 0] assms
    by (simp_all add: deltas_append del: concat_eq_Nil_conv)
  moreover have "last_usage ?ds = Some \<lparr>u_tokens = decode_usage u, u_model = m\<rparr>"
    by (simp add: last_usage_def last_usage_calls del: concat_eq_Nil_conv)
  moreover have "last_stop ?ds = decode_stop r (call_triples cs \<noteq> []) q"
    using last_stop_end [of "Chunk_Usage \<lparr>u_tokens = decode_usage u, u_model = m\<rparr> # ?think @ ?text @ ?calls"]
    by simp
  ultimately show ?thesis by blast
qed

lemma streamed_is_response:
  assumes "\<forall>c \<in> set (said ps). chat_chunk c" and "announced {} (said ps)" and "r \<noteq> []" and "r \<noteq> ''null''"
  defines "cs \<equiv> said ps"
  shows "\<exists>ds. synthesize_chunks (response_of cs r u) q m = Inr ds \<and>
    snd (assemble parses i (decode_frames text_of q m (map frame_of ps @ [finish_frame r, usage_frame u]) stream_init)) =
    snd (assemble parses i (map Inr ds))"
proof -
  note assms = assms [folded cs_def]
  let ?u = "\<lparr>u_tokens = decode_usage u, u_model = m\<rparr>"
  let ?ss = "filter (shown q) cs @ [Chunk_Stop (decode_stop r (call_triples cs \<noteq> []) q), Chunk_Usage ?u]"
  have calls: "(\<exists>c \<in> set cs. about_call c) \<longleftrightarrow> call_triples cs \<noteq> []"
    using announced_heads [OF assms(2) refl]
    by (auto simp: call_triples_def) (metis sort_key_simps(1) length_0_conv length_sort)+
  have "slots_free {} (st_tools stream_init)" by (simp add: slots_free_def stream_init_def)
  from decode_frames_deltas [OF assms(1,2) [unfolded cs_def] this, of text_of q m "[finish_frame r, usage_frame u]"] obtain st' where
    st': "decode_frames text_of q m (map frame_of ps @ [finish_frame r, usage_frame u]) stream_init =
      map Inr (filter (shown q) cs) @ decode_frames text_of q m [finish_frame r, usage_frame u] st'"
      "st_has_tool_calls st' \<longleftrightarrow> call_triples cs \<noteq> []"
    unfolding calls [unfolded cs_def] by (auto simp: stream_init_def cs_def)
  then have frames: "decode_frames text_of q m (map frame_of ps @ [finish_frame r, usage_frame u]) stream_init = map Inr ?ss"
    by (simp only: decode_ending [OF assms(3,4)]) simp
  obtain ds where ds: "synthesize_chunks (response_of cs r u) q m = Inr ds" "announced {} ds"
    "text_deltas ds = (if concat (map snd (text_deltas cs)) = [] then [] else [(0, concat (map snd (text_deltas cs)))])"
    "think_deltas ds = (if q_thinking_style q = ''reasoning_content'' \<and> concat (map snd (think_deltas cs)) \<noteq> []
        then [(0, concat (map snd (think_deltas cs)))] else [])"
    "stream_calls ds = stream_calls cs" "last_usage ds = Some ?u" "last_stop ds = decode_stop r (call_triples cs \<noteq> []) q"
    using synthesize_response call_index_u32 [OF assms(1,2)] by blast
  have ann: "announced {} ?ss"
  proof -
    have "announced A xs \<Longrightarrow> announced A (xs @ [Chunk_Stop s, Chunk_Usage v])" for A xs s v
      by (induction A xs rule: announced.induct) simp_all
    then show ?thesis using announced_shown [OF assms(2)] by blast
  qed
  have zero: "fst ` set (text_deltas ?ss) \<subseteq> {0}" "fst ` set (think_deltas ?ss) \<subseteq> {0}"
    using chat_chunk_zero [of "filter (shown q) cs"] assms(1) by (auto simp: deltas_append)
  have "snd (assemble parses i (map Inr ?ss)) = snd (assemble parses i (map Inr ds))"
  proof (rule assemble_cong [OF ann ds(2)])
    show "blocks_of (text_deltas ?ss) = blocks_of (text_deltas ds)"
      by (rule blocks_zero_cong [OF zero(1)]) (auto simp: ds(3) deltas_append concat_shown_text)
    show "blocks_of (think_deltas ?ss) = blocks_of (think_deltas ds)"
      by (rule blocks_zero_cong [OF zero(2)]) (auto simp: ds(4) deltas_append concat_shown_think)
    show "stream_calls ?ss = stream_calls ds"
      unfolding ds(5) by (rule stream_calls_cong) (simp_all add: deltas_append heads_shown args_shown)
    show "last_usage ?ss = last_usage ds" "last_stop ?ss = last_stop ds"
      using last_usage_end [of "filter (shown q) cs @ [Chunk_Stop (decode_stop r (call_triples cs \<noteq> []) q)]" ?u]
      by (simp_all add: ds last_stop_end)
  qed
  with ds(1) frames show ?thesis by metis
qed

text \<open>
  A stream that ends without its end is an answer as well, as long as the arguments parse: a call that
  was announced and has no arguments yet is complete, with an empty object for its arguments.
\<close>

lemma cut_stream_accepted:
  assumes "\<forall>c \<in> set (said ps). chat_chunk c" and "announced {} (said ps)"
    and "\<forall>c \<in> set (stream_calls (said ps)). call_ok parses c"
  shows "\<exists>a. snd (assemble parses i (decode_frames text_of q m (map frame_of ps) stream_init)) = Inr a \<and>
    am_stop a = Stop \<and> \<not> am_usage_reported a \<and>
    set (stream_calls (said ps)) \<subseteq> set (msg_content (am_message a))"
proof -
  have "slots_free {} (st_tools stream_init)" by (simp add: slots_free_def stream_init_def)
  from decode_frames_deltas [OF assms(1,2) this, of text_of q m "[]"]
  have frames: "decode_frames text_of q m (map frame_of ps) stream_init = map Inr (filter (shown q) (said ps))"
    by auto
  have calls: "stream_calls (filter (shown q) (said ps)) = stream_calls (said ps)"
    by (rule stream_calls_cong) (simp_all add: heads_shown args_shown)
  have "\<forall>c \<in> set cs. chat_chunk c \<Longrightarrow>
      fold (\<lambda>c r. case c of Chunk_Stop x \<Rightarrow> x | _ \<Rightarrow> r) (filter (shown q) cs) Stop = Stop \<and>
      fold (\<lambda>c u. case c of Chunk_Usage x \<Rightarrow> Some x | _ \<Rightarrow> u) (filter (shown q) cs) None = None" for cs
  proof (induction cs)
    case (Cons c cs)
    then show ?case by (cases c) (simp_all add: chat_chunk_def)
  qed simp
  from this [OF assms(1)] show ?thesis
    using assemble_full [OF announced_shown [OF assms(2), of q], of parses i] assms(3)
    by (auto simp add: frames calls last_stop_def last_usage_def stream_content_def)
qed

lemma cut_call_runs_empty:
  assumes "announced {} cs" and "(i, k, n) \<in> set (call_heads cs)" and "joined (arg_deltas cs) i = []"
  shows "content.ToolCall k n ''{}'' \<in> set (stream_calls cs)"
  using assms(2,3) by (force simp: stream_calls_def call_args_def)

end
