(* ===== verification/Provider_Image.thy ===== *)
theory Provider_Image
  imports Rust_Str
begin

text \<open>
  \<^verbatim>\<open>kn9t-provider-openai/src/image_guard.rs\<close>: an image is passed on, repaired, or replaced by a text
  before it reaches the provider. Base64 (\<open>unb64\<close>, \<open>b64\<close>), the image decoder (\<open>decodes\<close>) and the
  hasher (\<open>hash\<close>) are parameters. A byte is a \<open>char\<close>. A buffer is far shorter than \<^verbatim>\<open>usize::MAX\<close>, so
  the checked additions do not fail.
\<close>

subsection \<open>Repairing a PNG\<close>

definition byte :: "nat \<Rightarrow> char" where
  "byte n = char_of n"

definition png_magic :: string where
  "png_magic = [byte 0x89, CHR ''P'', CHR ''N'', CHR ''G'', byte 0x0D, byte 0x0A, byte 0x1A, byte 0x0A]"

definition iend_chunk :: string where
  "iend_chunk = [byte 0, byte 0, byte 0, byte 0] @ ''IEND'' @ [byte 0xAE, byte 0x42, byte 0x60, byte 0x82]"

definition be32 :: "string \<Rightarrow> nat" where
  "be32 s = foldl (\<lambda>n c. 256 * n + of_char c) 0 (take 4 s)"

text \<open>
  The walk over the chunks: \<open>None\<close> when a terminator is found, otherwise the end of the last complete
  chunk and whether image data was seen.
\<close>

function walk_chunks :: "string \<Rightarrow> nat \<Rightarrow> nat \<Rightarrow> bool \<Rightarrow> (nat \<times> bool) option" where
  "walk_chunks bytes pos done_end saw =
     (if length bytes < pos + 8 then Some (done_end, saw)
      else
        (let e = pos + 12 + be32 (drop pos bytes); kind = take 4 (drop (pos + 4) bytes)
         in if length bytes < e then Some (done_end, saw)
            else if kind = ''IEND'' then None
            else walk_chunks bytes e e (saw \<or> kind = ''IDAT'')))"
  by pat_completeness auto
termination
  by (relation "measure (\<lambda>(bytes, pos, _, _). length bytes - pos)") auto

declare walk_chunks.simps [simp del]

definition repair_png :: "string \<Rightarrow> string option" where
  "repair_png bytes =
     (if length bytes < 8 \<or> take 8 bytes \<noteq> png_magic then None
      else case walk_chunks bytes 8 8 False of
        Some (e, True) \<Rightarrow> Some (take e bytes @ iend_chunk)
      | _ \<Rightarrow> None)"

subsection \<open>The verdict\<close>

datatype img_verdict = Pass | Repaired string | Unusable string

definition strip_suffix :: "string \<Rightarrow> string \<Rightarrow> string option" where
  "strip_suffix p s = (if ends_with s p then Some (take (length s - length p) s) else None)"

definition split_first :: "char \<Rightarrow> string \<Rightarrow> (string \<times> string) option" where
  "split_first c s = (if c \<in> set s
     then Some (takeWhile (\<lambda>x. x \<noteq> c) s, tl (dropWhile (\<lambda>x. x \<noteq> c) s)) else None)"

definition parse_base64_data_uri :: "string \<Rightarrow> (string \<times> string) option" where
  "parse_base64_data_uri uri =
     Option.bind (strip_prefix ''data:'' uri) (\<lambda>rest.
       Option.bind (split_first CHR '','' rest) (\<lambda>(header, payload).
         map_option (\<lambda>mime. (mime, payload)) (strip_suffix '';base64'' header)))"

definition corrupt_note :: "string \<Rightarrow> nat \<Rightarrow> string" where
  "corrupt_note mime n =
     ''[image dropped: '' @ (if mime = [] then ''image'' else mime) @
     '' data is corrupt and could not be decoded ('' @ show_nat n @
     '' bytes). The file itself is likely truncated or incomplete.]''"

definition classify ::
  "(string \<Rightarrow> string option) \<Rightarrow> (string \<Rightarrow> string) \<Rightarrow> (string \<Rightarrow> bool) \<Rightarrow> string \<Rightarrow> string \<Rightarrow> img_verdict" where
  "classify unb64 b64 decodes mime payload =
     (case unb64 payload of
        None \<Rightarrow> Unusable ''[image dropped: payload is not valid base64]''
      | Some bytes \<Rightarrow>
          if decodes bytes then Pass
          else (case repair_png bytes of
                  Some fixed \<Rightarrow>
                    if decodes fixed then Repaired (''data:image/png;base64,'' @ b64 fixed)
                    else Unusable (corrupt_note mime (length bytes))
                | None \<Rightarrow> Unusable (corrupt_note mime (length bytes))))"

text \<open>
  The verdict with the process-wide cache, keyed by the hash of the URI; the lock is not poisoned. \<open>image_verdict\<close>
  is the verdict that is cached.
\<close>

definition checkable :: "string \<Rightarrow> (string \<times> string) option" where
  "checkable url = (case parse_base64_data_uri url of
     Some (mime, payload) \<Rightarrow> if str_contains mime ''svg'' then None else Some (mime, payload)
   | None \<Rightarrow> None)"

definition image_verdict ::
  "(string \<Rightarrow> string option) \<Rightarrow> (string \<Rightarrow> string) \<Rightarrow> (string \<Rightarrow> bool) \<Rightarrow> string \<Rightarrow> img_verdict" where
  "image_verdict unb64 b64 decodes url = (case checkable url of
     None \<Rightarrow> Pass | Some (mime, payload) \<Rightarrow> classify unb64 b64 decodes mime payload)"

definition image_check ::
  "(string \<Rightarrow> string option) \<Rightarrow> (string \<Rightarrow> string) \<Rightarrow> (string \<Rightarrow> bool) \<Rightarrow> (string \<Rightarrow> nat) \<Rightarrow> string
    \<Rightarrow> (nat \<times> img_verdict) list \<Rightarrow> img_verdict \<times> (nat \<times> img_verdict) list" where
  "image_check unb64 b64 decodes hash url cache =
     (case checkable url of
        None \<Rightarrow> (Pass, cache)
      | Some (mime, payload) \<Rightarrow>
          (case map_of cache (hash url) of
             Some hit \<Rightarrow> (hit, cache)
           | None \<Rightarrow>
               (let v = classify unb64 b64 decodes mime payload;
                    c = (if 32 \<le> length cache then [] else cache)
                in (v, (hash url, v) # c))))"

subsection \<open>The cache\<close>

text \<open>A cache that holds verdicts of URIs whose hashes differ answers with the verdict.\<close>

definition cache_of :: "(string \<Rightarrow> nat) \<Rightarrow> (string \<Rightarrow> img_verdict) \<Rightarrow> string set \<Rightarrow> (nat \<times> img_verdict) list \<Rightarrow> bool" where
  "cache_of hash f U cache \<longleftrightarrow> (\<forall>(k, v) \<in> set cache. \<exists>url \<in> U. k = hash url \<and> v = f url) \<and>
     distinct (map fst cache) \<and> length cache \<le> 32"

lemma image_check_cached:
  assumes "cache_of hash (image_verdict unb64 b64 decodes) U cache" and "inj_on hash U" and "url \<in> U"
  shows "fst (image_check unb64 b64 decodes hash url cache) = image_verdict unb64 b64 decodes url \<and>
    cache_of hash (image_verdict unb64 b64 decodes) U (snd (image_check unb64 b64 decodes hash url cache))"
proof (cases "checkable url")
  case (Some mp)
  obtain mime payload where mp: "mp = (mime, payload)" by fastforce
  have v: "image_verdict unb64 b64 decodes url = classify unb64 b64 decodes mime payload"
    using Some mp by (simp add: image_verdict_def)
  show ?thesis
  proof (cases "map_of cache (hash url)")
    case None
    then have "hash url \<notin> fst ` set cache" by (simp add: map_of_eq_None_iff)
    with None Some mp v assms(1,3) show ?thesis
      by (auto simp: image_check_def cache_of_def Let_def)
  next
    case hit: (Some w)
    then have "(hash url, w) \<in> set cache" by (rule map_of_SomeD)
    then obtain url' where "url' \<in> U" "hash url = hash url'" "w = image_verdict unb64 b64 decodes url'"
      using assms(1) by (auto simp: cache_of_def)
    with hit Some mp assms show ?thesis
      by (auto simp: image_check_def dest: inj_onD)
  qed
qed (use assms in \<open>simp add: image_check_def image_verdict_def\<close>)

subsection \<open>What a repair yields\<close>

text \<open>The bytes of a chunk.\<close>

definition be32_bytes :: "nat \<Rightarrow> string" where
  "be32_bytes n = [byte (n div 16777216), byte (n div 65536), byte (n div 256), byte n]"

definition chunk_bytes :: "string \<times> string \<times> string \<Rightarrow> string" where
  "chunk_bytes = (\<lambda>(kind, payload, crc). be32_bytes (length payload) @ kind @ payload @ crc)"

definition chunk_ok :: "string \<times> string \<times> string \<Rightarrow> bool" where
  "chunk_ok = (\<lambda>(kind, payload, crc). length kind = 4 \<and> length crc = 4 \<and> length payload < 2 ^ 32 \<and> kind \<noteq> ''IEND'')"

lemma be32_bytes_inverse:
  assumes "n < 2 ^ 32"
  shows "be32 (be32_bytes n @ s) = n"
proof -
  have step: "256 * (m div 256) + m mod 256 = m" for m :: nat by simp
  have divs: "n div 65536 = n div 256 div 256" "n div 16777216 = n div 65536 div 256"
    by (simp_all add: div_mult2_eq [symmetric])
  have "n div 16777216 mod 256 = n div 16777216" using assms by simp
  then have "be32 (be32_bytes n @ s) =
      256 * (256 * (256 * (n div 65536 div 256) + n div 65536 mod 256) + n div 256 mod 256) + n mod 256"
    by (simp add: be32_def be32_bytes_def byte_def divs(2))
  then show ?thesis by (simp only: step divs)
qed

lemma chunk_bytes_length: "chunk_ok c \<Longrightarrow> length (chunk_bytes c) = 12 + length (fst (snd c))"
  by (auto simp: chunk_ok_def chunk_bytes_def be32_bytes_def)

definition framed :: "string \<times> string \<times> string \<Rightarrow> bool" where
  "framed = (\<lambda>(kind, payload, crc). length kind = 4 \<and> length crc = 4 \<and> length payload < 2 ^ 32)"

definition iend :: "string \<times> string \<times> string" where
  "iend = (''IEND'', [], [byte 0xAE, byte 0x42, byte 0x60, byte 0x82])"

lemma iend_framed: "framed iend" "chunk_bytes iend = iend_chunk"
  by (simp_all add: framed_def iend_def chunk_bytes_def iend_chunk_def be32_bytes_def)

lemma chunk_ok_framed: "chunk_ok c \<longleftrightarrow> framed c \<and> fst c \<noteq> ''IEND''"
  by (auto simp: chunk_ok_def framed_def)

lemma chunk_read:
  assumes "framed c"
  shows "length (chunk_bytes c) = 12 + length (fst (snd c))"
    and "4 \<le> k \<Longrightarrow> be32 (take k (chunk_bytes c) @ s) = length (fst (snd c))"
    and "take 4 (drop 4 (chunk_bytes c @ s)) = fst c"
proof -
  obtain kind payload crc where c: "c = (kind, payload, crc)" by (metis prod.exhaust)
  with assms have l: "length kind = 4" "length crc = 4" "length payload < 2 ^ 32" by (simp_all add: framed_def)
  show "length (chunk_bytes c) = 12 + length (fst (snd c))"
    using l by (simp add: c chunk_bytes_def be32_bytes_def)
  have four: "length (be32_bytes n) = 4" for n by (simp add: be32_bytes_def)
  have "be32 (take k (chunk_bytes c) @ s) = be32 (be32_bytes (length payload) @ [])" if "4 \<le> k"
    unfolding be32_def using that four by (simp add: c chunk_bytes_def)
  then show "4 \<le> k \<Longrightarrow> be32 (take k (chunk_bytes c) @ s) = length (fst (snd c))"
    using be32_bytes_inverse [OF l(3), of "[]"] by (simp add: c)
  show "take 4 (drop 4 (chunk_bytes c @ s)) = fst c"
    using l four by (simp add: c chunk_bytes_def)
qed

lemma walk_complete:
  assumes "framed c"
  shows "walk_chunks (pre @ chunk_bytes c @ rest) (length pre) d saw =
     (if fst c = ''IEND'' then None
      else walk_chunks (pre @ chunk_bytes c @ rest) (length (pre @ chunk_bytes c)) (length (pre @ chunk_bytes c))
        (saw \<or> fst c = ''IDAT''))"
proof -
  have "be32 (chunk_bytes c @ rest) = length (fst (snd c))"
    using chunk_read(2) [OF assms, of "length (chunk_bytes c)" rest] chunk_read(1) [OF assms] by simp
  moreover have "take 4 (drop (length pre + 4) (pre @ chunk_bytes c @ rest)) = fst c"
    using chunk_read(3) [OF assms, of rest] by (simp add: add.commute flip: drop_drop)
  ultimately show ?thesis
    by (subst walk_chunks.simps) (simp add: Let_def chunk_read(1) [OF assms] ac_simps)
qed

lemma walk_incomplete:
  assumes "framed c" and "k < length (chunk_bytes c)"
  shows "walk_chunks (pre @ take k (chunk_bytes c)) (length pre) d saw = Some (d, saw)"
proof (cases "k < 8")
  case True
  then show ?thesis by (subst walk_chunks.simps) (simp add: min_def)
next
  case False
  then have "be32 (take k (chunk_bytes c)) = length (fst (snd c))"
    using chunk_read(2) [OF assms(1), of k "[]"] by simp
  with False assms chunk_read(1) [OF assms(1)] show ?thesis
    by (subst walk_chunks.simps) (simp add: Let_def)
qed

lemma walk_list:
  assumes "\<forall>c \<in> set cs. chunk_ok c"
  shows "walk_chunks (pre @ concat (map chunk_bytes cs) @ rest) (length pre) (length pre) saw =
    walk_chunks (pre @ concat (map chunk_bytes cs) @ rest) (length (pre @ concat (map chunk_bytes cs)))
      (length (pre @ concat (map chunk_bytes cs))) (saw \<or> ''IDAT'' \<in> fst ` set cs)"
  using assms
proof (induction cs arbitrary: pre saw)
  case (Cons c cs)
  then have c: "framed c" "fst c \<noteq> ''IEND''" by (simp_all add: chunk_ok_framed)
  have "walk_chunks (pre @ chunk_bytes c @ concat (map chunk_bytes cs) @ rest) (length pre) (length pre) saw =
      walk_chunks ((pre @ chunk_bytes c) @ concat (map chunk_bytes cs) @ rest) (length (pre @ chunk_bytes c))
        (length (pre @ chunk_bytes c)) (saw \<or> fst c = ''IDAT'')"
    using walk_complete [OF c(1)] c(2) by simp
  also note Cons.IH [of "pre @ chunk_bytes c" "saw \<or> fst c = ''IDAT''"]
  finally show ?case using Cons.prems by (simp add: disj_commute disj_left_commute eq_commute)
qed simp

lemma take_concat_split:
  "k < length (concat xs) \<Longrightarrow>
   \<exists>n j. n < length xs \<and> j < length (xs ! n) \<and> k = length (concat (take n xs)) + j \<and>
     take k (concat xs) = concat (take n xs) @ take j (xs ! n)"
proof (induction xs arbitrary: k)
  case (Cons x xs)
  show ?case
  proof (cases "k < length x")
    case True
    then show ?thesis by (intro exI [of _ 0] exI [of _ k]) simp
  next
    case False
    with Cons.prems have "k - length x < length (concat xs)" by simp
    from Cons.IH [OF this] obtain n j where "n < length xs" "j < length (xs ! n)"
      "k - length x = length (concat (take n xs)) + j"
      "take (k - length x) (concat xs) = concat (take n xs) @ take j (xs ! n)"
      by blast
    with False show ?thesis
      by (intro exI [of _ "Suc n"] exI [of _ j]) simp
  qed
qed simp

definition png_of :: "(string \<times> string \<times> string) list \<Rightarrow> string" where
  "png_of cs = png_magic @ concat (map chunk_bytes cs) @ iend_chunk"

lemma png_magic_length: "length png_magic = 8" "take 8 (png_magic @ s) = png_magic"
  by (simp_all add: png_magic_def)

lemma repair_whole:
  assumes "\<forall>c \<in> set cs. chunk_ok c"
  shows "repair_png (png_of cs) = None"
proof -
  have "walk_chunks (png_of cs) 8 8 False =
      walk_chunks ((png_magic @ concat (map chunk_bytes cs)) @ chunk_bytes iend @ [])
        (length (png_magic @ concat (map chunk_bytes cs))) (length (png_magic @ concat (map chunk_bytes cs)))
        (''IDAT'' \<in> fst ` set cs)"
    using walk_list [OF assms, of png_magic iend_chunk False]
    by (simp add: png_of_def png_magic_length iend_framed)
  also have "\<dots> = None" by (subst walk_complete [OF iend_framed(1)]) (simp add: iend_def)
  finally show ?thesis by (simp add: repair_png_def)
qed

lemma repair_cut:
  assumes "\<forall>c \<in> set cs. chunk_ok c" and "framed c" and "j < length (chunk_bytes c)"
    and "''IDAT'' \<in> fst ` set cs"
  shows "repair_png (png_magic @ concat (map chunk_bytes cs) @ take j (chunk_bytes c)) = Some (png_of cs)"
proof -
  let ?b = "png_magic @ concat (map chunk_bytes cs) @ take j (chunk_bytes c)"
  have "walk_chunks ?b 8 8 False =
      walk_chunks ((png_magic @ concat (map chunk_bytes cs)) @ take j (chunk_bytes c))
        (length (png_magic @ concat (map chunk_bytes cs))) (length (png_magic @ concat (map chunk_bytes cs))) True"
    using walk_list [OF assms(1), of png_magic "take j (chunk_bytes c)" False] assms(4)
    by (simp add: png_magic_length)
  also have "\<dots> = Some (length (png_magic @ concat (map chunk_bytes cs)), True)"
    by (rule walk_incomplete [OF assms(2,3)])
  finally show ?thesis
    by (simp add: repair_png_def png_magic_length png_of_def)
qed

lemma concat_take_mono:
  assumes "a \<le> b"
  shows "length (concat (map f (take a cs))) \<le> length (concat (map f (take b cs)))"
proof -
  have "take b cs = take a cs @ drop a (take b cs)"
    using assms by (metis append_take_drop_id min.absorb1 take_take)
  then show ?thesis by (metis concat_append le_add1 length_append map_append)
qed

lemma repair_truncated:
  assumes "\<forall>c \<in> set cs. chunk_ok c" and "''IDAT'' \<in> fst ` set (take i cs)"
    and "length (png_magic @ concat (map chunk_bytes (take i cs))) \<le> k" and "k < length (png_of cs)"
  shows "\<exists>n. repair_png (take k (png_of cs)) = Some (png_of (take n cs)) \<and> ''IDAT'' \<in> fst ` set (take n cs) \<and>
    length (png_magic @ concat (map chunk_bytes (take n cs))) \<le> k \<and>
    (n < length cs \<longrightarrow> k < length (png_magic @ concat (map chunk_bytes (take (Suc n) cs)))) \<and>
    repair_png (png_of (take n cs)) = None"
proof -
  let ?xs = "map chunk_bytes (cs @ [iend])"
  have png: "png_of cs = png_magic @ concat ?xs" by (simp add: png_of_def iend_framed)
  have "k - 8 < length (concat ?xs)" using assms(3,4) by (simp add: png png_magic_length)
  from take_concat_split [OF this] obtain n j where n: "n < length ?xs" "j < length (?xs ! n)"
    "k - 8 = length (concat (take n ?xs)) + j" "take (k - 8) (concat ?xs) = concat (take n ?xs) @ take j (?xs ! n)"
    by blast
  let ?c = "(cs @ [iend]) ! n"
  have le: "n \<le> length cs" using n(1) by simp
  then have c: "?xs ! n = chunk_bytes ?c" and tn: "take n ?xs = map chunk_bytes (take n cs)"
    using n(1) by (simp_all add: take_map del: map_append)
  have framed: "framed ?c"
    using assms(1) le iend_framed(1) by (auto simp: nth_append chunk_ok_framed)
  have k: "8 \<le> k" "k = length (png_magic @ concat (map chunk_bytes (take n cs))) + j"
    using assms(3) n(3) unfolding tn by (simp_all add: png_magic_length)
  have cut: "take k (png_of cs) = png_magic @ concat (map chunk_bytes (take n cs)) @ take j (chunk_bytes ?c)"
    using n(4) k(1) unfolding tn c by (simp add: png png_magic_length)
  have next_end: "k < length (png_magic @ concat (map chunk_bytes (take (Suc n) cs)))" if "n < length cs"
  proof -
    have "take (Suc n) cs = take n cs @ [?c]" using that by (simp add: take_Suc_conv_app_nth nth_append)
    then show ?thesis using n(2) k(2) unfolding c by simp
  qed
  have "set (take i cs) \<subseteq> set (take n cs)"
  proof (cases "i \<le> n \<or> n = length cs")
    case True
    then show ?thesis using set_take_subset_set_take [of i n cs] set_take_subset [of i cs] by auto
  next
    case False
    then have "length (png_magic @ concat (map chunk_bytes (take (Suc n) cs))) \<le> k"
      using concat_take_mono [of "Suc n" i chunk_bytes cs] assms(3) by simp
    with next_end False le show ?thesis by simp
  qed
  then have idat: "''IDAT'' \<in> fst ` set (take n cs)" using assms(2) by auto
  have ok: "\<forall>c \<in> set (take n cs). chunk_ok c" using assms(1) by (auto dest: in_set_takeD)
  show ?thesis
    using repair_cut [OF ok framed n(2) [unfolded c] idat] repair_whole [OF ok] idat k(2) next_end
    unfolding cut by (intro exI [of _ n]) auto
qed

end
