(* ===== verification/Provider_Encode.thy ===== *)
theory Provider_Encode
  imports React_Env Provider_Decode Provider_Image
begin

text \<open>
  \<^verbatim>\<open>kn9t-provider-openai/src/encode.rs\<close>: a request becomes the body of a chat-completions call. The
  verdict of the image guard is passed as a function, \<open>image_verdict\<close> of \<^verbatim>\<open>Provider_Image\<close> for the
  guard of the code. Dumping the body to stderr is left out. An object is built in the order of the
  assignments of the code.
\<close>

subsection \<open>Content\<close>

definition ephemeral :: json where
  "ephemeral = JObj [(''type'', JStr ''ephemeral'')]"

definition text_of_content :: "content \<Rightarrow> string option" where
  "text_of_content c = (case c of Text t \<Rightarrow> Some t | _ \<Rightarrow> None)"

definition is_image :: "content \<Rightarrow> bool" where
  "is_image c = (case c of Image _ _ \<Rightarrow> True | _ \<Rightarrow> False)"

definition join_lines :: "content list \<Rightarrow> string" where
  "join_lines cs = join_with CHR 0x0A (List.map_filter text_of_content cs)"

text \<open>What a tool printed, or the placeholder for nothing but whitespace.\<close>

definition output_text :: "content list \<Rightarrow> string" where
  "output_text cs = (let t = join_lines cs in if trim t = [] then ''(no output)'' else t)"

definition image_url :: "string \<Rightarrow> string \<Rightarrow> string" where
  "image_url sha mime = (if starts_with sha ''data:'' then sha else ''data:'' @ mime @ '';base64,'' @ sha)"

definition text_part :: "string \<Rightarrow> (string \<times> json) list" where
  "text_part t = [(''type'', JStr ''text''), (''text'', JStr t)]"

definition image_part :: "string \<Rightarrow> (string \<times> json) list" where
  "image_part url = [(''type'', JStr ''image_url''), (''image_url'', JObj [(''url'', JStr url)])]"

text \<open>The fields of the part a block becomes.\<close>

definition encode_content :: "(string \<Rightarrow> img_verdict) \<Rightarrow> content \<Rightarrow> (string \<times> json) list" where
  "encode_content guard c = (case c of
     Text t \<Rightarrow> text_part t
   | Image sha mime \<Rightarrow>
       (let url = image_url sha mime
        in case guard url of
          Pass \<Rightarrow> image_part url | Repaired fixed \<Rightarrow> image_part fixed | Unusable n \<Rightarrow> text_part n)
   | content.ToolCall i n a \<Rightarrow>
       [(''type'', JStr ''tool_call''), (''id'', JStr i), (''name'', JStr n), (''arguments'', JStr a)]
   | ToolResult i cs err \<Rightarrow>
       [(''type'', JStr ''tool_result''), (''tool_use_id'', JStr i), (''content'', JStr (join_lines cs)),
        (''is_error'', JBool err)]
   | content.Thinking t _ \<Rightarrow> [(''type'', JStr ''thinking''), (''thinking'', JStr t)])"

subsection \<open>Messages\<close>

definition role_name :: "role \<Rightarrow> string" where
  "role_name r = (case r of Role_User \<Rightarrow> ''user'' | Role_Assistant \<Rightarrow> ''assistant''
     | Role_Tool \<Rightarrow> ''tool'' | Role_System \<Rightarrow> ''system'')"

definition cached_text :: "string \<Rightarrow> json" where
  "cached_text t = JArr [JObj (text_part t @ [(''cache_control'', ephemeral)])]"

definition answer_message :: "bool \<Rightarrow> call_id \<Rightarrow> string \<Rightarrow> json" where
  "answer_message needs i t =
     JObj [(''role'', JStr ''tool''), (''tool_call_id'', JStr i),
       (''content'', if needs then cached_text t else JStr t)]"

definition call_entry :: "content \<Rightarrow> json option" where
  "call_entry c = (case c of
     content.ToolCall i n a \<Rightarrow>
       Some (JObj [(''id'', JStr i), (''type'', JStr ''function''),
         (''function'', JObj [(''name'', JStr n), (''arguments'', JStr a)])])
   | _ \<Rightarrow> None)"

text \<open>The text beside calls; null when there is none, or none left after the trimming of the quirk.\<close>

definition text_beside :: "bool \<Rightarrow> content list \<Rightarrow> json" where
  "text_beside trimming cs =
     (let joined = concat (List.map_filter text_of_content cs);
          trimmed = (if trimming then trim_end joined else joined)
      in if trimmed = [] then JNull else JStr trimmed)"

definition parts_of :: "(string \<Rightarrow> img_verdict) \<Rightarrow> bool \<Rightarrow> content list \<Rightarrow> json" where
  "parts_of guard needs cs =
     (let parts = map (encode_content guard) cs
      in JArr (map JObj (if needs \<and> parts \<noteq> []
           then butlast parts @ [obj_insert ''cache_control'' ephemeral (List.last parts)] else parts)))"

definition encode_message :: "(string \<Rightarrow> img_verdict) \<Rightarrow> role \<Rightarrow> content list \<Rightarrow> quirks \<Rightarrow> bool \<Rightarrow> json" where
  "encode_message guard r cs q needs =
     (case cs of
        [Text t] \<Rightarrow>
          (let t' = (if q_trim_trailing_whitespace q \<and> r = Role_Assistant then trim_end t else t)
           in JObj [(''role'', JStr (role_name r)), (''content'', if needs then cached_text t' else JStr t')])
      | _ \<Rightarrow>
          (case (r, cs) of
             (Role_Tool, ToolResult i inner _ # _) \<Rightarrow> answer_message False i (output_text inner)
           | _ \<Rightarrow>
               (let calls = List.map_filter call_entry cs
                in if r = Role_Assistant \<and> calls \<noteq> []
                   then JObj [(''role'', JStr ''assistant''),
                     (''content'', text_beside (q_trim_trailing_whitespace q) cs), (''tool_calls'', JArr calls)]
                   else JObj [(''role'', JStr (role_name r)), (''content'', parts_of guard needs cs)])))"

definition result_parts :: "content \<Rightarrow> (call_id \<times> string \<times> content list) option" where
  "result_parts c = (case c of ToolResult i inner _ \<Rightarrow> Some (i, output_text inner, filter is_image inner) | _ \<Rightarrow> None)"

text \<open>The loop over the results: the images of a result follow its answer as a message of the user.\<close>

fun encode_results :: "(string \<Rightarrow> img_verdict) \<Rightarrow> bool \<Rightarrow> (call_id \<times> string \<times> content list) list \<Rightarrow> json list" where
  "encode_results guard needs [] = []"
| "encode_results guard needs ((i, t, images) # rs) =
     answer_message (needs \<and> rs = []) i t
     # (if images = [] then []
        else [JObj [(''role'', JStr ''user''), (''content'', JArr (map (JObj \<circ> encode_content guard) images))]])
     @ encode_results guard needs rs"

definition is_thinking :: "content \<Rightarrow> bool" where
  "is_thinking c = (case c of content.Thinking _ _ \<Rightarrow> True | _ \<Rightarrow> False)"

definition encode_messages :: "(string \<Rightarrow> img_verdict) \<Rightarrow> message \<Rightarrow> quirks \<Rightarrow> bool \<Rightarrow> json list" where
  "encode_messages guard m q needs =
     (if msg_role m = Role_Tool
      then encode_results guard needs (List.map_filter result_parts (msg_content m))
      else
        (let cs = (if q_thinking_replay q = ''strip'' then filter (\<lambda>c. \<not> is_thinking c) (msg_content m)
                   else msg_content m)
         in if cs = [] then [] else [encode_message guard (msg_role m) cs q needs]))"

subsection \<open>The body\<close>

definition effort_of :: "thinking \<Rightarrow> string option" where
  "effort_of t = (case t of
     Off \<Rightarrow> None | Effort Low \<Rightarrow> Some ''low'' | Effort Medium \<Rightarrow> Some ''medium''
   | Effort High \<Rightarrow> Some ''high'' | Budget _ \<Rightarrow> Some ''medium'')"

definition tool_json :: "tool_spec \<Rightarrow> (string \<times> json) list" where
  "tool_json t = [(''type'', JStr ''function''),
     (''function'', JObj [(''name'', JStr (ts_name t)), (''description'', JStr (ts_description t)),
       (''parameters'', ts_schema t)])]"

definition placeholder_tool :: "(string \<times> json) list" where
  "placeholder_tool = [(''type'', JStr ''function''),
     (''function'', JObj [(''name'', JStr ''_placeholder''),
       (''description'', JStr ''Never called; satisfies gateway tool-presence requirement.''),
       (''parameters'', JObj [(''type'', JStr ''object''), (''properties'', JObj [])])])]"

definition wire_messages :: "(string \<Rightarrow> img_verdict) \<Rightarrow> request \<Rightarrow> quirks \<Rightarrow> cache_mode \<Rightarrow> json list" where
  "wire_messages guard req q mode =
     (case rq_system req of
        Some s \<Rightarrow> [JObj [(''role'', JStr (q_system_role q)), (''content'', JStr s)]] | None \<Rightarrow> []) @
     concat (map (\<lambda>(i, m). encode_messages guard m q (mode \<noteq> Cache_None \<and> AfterMessage i \<in> set (rq_cache req)))
       (enumerate 0 (rq_messages req)))"

definition wire_tools :: "request \<Rightarrow> quirks \<Rightarrow> cache_mode \<Rightarrow> json list" where
  "wire_tools req q mode =
     (let caching = (Cache_System \<in> set (rq_cache req) \<and> mode \<noteq> Cache_None);
          mark = (\<lambda>t. if caching then obj_insert ''cache_control'' ephemeral t else t);
          tools = map tool_json (rq_tools req)
      in map JObj (if tools = [] then (if q_require_tools q then [mark placeholder_tool] else [])
           else butlast tools @ [mark (List.last tools)]))"

definition reasoning_fields :: "quirks \<Rightarrow> thinking \<Rightarrow> (string \<times> json) list" where
  "reasoning_fields q t =
     (if q_reasoning q = ''reasoning_effort''
      then (case (if t = Off then Some ''none'' else effort_of t) of
              Some e \<Rightarrow> [(''reasoning_effort'', JStr e)] | None \<Rightarrow> [])
      else if q_reasoning q = ''budget_tokens''
      then (case t of Budget n \<Rightarrow>
              [(''thinking'', JObj [(''type'', JStr ''enabled''), (''budget_tokens'', enc_uint n)])] | _ \<Rightarrow> [])
      else if q_reasoning q = ''adaptive''
      then (case effort_of t of
              Some e \<Rightarrow> [(''thinking'', JObj [(''type'', JStr ''adaptive'')]),
                (''output_config'', JObj [(''effort'', JStr e)])]
            | None \<Rightarrow> [])
      else [])"

text \<open>\<^verbatim>\<open>body[k] = v\<close> for each of the fields in turn.\<close>

definition set_fields :: "(string \<times> json) list \<Rightarrow> (string \<times> json) list \<Rightarrow> (string \<times> json) list" where
  "set_fields fs b = fold (\<lambda>(k, v). obj_insert k v) fs b"

definition build_request :: "(string \<Rightarrow> img_verdict) \<Rightarrow> request \<Rightarrow> quirks \<Rightarrow> cache_mode \<Rightarrow> json" where
  "build_request guard req q mode =
     JObj (set_fields
       ([(''model'', JStr (ms_api_id (rq_model req)))] @
        (case rq_max_tokens req of Some n \<Rightarrow> [(q_max_tokens_field q, enc_uint n)] | None \<Rightarrow> []) @
        [(''stream'', JBool (q_streaming q))] @
        (if q_streaming q \<and> q_usage_in_stream q
         then [(''stream_options'', JObj [(''include_usage'', JBool True)])] else []) @
        [(''messages'', JArr (wire_messages guard req q mode))] @
        (if q_require_tools q \<and> rq_tools req = [] then [(''tool_choice'', JStr ''auto'')] else []) @
        (if wire_tools req q mode = [] then [] else [(''tools'', JArr (wire_tools req q mode))]) @
        reasoning_fields q (rq_thinking req) @
        (case q_extra_body q of JObj extra \<Rightarrow> extra | _ \<Rightarrow> [])) [])"

subsection \<open>Cache fields (cache.rs)\<close>

definition should_send_cache_fields :: "cache_mode \<Rightarrow> bool" where
  "should_send_cache_fields mode = (case mode of Explicit _ _ \<Rightarrow> True | _ \<Rightarrow> False)"

definition attach_cache_control :: "(string \<times> json) list \<Rightarrow> (string \<times> json) list" where
  "attach_cache_control obj = obj_insert ''cache_control'' ephemeral obj"

text \<open>
  The encoder does not ask \<open>should_send_cache_fields\<close>: a mode that is \<open>Automatic\<close>, which is to send no
  cache fields, marks the last tool like an explicit one.
\<close>

lemma automatic_sends_cache_fields:
  assumes "Cache_System \<in> set (rq_cache req)" and "rq_tools req \<noteq> []"
  shows "\<not> should_send_cache_fields Automatic \<and>
    obj_get ''cache_control'' (List.last (wire_tools req q Automatic)) = Some ephemeral"
  using assms
  by (simp add: should_send_cache_fields_def wire_tools_def Let_def obj_get_JObj map_of_obj_insert last_map)

lemma no_cache_fields_without_mode:
  "wire_tools req q Cache_None = map JObj (if rq_tools req = []
     then (if q_require_tools q then [placeholder_tool] else []) else map tool_json (rq_tools req))"
  by (simp add: wire_tools_def Let_def)

end
