(* ===== verification/Provider_Responses.thy ===== *)
theory Provider_Responses
  imports Provider_Encode
begin

text \<open>
  \<^verbatim>\<open>kn9t-provider-openai/src/responses.rs\<close>, the other wire format, and the choice between the two in
  \<^verbatim>\<open>provider.rs\<close>. The last part shows what both formats keep of a transcript: its calls and their
  answers, in order.
\<close>

subsection \<open>Encoding\<close>

definition responses_path :: "quirks \<Rightarrow> string" where
  "responses_path q = (if q_api q = ''responses'' then ''/responses'' else ''/chat/completions'')"

definition input_role :: "role \<Rightarrow> string" where
  "input_role r = (case r of Role_User \<Rightarrow> ''user'' | Role_Assistant \<Rightarrow> ''assistant''
     | Role_System \<Rightarrow> ''system'' | Role_Tool \<Rightarrow> ''user'')"

definition input_text :: "string \<Rightarrow> json" where
  "input_text t = JObj [(''type'', JStr ''input_text''), (''text'', JStr t)]"

definition input_image :: "(string \<Rightarrow> img_verdict) \<Rightarrow> string \<Rightarrow> string \<Rightarrow> json" where
  "input_image guard sha mime =
     (let url = image_url sha mime;
          img = (\<lambda>u. JObj [(''type'', JStr ''input_image''), (''image_url'', JStr u)])
      in case guard url of Pass \<Rightarrow> img url | Repaired fixed \<Rightarrow> img fixed | Unusable n \<Rightarrow> input_text n)"

definition input_part :: "(string \<Rightarrow> img_verdict) \<Rightarrow> content \<Rightarrow> json option" where
  "input_part guard c = (case c of
     Text t \<Rightarrow> if t = [] then None else Some (input_text t)
   | Image sha mime \<Rightarrow> Some (input_image guard sha mime)
   | _ \<Rightarrow> None)"

definition flush_parts :: "role \<Rightarrow> json list \<Rightarrow> json list" where
  "flush_parts r parts = (if parts = [] then []
     else [JObj [(''role'', JStr (input_role r)), (''content'', JArr parts)]])"

definition function_call :: "call_id \<Rightarrow> string \<Rightarrow> string \<Rightarrow> json" where
  "function_call i n a = JObj [(''type'', JStr ''function_call''), (''call_id'', JStr i),
     (''name'', JStr n), (''arguments'', JStr a)]"

definition call_output :: "content \<Rightarrow> json option" where
  "call_output c = (case c of
     ToolResult i inner _ \<Rightarrow> Some (JObj [(''type'', JStr ''function_call_output''), (''call_id'', JStr i),
       (''output'', JStr (output_text inner))])
   | _ \<Rightarrow> None)"

text \<open>The loop over the blocks of an answer: a call flushes the parts before it.\<close>

fun assistant_items :: "(string \<Rightarrow> img_verdict) \<Rightarrow> json list \<Rightarrow> content list \<Rightarrow> json list" where
  "assistant_items guard parts [] = flush_parts Role_Assistant parts"
| "assistant_items guard parts (content.ToolCall i n a # cs) =
     flush_parts Role_Assistant parts @ [function_call i n a] @ assistant_items guard [] cs"
| "assistant_items guard parts (c # cs) =
     assistant_items guard (parts @ (case input_part guard c of Some p \<Rightarrow> [p] | None \<Rightarrow> [])) cs"

definition message_items :: "(string \<Rightarrow> img_verdict) \<Rightarrow> message \<Rightarrow> json list" where
  "message_items guard m =
     (if msg_role m = Role_Tool then List.map_filter call_output (msg_content m)
      else if msg_role m = Role_Assistant then assistant_items guard [] (msg_content m)
      else flush_parts (msg_role m) (List.map_filter (input_part guard) (msg_content m)))"

definition flat_tool :: "string \<Rightarrow> string \<Rightarrow> json \<Rightarrow> json" where
  "flat_tool n d schema = JObj [(''type'', JStr ''function''), (''name'', JStr n), (''description'', JStr d),
     (''parameters'', schema), (''strict'', JBool False)]"

definition flat_tools :: "request \<Rightarrow> quirks \<Rightarrow> json list" where
  "flat_tools req q =
     (if q_require_tools q \<and> rq_tools req = []
      then [flat_tool ''_placeholder'' ''Never called; satisfies gateway tool-presence requirement.''
              (JObj [(''type'', JStr ''object''), (''properties'', JObj [])])]
      else map (\<lambda>t. flat_tool (ts_name t) (ts_description t) (ts_schema t)) (rq_tools req))"

definition build_body :: "(string \<Rightarrow> img_verdict) \<Rightarrow> request \<Rightarrow> quirks \<Rightarrow> json" where
  "build_body guard req q =
     JObj (set_fields
       ([(''model'', JStr (ms_api_id (rq_model req)))] @
        (case rq_system req of Some s \<Rightarrow> [(''instructions'', JStr s)] | None \<Rightarrow> []) @
        (case rq_max_tokens req of Some n \<Rightarrow> [(''max_output_tokens'', enc_uint n)] | None \<Rightarrow> []) @
        [(''stream'', JBool (q_streaming q)), (''store'', JBool False)] @
        [(''input'', JArr (concat (map (message_items guard) (rq_messages req))))] @
        (if q_require_tools q \<and> rq_tools req = [] then [(''tool_choice'', JStr ''auto'')] else []) @
        (if flat_tools req q = [] then [] else [(''tools'', JArr (flat_tools req q))]) @
        (if q_reasoning q = ''reasoning_effort''
         then (case effort_of (rq_thinking req) of
                 Some e \<Rightarrow> [(''reasoning'', JObj [(''effort'', JStr e)])] | None \<Rightarrow> []) else []) @
        (case q_extra_body q of JObj extra \<Rightarrow> extra | _ \<Rightarrow> [])) [])"

subsection \<open>Decoding\<close>

definition output_index :: "json \<Rightarrow> nat" where
  "output_index v = count_of (obj_get ''output_index'' v)"

definition responses_usage :: "json \<Rightarrow> tokens" where
  "responses_usage u =
     (let total = count_of (obj_get ''input_tokens'' u);
          output = count_of (obj_get ''output_tokens'' u);
          cread = count_of (pointer ''input_tokens_details'' ''cached_tokens'' u);
          cwrite = count_of (pointer ''input_tokens_details'' ''cache_write_tokens'' u);
          reasoning = count_of (pointer ''output_tokens_details'' ''reasoning_tokens'' u)
      in \<lparr>t_input = total - add_u32 cread cwrite, t_output = output, t_cache_read = cread,
          t_cache_write = cwrite, t_reasoning = reasoning\<rparr>)"

definition responses_usage_chunks :: "model_ref \<Rightarrow> json option \<Rightarrow> chunk list" where
  "responses_usage_chunks m u = (case u of
     Some x \<Rightarrow> [Chunk_Usage \<lparr>u_tokens = responses_usage x, u_model = m\<rparr>] | None \<Rightarrow> [])"

definition incomplete_stop :: "string \<Rightarrow> stop_reason \<Rightarrow> stop_reason" where
  "incomplete_stop reason other =
     (if reason = ''max_output_tokens'' then Length
      else if reason = ''content_filter'' then Refusal else other)"

definition event_delta :: "json \<Rightarrow> string" where
  "event_delta v = some_text (str_at ''delta'' v)"

text \<open>One event of the stream; the state is whether a call was seen.\<close>

definition decode_event ::
  "(json \<Rightarrow> string) \<Rightarrow> model_ref \<Rightarrow> json \<Rightarrow> bool \<Rightarrow> (prov_err + chunk list) \<times> bool" where
  "decode_event text_of m v has =
     (let ty = some_text (str_at ''type'' v); d = event_delta v; resp = obj_get ''response'' v in
      if ty = ''response.output_text.delta''
      then (Inr (if d = [] then [] else [Chunk_Text 0 d]), has)
      else if ty = ''response.reasoning_summary_text.delta'' \<or> ty = ''response.reasoning_text.delta''
      then (Inr (if d = [] then [] else [Chunk_Thinking 0 d]), has)
      else if ty = ''response.output_item.added''
      then (case obj_get ''item'' v of
              Some item \<Rightarrow>
                if str_at ''type'' item = Some ''function_call''
                then (Inr [Chunk_ToolCall (output_index v) (some_text (str_at ''call_id'' item))
                        (some_text (str_at ''name'' item))], True)
                else (Inr [], has)
            | None \<Rightarrow> (Inr [], has))
      else if ty = ''response.function_call_arguments.delta''
      then (Inr (if d = [] then [] else [Chunk_ToolArgs (output_index v) d]), has)
      else if ty = ''response.completed''
      then (Inr (responses_usage_chunks m (Option.bind resp (obj_get ''usage'')) @
              [Chunk_Stop (if has then ToolUse else Stop)]), has)
      else if ty = ''response.incomplete''
      then (Inr (responses_usage_chunks m (Option.bind resp (obj_get ''usage'')) @
              [Chunk_Stop (incomplete_stop
                (some_text (Option.bind (Option.bind resp (pointer ''incomplete_details'' ''reason'')) dec_str)) Stop)]), has)
      else if ty = ''response.failed'' \<or> ty = ''response.error''
      then (Inl (frame_error text_of
              (case or_else (pointer ''response'' ''error'' v) (obj_get ''error'' v) of Some e \<Rightarrow> e | None \<Rightarrow> v)), has)
      else (Inr [], has))"

definition decode_event_bytes ::
  "(string \<Rightarrow> string + json) \<Rightarrow> (json \<Rightarrow> string) \<Rightarrow> model_ref \<Rightarrow> string \<Rightarrow> bool
    \<Rightarrow> (prov_err + chunk list) \<times> bool" where
  "decode_event_bytes parse text_of m bytes has =
     (case parse bytes of
        Inl e \<Rightarrow> (Inl (Decode (''json: '' @ e)), has)
      | Inr v \<Rightarrow> decode_event text_of m v has)"

definition output_part :: "json \<Rightarrow> chunk list" where
  "output_part part = (if str_at ''type'' part = Some ''output_text''
     then (case str_at ''text'' part of Some t \<Rightarrow> if t = [] then [] else [Chunk_Text 0 t] | None \<Rightarrow> [])
     else [])"

definition output_item :: "nat \<Rightarrow> json \<Rightarrow> chunk list" where
  "output_item i item =
     (let ty = some_text (str_at ''type'' item) in
      if ty = ''message''
      then (case Option.bind (obj_get ''content'' item) arr_of of
              Some parts \<Rightarrow> concat (map output_part parts) | None \<Rightarrow> [])
      else if ty = ''function_call''
      then Chunk_ToolCall (cast_u32 i) (some_text (str_at ''call_id'' item)) (some_text (str_at ''name'' item))
        # (case str_at ''arguments'' item of
             Some a \<Rightarrow> if a = [] then [] else [Chunk_ToolArgs (cast_u32 i) a] | None \<Rightarrow> [])
      else [])"

definition is_function_call :: "json \<Rightarrow> bool" where
  "is_function_call item \<longleftrightarrow> str_at ''type'' item = Some ''function_call''"

definition synthesize_response_chunks :: "json \<Rightarrow> model_ref \<Rightarrow> prov_err + chunk list" where
  "synthesize_response_chunks v m =
     (case Option.bind (obj_get ''output'' v) arr_of of
        None \<Rightarrow> Inl (Decode ''no output'')
      | Some items \<Rightarrow>
          Inr (concat (map (\<lambda>(i, item). output_item i item) (enumerate 0 items)) @
            responses_usage_chunks m (obj_get ''usage'' v) @
            [Chunk_Stop (incomplete_stop
               (some_text (Option.bind (pointer ''incomplete_details'' ''reason'' v) dec_str))
               (if \<exists>item \<in> set items. is_function_call item then ToolUse else Stop))]))"

subsection \<open>One attempt (provider.rs)\<close>

definition quirks_for :: "quirks \<Rightarrow> (string \<rightharpoonup> quirks) \<Rightarrow> model_ref \<Rightarrow> quirks" where
  "quirks_for base per_model m = (case per_model (mr_id m) of Some q \<Rightarrow> q | None \<Rightarrow> base)"

definition request_body :: "(string \<Rightarrow> img_verdict) \<Rightarrow> request \<Rightarrow> quirks \<Rightarrow> json" where
  "request_body guard req q =
     (if q_api q = ''responses'' then build_body guard req q
      else build_request guard req q (ms_cache (rq_model req)))"

definition build_headers :: "quirks \<Rightarrow> request \<Rightarrow> (string \<times> string) list \<Rightarrow> (string \<times> string) list" where
  "build_headers q req extra =
     [(''Content-Type'', ''application/json'')] @
     (if q_session_header q = [] then []
      else (case rq_session req of Some s \<Rightarrow> [(q_session_header q, s)] | None \<Rightarrow> [])) @ extra"

text \<open>
  Slicing at a byte inside a character panics: a failed call whose body is longer than 4000 bytes, with
  a character across that byte, unwinds out of the attempt instead of returning its error.
\<close>

definition char_boundary :: "string \<Rightarrow> nat \<Rightarrow> bool" where
  "char_boundary s i \<longleftrightarrow> i = 0 \<or> i = length s \<or>
     i < length s \<and> \<not> (128 \<le> (of_char (s ! i) :: nat) \<and> (of_char (s ! i) :: nat) < 192)"

datatype 'a may_panic = Panicked | Done 'a

text \<open>
  What follows the answer of \<^verbatim>\<open>send\<close>: \<open>body\<close> is the text of the body, if it can be read as one, \<open>ls\<close> its
  lines, and \<open>cs\<close> what the splitter sees of the cancel flag.
\<close>

definition attempt_response ::
  "(string \<Rightarrow> string + json) \<Rightarrow> (json \<Rightarrow> string) \<Rightarrow> quirks \<Rightarrow> model_ref \<Rightarrow> nat \<Rightarrow> string + string
    \<Rightarrow> bool list \<Rightarrow> (string + string) list \<Rightarrow> (prov_err + (prov_err + chunk) list) may_panic" where
  "attempt_response parse text_of q m st body cs ls =
     (if st \<noteq> 200
      then (let b = (case body of Inr b \<Rightarrow> b | Inl _ \<Rightarrow> [])
            in if 4000 < length b \<and> \<not> char_boundary b 4000 then Panicked
               else Done (Inl (if is_context_overflow st b then ContextOverflow else Http st b)))
      else if q_streaming q
      then Done (Inr (if q_api q = ''responses''
        then decode_stream (decode_event_bytes parse text_of m) (sse_iter cs ls) False
        else decode_stream (decode_delta parse text_of q m) (sse_iter cs ls) stream_init))
      else (case body of
              Inl e \<Rightarrow> Done (Inl (prov_err.Stream e))
            | Inr b \<Rightarrow>
                (case parse b of
                   Inl e \<Rightarrow> Done (Inl (Decode e))
                 | Inr v \<Rightarrow> Done (map_sum id (map Inr)
                     (if q_api q = ''responses'' then synthesize_response_chunks v m
                      else synthesize_chunks v q m)))))"

subsection \<open>Calls and answers on the wire\<close>

datatype call_mark = Mark_Call call_id | Mark_Answer call_id

text \<open>What a transcript says of calls and answers, and what the items of either format say.\<close>

definition message_marks :: "message \<Rightarrow> call_mark list" where
  "message_marks m =
     (if msg_role m = Role_Tool then map Mark_Answer (List.map_filter result_id_of (msg_content m))
      else if msg_role m = Role_Assistant then map Mark_Call (List.map_filter call_id_of (msg_content m))
      else [])"

definition chat_marks :: "json \<Rightarrow> call_mark list" where
  "chat_marks j =
     (if str_at ''role'' j = Some ''tool''
      then (case str_at ''tool_call_id'' j of Some i \<Rightarrow> [Mark_Answer i] | None \<Rightarrow> [])
      else (case Option.bind (obj_get ''tool_calls'' j) arr_of of
              Some xs \<Rightarrow> List.map_filter (\<lambda>x. map_option Mark_Call (str_at ''id'' x)) xs | None \<Rightarrow> []))"

definition item_marks :: "json \<Rightarrow> call_mark list" where
  "item_marks j =
     (case str_at ''call_id'' j of
        None \<Rightarrow> []
      | Some i \<Rightarrow>
          if str_at ''type'' j = Some ''function_call'' then [Mark_Call i]
          else if str_at ''type'' j = Some ''function_call_output'' then [Mark_Answer i] else [])"

definition body_marks :: "quirks \<Rightarrow> json \<Rightarrow> call_mark list option" where
  "body_marks q body =
     (if q_api q = ''responses''
      then map_option (\<lambda>xs. concat (map item_marks xs)) (Option.bind (obj_get ''input'' body) arr_of)
      else map_option (\<lambda>xs. concat (map chat_marks xs)) (Option.bind (obj_get ''messages'' body) arr_of))"

lemma map_filter_Cons:
  "List.map_filter f (x # xs) = (case f x of Some y \<Rightarrow> y # List.map_filter f xs | None \<Rightarrow> List.map_filter f xs)"
  by (simp add: List.map_filter_simps)

lemma map_filter_Nil: "List.map_filter f [] = []"
  by (simp add: List.map_filter_simps)

lemma chat_marks_tool: "chat_marks (answer_message b i t) = [Mark_Answer i]"
  by (simp add: chat_marks_def answer_message_def codec_simps)

lemma encode_results_marks:
  "concat (map chat_marks (encode_results guard needs rs)) = map (Mark_Answer \<circ> fst) rs"
proof (induction guard needs rs rule: encode_results.induct)
  case (2 guard needs i t images rs)
  have "chat_marks (JObj [(''role'', JStr ''user''), (''content'', x)]) = []" for x
    by (simp add: chat_marks_def codec_simps obj_get_JObj)
  with 2 show ?case by (simp add: chat_marks_tool)
qed simp

lemma result_parts_ids:
  "map (Mark_Answer \<circ> fst) (List.map_filter result_parts cs) = map Mark_Answer (List.map_filter result_id_of cs)"
proof (induction cs)
  case (Cons c cs)
  then show ?case by (cases c) (simp_all add: map_filter_Cons result_parts_def)
qed (simp add: map_filter_Nil)

lemma call_entries_marks:
  "List.map_filter (\<lambda>x. map_option Mark_Call (str_at ''id'' x)) (List.map_filter call_entry cs) =
     map Mark_Call (List.map_filter call_id_of cs)"
proof (induction cs)
  case (Cons c cs)
  then show ?case by (cases c) (simp_all add: map_filter_Cons call_entry_def codec_simps)
qed (simp add: map_filter_Nil)

lemma call_entries_empty: "List.map_filter call_entry cs = [] \<longleftrightarrow> List.map_filter call_id_of cs = []"
proof (induction cs)
  case (Cons c cs)
  then show ?case by (cases c) (simp_all add: map_filter_Cons call_entry_def)
qed (simp add: map_filter_Nil)

lemma calls_without_thinking:
  "List.map_filter call_id_of (filter (\<lambda>c. \<not> is_thinking c) cs) = List.map_filter call_id_of cs"
proof (induction cs)
  case (Cons c cs)
  then show ?case by (cases c) (simp_all add: map_filter_Cons is_thinking_def)
qed simp

lemma encode_message_marks:
  assumes "r \<noteq> Role_Tool"
  shows "chat_marks (encode_message guard r cs q needs) =
     (if r = Role_Assistant then map Mark_Call (List.map_filter call_id_of cs) else [])"
proof -
  have plain: "chat_marks (JObj [(''role'', JStr (role_name s)), (''content'', x)]) = []" if "s \<noteq> Role_Tool" for s x
    using that by (cases s) (simp_all add: chat_marks_def codec_simps obj_get_JObj role_name_def)
  let ?rest = "if r = Role_Assistant \<and> List.map_filter call_entry cs \<noteq> []
     then JObj [(''role'', JStr ''assistant''),
       (''content'', text_beside (q_trim_trailing_whitespace q) cs), (''tool_calls'', JArr (List.map_filter call_entry cs))]
     else JObj [(''role'', JStr (role_name r)), (''content'', parts_of guard needs cs)]"
  have rest: "chat_marks ?rest = (if r = Role_Assistant then map Mark_Call (List.map_filter call_id_of cs) else [])"
    using call_entries_marks [of cs] call_entries_empty [of cs] plain [OF assms]
    by (auto simp: chat_marks_def codec_simps obj_get_JObj)
  show ?thesis
  proof (cases "\<exists>t. cs = [Text t]")
    case True
    then show ?thesis using assms by (auto simp: encode_message_def plain Let_def map_filter_Cons map_filter_Nil)
  next
    case False
    then have "encode_message guard r cs q needs = ?rest"
      using assms by (auto simp: encode_message_def Let_def split: list.split content.split role.split)
    then show ?thesis using rest by simp
  qed
qed

lemma encode_messages_marks:
  "concat (map chat_marks (encode_messages guard m q needs)) = message_marks m"
proof -
  have "List.map_filter call_id_of cs = []" if "cs = []" for cs using that by (simp add: map_filter_Nil)
  then show ?thesis
    using calls_without_thinking [of "msg_content m"]
    by (auto simp: encode_messages_def message_marks_def encode_results_marks result_parts_ids
        encode_message_marks Let_def)
qed

lemma assistant_items_marks:
  "concat (map item_marks (assistant_items guard parts cs)) = map Mark_Call (List.map_filter call_id_of cs)"
proof -
  have flush: "concat (map item_marks (flush_parts r ps)) = []" for r ps
    by (simp add: flush_parts_def item_marks_def codec_simps)
  have call: "item_marks (function_call i n a) = [Mark_Call i]" for i n a
    by (simp add: function_call_def item_marks_def codec_simps)
  show ?thesis
    by (induction guard parts cs rule: assistant_items.induct)
      (simp_all add: flush call map_filter_Cons map_filter_Nil)
qed

lemma message_items_marks: "concat (map item_marks (message_items guard m)) = message_marks m"
proof -
  have out: "concat (map item_marks (List.map_filter call_output cs)) = map Mark_Answer (List.map_filter result_id_of cs)" for cs
  proof (induction cs)
    case (Cons c cs)
    then show ?case by (cases c) (simp_all add: map_filter_Cons call_output_def item_marks_def codec_simps)
  qed (simp add: map_filter_Nil)
  have "concat (map item_marks (flush_parts r ps)) = []" for r ps
    by (simp add: flush_parts_def item_marks_def codec_simps)
  then show ?thesis by (simp add: message_items_def message_marks_def out assistant_items_marks)
qed

text \<open>A field of the body is the last one set.\<close>

lemma map_of_set_fields:
  "map_of (set_fields fs b) k = (case map_of (rev fs) k of Some v \<Rightarrow> Some v | None \<Rightarrow> map_of b k)"
proof (induction fs arbitrary: b)
  case (Cons f fs)
  obtain k' v where f: "f = (k', v)" by fastforce
  have "set_fields (f # fs) b = set_fields fs (obj_insert k' v b)" by (simp add: set_fields_def f)
  with Cons [of "obj_insert k' v b"] show ?case
    by (auto simp: f map_of_obj_insert map_add_def split: option.split)
qed (simp add: set_fields_def)

lemma set_fields_get:
  assumes "list_all (\<lambda>f. fst f \<noteq> k) after"
  shows "obj_get k (JObj (set_fields (before @ [(k, v)] @ after) [])) = Some v"
proof -
  have "map_of (rev after) k = None" using assms by (auto simp: map_of_eq_None_iff list_all_iff)
  then show ?thesis by (simp add: obj_get_JObj map_of_set_fields map_add_def)
qed

definition extra_fields :: "quirks \<Rightarrow> (string \<times> json) list" where
  "extra_fields q = (case q_extra_body q of JObj extra \<Rightarrow> extra | _ \<Rightarrow> [])"

lemma reasoning_field_names:
  "k \<notin> {''reasoning_effort'', ''thinking'', ''output_config''} \<Longrightarrow> list_all (\<lambda>f. fst f \<noteq> k) (reasoning_fields q t)"
  by (auto simp: reasoning_fields_def split: option.split thinking.split)

lemma build_body_input:
  assumes "list_all (\<lambda>f. fst f \<noteq> ''input'') (extra_fields q)"
  shows "obj_get ''input'' (build_body guard req q) = Some (JArr (concat (map (message_items guard) (rq_messages req))))"
proof -
  let ?before = "[(''model'', JStr (ms_api_id (rq_model req)))] @
        (case rq_system req of Some s \<Rightarrow> [(''instructions'', JStr s)] | None \<Rightarrow> []) @
        (case rq_max_tokens req of Some n \<Rightarrow> [(''max_output_tokens'', enc_uint n)] | None \<Rightarrow> []) @
        [(''stream'', JBool (q_streaming q)), (''store'', JBool False)]"
  let ?after = "(if q_require_tools q \<and> rq_tools req = [] then [(''tool_choice'', JStr ''auto'')] else []) @
        (if flat_tools req q = [] then [] else [(''tools'', JArr (flat_tools req q))]) @
        (if q_reasoning q = ''reasoning_effort''
         then (case effort_of (rq_thinking req) of
                 Some e \<Rightarrow> [(''reasoning'', JObj [(''effort'', JStr e)])] | None \<Rightarrow> []) else []) @
        extra_fields q"
  have eq: "build_body guard req q =
      JObj (set_fields (?before @ [(''input'', JArr (concat (map (message_items guard) (rq_messages req))))] @ ?after) [])"
    by (simp only: build_body_def extra_fields_def append_assoc)
  have "list_all (\<lambda>f. fst f \<noteq> ''input'') ?after"
    using assms by (simp split: option.split)
  from set_fields_get [OF this, of ?before] show ?thesis unfolding eq .
qed

lemma build_request_messages:
  assumes "list_all (\<lambda>f. fst f \<noteq> ''messages'') (extra_fields q)"
  shows "obj_get ''messages'' (build_request guard req q mode) = Some (JArr (wire_messages guard req q mode))"
proof -
  let ?before = "[(''model'', JStr (ms_api_id (rq_model req)))] @
        (case rq_max_tokens req of Some n \<Rightarrow> [(q_max_tokens_field q, enc_uint n)] | None \<Rightarrow> []) @
        [(''stream'', JBool (q_streaming q))] @
        (if q_streaming q \<and> q_usage_in_stream q
         then [(''stream_options'', JObj [(''include_usage'', JBool True)])] else [])"
  let ?after = "(if q_require_tools q \<and> rq_tools req = [] then [(''tool_choice'', JStr ''auto'')] else []) @
        (if wire_tools req q mode = [] then [] else [(''tools'', JArr (wire_tools req q mode))]) @
        reasoning_fields q (rq_thinking req) @ extra_fields q"
  have eq: "build_request guard req q mode =
      JObj (set_fields (?before @ [(''messages'', JArr (wire_messages guard req q mode))] @ ?after) [])"
    by (simp only: build_request_def extra_fields_def append_assoc)
  have "list_all (\<lambda>f. fst f \<noteq> ''messages'') ?after"
    using assms reasoning_field_names [of "''messages''" q "rq_thinking req"] by simp
  from set_fields_get [OF this, of ?before] show ?thesis unfolding eq .
qed

lemma wire_messages_marks:
  "concat (map chat_marks (wire_messages guard req q mode)) = concat (map message_marks (rq_messages req))"
proof -
  have system: "chat_marks (JObj [(''role'', JStr r), (''content'', JStr s)]) = []" for r s
    by (simp add: chat_marks_def codec_simps obj_get_JObj)
  have "concat (map chat_marks (concat (map (\<lambda>(i, m). encode_messages guard m q (needs i)) (enumerate k ms)))) =
      concat (map message_marks ms)" for needs k ms
    by (induction ms arbitrary: k) (simp_all add: encode_messages_marks)
  then show ?thesis by (cases "rq_system req") (simp_all add: wire_messages_def system)
qed

text \<open>Every encoding of a request keeps its calls and answers.\<close>

lemma request_body_marks:
  assumes "list_all (\<lambda>f. fst f \<noteq> ''messages'' \<and> fst f \<noteq> ''input'') (extra_fields q)"
  shows "body_marks q (request_body guard req q) = Some (concat (map message_marks (rq_messages req)))"
proof -
  have "concat (map item_marks (concat (map (message_items guard) ms))) = concat (map message_marks ms)" for ms
    by (induction ms) (simp_all add: message_items_marks)
  moreover have "list_all (\<lambda>f. fst f \<noteq> ''messages'') (extra_fields q)" "list_all (\<lambda>f. fst f \<noteq> ''input'') (extra_fields q)"
    using assms by (auto simp: list_all_iff)
  ultimately show ?thesis
    by (simp add: body_marks_def request_body_def build_body_input build_request_messages arr_of_def
        wire_messages_marks)
qed

subsection \<open>An attempt that streams and one that does not\<close>

lemma attempt_streams:
  assumes "q_api q \<noteq> ''responses''" and "q_streaming q"
    and "map parse (List.map_filter payload_of ls) = map Inr vs" and "''[DONE]'' \<notin> set (List.map_filter payload_of ls)"
    and "drop_eol end_line = ''data: [DONE]''"
  shows "attempt_response parse text_of q m 200 body (replicate (Suc (length ls)) False) (map Inr (ls @ [end_line])) =
     Done (Inr (decode_frames text_of q m vs stream_init))"
  using assms(1,2) decode_stream_frames [OF assms(3), of text_of q m stream_init]
  by (simp only: attempt_response_def sse_iter_lines [OF assms(4,5)]) simp

lemma attempt_synthesizes:
  assumes "q_api q \<noteq> ''responses''" and "\<not> q_streaming q" and "parse b = Inr v"
  shows "attempt_response parse text_of q m 200 (Inr b) cs ls = Done (map_sum id (map Inr) (synthesize_chunks v q m))"
  using assms by (simp add: attempt_response_def)

lemma streaming_quirk_unused: "synthesize_chunks v (q\<lparr>q_streaming := b\<rparr>) m = synthesize_chunks v q m"
proof -
  have "thinking_shown (q\<lparr>q_streaming := b\<rparr>) = thinking_shown q" "decode_stop r h (q\<lparr>q_streaming := b\<rparr>) = decode_stop r h q" for r h
    by (auto simp: thinking_shown_def decode_stop_def)
  then show ?thesis by (simp only: synthesize_chunks_def)
qed

lemma attempts_agree:
  assumes "\<forall>c \<in> set (said ps). chat_chunk c" and "announced {} (said ps)" and "r \<noteq> []" and "r \<noteq> ''null''"
    and "q_api q \<noteq> ''responses''"
    and "map parse (List.map_filter payload_of ls) = map Inr (map frame_of ps @ [finish_frame r, usage_frame u])"
    and "''[DONE]'' \<notin> set (List.map_filter payload_of ls)" and "drop_eol end_line = ''data: [DONE]''"
    and "parse b = Inr (response_of (said ps) r u)"
  shows "\<exists>xs ys.
    attempt_response parse text_of (q\<lparr>q_streaming := True\<rparr>) m 200 body (replicate (Suc (length ls)) False)
      (map Inr (ls @ [end_line])) = Done (Inr xs) \<and>
    attempt_response parse text_of (q\<lparr>q_streaming := False\<rparr>) m 200 (Inr b) flags rest = Done (Inr ys) \<and>
    snd (assemble parses i xs) = snd (assemble parses i ys)"
proof -
  let ?q = "q\<lparr>q_streaming := True\<rparr>" and ?q' = "q\<lparr>q_streaming := False\<rparr>"
  have api: "q_api ?q \<noteq> ''responses''" "q_api ?q' \<noteq> ''responses''" "q_streaming ?q" "\<not> q_streaming ?q'"
    using assms(5) by simp_all
  have same: "synthesize_chunks v ?q' m = synthesize_chunks v ?q m" for v
    by (simp only: streaming_quirk_unused)
  from streamed_is_response [OF assms(1-4), of u ?q m parses i text_of] obtain ds where
    "synthesize_chunks (response_of (said ps) r u) ?q m = Inr ds"
    "snd (assemble parses i (decode_frames text_of ?q m (map frame_of ps @ [finish_frame r, usage_frame u]) stream_init)) =
     snd (assemble parses i (map Inr ds))"
    by blast
  then show ?thesis
    using attempt_streams [OF api(1,3) assms(6-8), of text_of m body]
      attempt_synthesizes [of ?q' parse b "response_of (said ps) r u" text_of m flags rest] api(2,4) assms(9)
    by (simp add: same)
qed

subsection \<open>A long error body\<close>

text \<open>A continuation byte at offset 4000 of the body, and nothing is classified, retried or reported.\<close>

lemma long_error_panics:
  assumes "st \<noteq> 200" and "4000 < length b" and "128 \<le> (of_char (b ! 4000) :: nat)" and "(of_char (b ! 4000) :: nat) < 192"
  shows "attempt_response parse text_of q m st (Inr b) cs ls = Panicked"
  using assms by (simp add: attempt_response_def char_boundary_def)

lemma attempt_error:
  assumes "st \<noteq> 200" and "length b \<le> 4000 \<or> char_boundary b 4000"
  shows "attempt_response parse text_of q m st (Inr b) cs ls =
    Done (Inl (if is_context_overflow st b then ContextOverflow else Http st b))"
  using assms by (auto simp: attempt_response_def Let_def)

text \<open>A transcript whose calls are answered, and whose answers are in tool messages, has answered marks.\<close>

lemma marks_answered:
  assumes "set (calls_in msgs) \<subseteq> set (answered msgs)"
    and "\<forall>m \<in> set msgs. msg_role m \<noteq> Role_Tool \<longrightarrow> List.map_filter result_id_of (msg_content m) = []"
    and "Mark_Call i \<in> set (concat (map message_marks msgs))"
  shows "Mark_Answer i \<in> set (concat (map message_marks msgs))"
proof -
  have "i \<in> set (calls_in msgs)"
    using assms(3) by (fastforce simp: message_marks_def calls_in_def map_filter_set split: if_splits)
  then have "i \<in> set (answered msgs)" using assms(1) by blast
  then obtain m where m: "m \<in> set msgs" "i \<in> set (List.map_filter result_id_of (msg_content m))"
    by (fastforce simp: answered_def map_filter_set)
  then have "msg_role m = Role_Tool" using assms(2) by fastforce
  with m show ?thesis by (fastforce simp: message_marks_def)
qed

end
