(* ===== verification/Provider_Usage.thy ===== *)
theory Provider_Usage
  imports Provider_Responses Store_System
begin

text \<open>
  Token counts from the wire to the planner. The decoders report as \<open>t_input\<close> what a prompt cost
  beyond its cached part, the store keeps that number, and the planner reads it back as the size of
  the prompt.
\<close>

subsection \<open>The partition of the prompt\<close>

definition prompt_tokens :: "tokens \<Rightarrow> nat" where
  "prompt_tokens t = t_input t + t_cache_read t + t_cache_write t"

definition usage_json :: "nat \<Rightarrow> nat \<Rightarrow> nat \<Rightarrow> nat \<Rightarrow> json" where
  "usage_json prompt cread cwrite output =
     JObj [(''prompt_tokens'', enc_uint prompt), (''completion_tokens'', enc_uint output),
       (''prompt_tokens_details'', JObj [(''cached_tokens'', enc_uint cread),
          (''cache_creation_input_tokens'', enc_uint cwrite)])]"

lemma count_u32: "in_u32 n \<Longrightarrow> count_of (Some (enc_uint n)) = n"
  by (rule count_of_index)

lemma add_u32_exact: "in_u32 (a + b) \<Longrightarrow> add_u32 a b = a + b"
  by (simp add: add_u32_def cast_u32_id)

lemma decode_usage_partition:
  assumes "in_u32 prompt" and "in_u32 output" and "cread + cwrite \<le> prompt"
  shows "decode_usage (usage_json prompt cread cwrite output) =
     \<lparr>t_input = prompt - (cread + cwrite), t_output = output, t_cache_read = cread,
      t_cache_write = cwrite, t_reasoning = 0\<rparr>"
proof -
  have "in_u32 cread" "in_u32 cwrite" "in_u32 (cread + cwrite)"
    using assms by (simp_all add: in_u32_def)
  then show ?thesis
    using assms
    by (simp add: decode_usage_def usage_json_def obj_get_JObj codec_simps or_else_def count_u32
        add_u32_exact count_of_def [of None] cast_u32_def Let_def)
qed

text \<open>Two counts whose sum does not fit are added modulo \<open>2 ^ 32\<close>, so the partition is no partition.\<close>

lemma decode_usage_wraps:
  "t_input (decode_usage (usage_json 100 4294967295 1 0)) = 100"
  by (simp add: decode_usage_def usage_json_def obj_get_JObj codec_simps or_else_def count_of_def u64_of_def
      dec_uint_def enc_uint_def add_u32_def cast_u32_def u32_max_def u64_max_def Let_def)

subsection \<open>Projected rows are not newer than the head\<close>

fun row_seq :: "row \<Rightarrow> nat" where
  "row_seq (Row_Message _ n _ _ _) = n"
| "row_seq (Row_Usage u) = us_seq u"
| "row_seq (Row_Compacted _ n _ _ _ _) = n"

lemma project_seq: "r \<in> set (project sid ts e) \<Longrightarrow> seq e = Some (row_seq r)"
  by (cases e) (auto simp: project_def usage_row_of_def)

lemma replay_rows_seq:
  assumes "row_ok r" and "x \<in> set (replay_rows new_id r)"
  shows "row_seq x = ev_seq r"
proof -
  obtain e where e: "event_in_range e" "seq e = Some (ev_seq r)" "enc_event e = Some (ev_payload r)"
    using assms(1) by (auto simp: row_ok_def)
  then have "dec_event new_id (ev_payload r) = Some e" by (simp add: dec_enc_event)
  with assms(2) have "x \<in> set (project (ev_session r) (ev_ts r) e)" by (simp add: replay_rows_def)
  from project_seq [OF this] e(2) show ?thesis by simp
qed

lemma fold_rows_bound:
  assumes "\<forall>x \<in> set rows. row_seq x \<le> h" and "\<forall>m \<in> set t. m_seq m \<le> h" and "\<forall>u \<in> set v. us_seq u \<le> h"
  shows "(\<forall>m \<in> set (fold row_messages rows t). m_seq m \<le> h) \<and> (\<forall>u \<in> set (fold row_usages rows v). us_seq u \<le> h)"
  using assms
proof (induction rows arbitrary: t v)
  case (Cons r rows)
  have ms: "\<forall>m \<in> set (row_messages r t). m_seq m \<le> h"
  proof (cases r)
    case (Row_Message a b c e f)
    then show ?thesis using Cons.prems by (simp add: sql_replace_def)
  next
    case (Row_Compacted a b c e f g)
    then show ?thesis using Cons.prems by (simp add: sql_replace_def sql_delete_def)
  qed (use Cons.prems in simp)
  have us: "\<forall>u \<in> set (row_usages r v). us_seq u \<le> h"
    using Cons.prems by (cases r) (simp_all add: sql_replace_def)
  have "\<forall>x \<in> set rows. row_seq x \<le> h" using Cons.prems(1) by simp
  from Cons.IH [OF this ms us] show ?case by (simp only: fold_simps comp_apply list.set fold.simps)
qed simp

lemma projection_bound:
  assumes "db_ok d" and "head_of sid d = Some h"
  shows "(\<forall>m \<in> set (messages_of sid d). m_seq m \<le> h) \<and> (\<forall>u \<in> set (usages_of sid d). us_seq u \<le> h)"
proof -
  obtain r where r: "session_of sid d = Some r" "s_head r = h" using assms(2) by (auto simp: head_of_def)
  have "log_ok d sid" and proj: "proj_ok [] d sid" and rows: "\<forall>x \<in> set (events d). row_ok x"
    using assms(1) by (simp_all add: db_ok_def)
  then have "map ev_seq (events_of sid d) = seqs_of_session r" using r(1) by (simp add: log_ok_def)
  then have "\<forall>e \<in> set (events_of sid d). ev_seq e \<le> h"
    using seqs_of_session_max r(2) by (metis in_set_conv_nth length_map nth_map nth_mem)
  moreover have "\<forall>e \<in> set (events_of sid d). row_ok e"
    using rows by (auto simp: events_of_def sql_select_def)
  ultimately have "\<forall>x \<in> set (replay_of [] (events_of sid d)). row_seq x \<le> h"
    using replay_rows_seq by (fastforce simp: replay_of_def)
  from fold_rows_bound [OF this, of "[]" "[]"] proj show ?thesis by (simp add: proj_ok_def)
qed

subsection \<open>What the planner sees\<close>

lemma sort_key_snoc:
  assumes "\<forall>x \<in> set xs. k x \<le> k r"
  shows "sort_key k (xs @ [r]) = sort_key k xs @ [r]"
proof -
  have "k x \<le> k r \<Longrightarrow> insort_key k x (ys @ [r]) = insort_key k x ys @ [r]" for x ys
    by (induction ys) auto
  with assms show ?thesis by (induction xs) auto
qed

lemma estimate_after_usage:
  assumes "db_ok (st_db st)" and "append text_of now sid (UsageRecorded n u) st = (Inr k, st')"
  shows "context_estimate sid (st_db st') = int (t_input (ur_tokens u))"
proof -
  from assms(2) obtain head p where h: "head_of sid (st_db st) = Some head" "k = head + 1"
    "st_db st' = appended text_of now sid (UsageRecorded k u) p k (st_db st)"
    by (auto simp: append_Inr_iff)
  note bound = projection_bound [OF assms(1) h(1)]
  let ?r = "usage_row_of sid now k u"
  have key: "usage_key ?r \<notin> usage_key ` set (usages_of sid (st_db st))"
    using bound h(2) by (fastforce simp: usage_key_def usage_row_of_def)
  have us: "usages_of sid (st_db st') = usages_of sid (st_db st) @ [?r]"
    by (simp add: h(3) appended_usages_of project_def sql_replace_new [OF key])
  have ms: "messages_of sid (st_db st') = messages_of sid (st_db st)"
    by (simp add: h(3) appended_messages_of project_def)
  have seq: "us_seq ?r = k" "us_tokens ?r = ur_tokens u" by (simp_all add: usage_row_of_def)
  have "sort_key us_seq (usages_of sid (st_db st')) = sort_key us_seq (usages_of sid (st_db st)) @ [?r]"
    unfolding us using bound h(2) by (intro sort_key_snoc ballI) (metis seq(1) trans_le_add1)
  then have "sql_last_by us_seq (usages_of sid (st_db st')) = Some ?r"
    by (simp add: sql_last_by_def)
  moreover have "filter (\<lambda>r. k < m_seq r) (sort_key m_seq (messages_of sid (st_db st'))) = []"
    using bound h(2) by (fastforce simp: ms filter_empty_conv)
  ultimately show ?thesis by (simp add: context_estimate_def seq)
qed

lemma no_compaction_below:
  assumes "\<And>s. get_model_spec_for_session (mint 0) sid st = Some s \<Longrightarrow>
    context_estimate sid (st_db st) < compact_threshold (ms_ctx_window s)"
  shows "rp_compact (plan_request mint b64 parses sid st) = None"
  using assms
  by (auto simp: plan_request_def Let_def split: option.split prod.split)

subsection \<open>What is decoded fits its type\<close>

definition chunk_in_range :: "chunk \<Rightarrow> bool" where
  "chunk_in_range c = (case c of
     Chunk_Text i _ \<Rightarrow> in_u32 i | Chunk_Thinking i _ \<Rightarrow> in_u32 i | Chunk_ToolCall i _ _ \<Rightarrow> in_u32 i
   | Chunk_ToolArgs i _ \<Rightarrow> in_u32 i | Chunk_Usage u \<Rightarrow> tokens_in_range (u_tokens u) | Chunk_Stop _ \<Rightarrow> True)"

lemma cast_u32_range [simp]: "in_u32 (cast_u32 n)"
proof -
  have "int n mod (u32_max + 1) < u32_max + 1" "0 \<le> int n mod (u32_max + 1)"
    by (simp_all add: u32_max_def)
  then show ?thesis by (simp add: cast_u32_def in_u32_def)
qed

lemma in_u32_minus [simp]: "in_u32 a \<Longrightarrow> in_u32 (a - b)"
  by (simp add: in_u32_def)

lemma in_u32_0 [simp]: "in_u32 0"
  by (simp add: in_u32_def u32_max_def)

lemma count_of_range [simp]: "in_u32 (count_of x)"
  by (simp add: count_of_def)

lemma usages_in_range: "tokens_in_range (decode_usage u)" "tokens_in_range (responses_usage u)"
  by (simp_all add: decode_usage_def responses_usage_def tokens_in_range_def Let_def)

lemma chunk_in_range_simps [simp]:
  "chunk_in_range (Chunk_Text i s) = in_u32 i" "chunk_in_range (Chunk_Thinking i s) = in_u32 i"
  "chunk_in_range (Chunk_ToolCall i k n) = in_u32 i" "chunk_in_range (Chunk_ToolArgs i a) = in_u32 i"
  "chunk_in_range (Chunk_Usage u) = tokens_in_range (u_tokens u)" "chunk_in_range (Chunk_Stop r)"
  by (simp_all add: chunk_in_range_def)

lemma list_all_concat: "list_all P (concat xss) \<longleftrightarrow> list_all (list_all P) xss"
  by (induction xss) simp_all

lemma decode_tool_calls_range: "list_all chunk_in_range (fst (decode_tool_calls tcs ts))"
proof (induction tcs arbitrary: ts)
  case (Cons tc tcs)
  have "list_all chunk_in_range (fst (decode_tool_call tc ts))"
    by (simp add: decode_tool_call_def Let_def chunk_in_range_def split: option.split)
  with Cons show ?case by (simp add: split_def Let_def)
qed simp

lemma shown_range:
  "list_all chunk_in_range (text_shown d)" "list_all chunk_in_range (thinking_shown q d)"
  "list_all chunk_in_range (usage_chunks m v)" "list_all chunk_in_range (responses_usage_chunks m x)"
  by (simp_all add: text_shown_def thinking_shown_def usage_chunks_def responses_usage_chunks_def
      chunk_in_range_def usages_in_range split: option.split)

lemma decode_choice_range: "list_all chunk_in_range (fst (decode_choice q choice st))"
  by (simp add: decode_choice_def Let_def split_def shown_range decode_tool_calls_range chunk_in_range_def
      split: option.split)

lemma decode_value_range:
  "case fst (decode_value text_of q m v st) of Inl _ \<Rightarrow> True | Inr cs \<Rightarrow> list_all chunk_in_range cs"
  by (simp add: decode_value_def split_def Let_def shown_range decode_choice_range split: option.split list.split)

lemma decode_event_range:
  "case fst (decode_event text_of m v has) of Inl _ \<Rightarrow> True | Inr cs \<Rightarrow> list_all chunk_in_range cs"
  by (simp add: decode_event_def Let_def shown_range chunk_in_range_def output_index_def split: option.split)

lemma decode_stream_range:
  "Inr c \<in> set (decode_stream dec ls st) \<Longrightarrow>
   (\<And>p st. case fst (dec p st) of Inl _ \<Rightarrow> True | Inr cs \<Rightarrow> list_all chunk_in_range cs) \<Longrightarrow> chunk_in_range c"
proof (induction dec ls st rule: decode_stream.induct)
  case (3 dec p ls st)
  obtain r st' where d: "dec p st = (r, st')" by fastforce
  show ?case
    using "3.prems" "3.IH" [OF d [symmetric] refl] "3.prems"(2) [of p st] d
    by (cases r) (auto simp: list_all_iff)
qed auto

lemma synthesize_calls_range: "list_all chunk_in_range (synthesize_calls i tcs)"
  by (induction i tcs rule: synthesize_calls.induct) (simp_all add: chunk_in_range_def)

lemma synthesize_range:
  "synthesize_chunks v q m = Inr cs \<Longrightarrow> list_all chunk_in_range cs"
  "synthesize_response_chunks v m = Inr cs \<Longrightarrow> list_all chunk_in_range cs"
proof -
  show "synthesize_chunks v q m = Inr cs \<Longrightarrow> list_all chunk_in_range cs"
    by (auto simp: synthesize_chunks_def Let_def shown_range synthesize_calls_range chunk_in_range_def
        split: option.splits list.splits)
  have part: "list_all chunk_in_range (output_part p)" for p
    by (simp add: output_part_def split: option.split)
  then have "list_all (\<lambda>p. list_all chunk_in_range (output_part p)) ps" for ps
    by (simp add: list_all_iff)
  then have "list_all chunk_in_range (output_item i x)" for i x
    by (cases "Option.bind (obj_get ''content'' x) arr_of"; cases "str_at ''arguments'' x")
      (simp_all add: output_item_def Let_def list_all_concat list.pred_map comp_def)
  then have "list_all chunk_in_range (concat (map (\<lambda>(i, x). output_item i x) xs))" for xs
    by (simp add: list_all_concat list.pred_map comp_def split_def) (simp add: list_all_iff)
  then show "synthesize_response_chunks v m = Inr cs \<Longrightarrow> list_all chunk_in_range cs"
    by (auto simp: synthesize_response_chunks_def Let_def shown_range split: option.splits)
qed

lemma map_sum_InrD: "map_sum f (map g) r = Inr xs \<Longrightarrow> \<exists>cs. r = Inr cs \<and> xs = map g cs"
  by (cases r) auto

lemma attempt_range:
  assumes "attempt_response parse text_of q m st body cs ls = Done (Inr chunks)" and "Inr c \<in> set chunks"
  shows "chunk_in_range c"
proof -
  have dec: "case fst (decode_delta parse text_of q m p s) of Inl _ \<Rightarrow> True | Inr cs \<Rightarrow> list_all chunk_in_range cs" for p s
    using decode_value_range [of text_of q m _ s] by (cases "parse p") (simp_all add: decode_delta_def)
  have ev: "case fst (decode_event_bytes parse text_of m p s) of Inl _ \<Rightarrow> True | Inr cs \<Rightarrow> list_all chunk_in_range cs" for p s
    using decode_event_range [of text_of m _ s] by (cases "parse p") (simp_all add: decode_event_bytes_def)
  show ?thesis
    using assms decode_stream_range [OF _ dec, of c] decode_stream_range [OF _ ev, of c] synthesize_range
    by (auto simp: attempt_response_def Let_def list_all_iff split: if_splits sum.splits dest!: map_sum_InrD)
qed

lemma usage_event_range:
  assumes "tokens_in_range (u_tokens u)" and "price_in_range (ms_price (pr_model p))"
  shows "event_in_range (usage_event p u kind est)"
  using assms by (simp add: usage_event_def usage_in_range_def cost_micros_def wrap_i64_range Let_def in_u64_def u64_max_def)

end
