(* ===== verification/Provider_Examples.thy ===== *)
theory Provider_Examples
  imports Provider_Usage Store_Examples
begin

text \<open>Concrete answers, requests and images on which the theorems about the provider are applied.\<close>

text \<open>Text and two calls that are announced in one frame, the first with the start of its arguments.\<close>

definition ex_piece1 :: answer_piece where
  "ex_piece1 = \<lparr>ap_text = Some ''hi'', ap_think = None, ap_calls = []\<rparr>"

definition ex_piece2 :: answer_piece where
  "ex_piece2 = \<lparr>ap_text = Some ''!'', ap_think = None, ap_calls =
     [\<lparr>cp_index = 0, cp_head = Some (''c'', ''t''), cp_args = ''{''\<rparr>,
      \<lparr>cp_index = 1, cp_head = Some (''d'', ''t''), cp_args = []\<rparr>]\<rparr>"

definition ex_piece3 :: answer_piece where
  "ex_piece3 = \<lparr>ap_text = None, ap_think = None, ap_calls =
     [\<lparr>cp_index = 1, cp_head = None, cp_args = ''{}''\<rparr>, \<lparr>cp_index = 0, cp_head = None, cp_args = ''}''\<rparr>]\<rparr>"

definition ex_pieces :: "answer_piece list" where
  "ex_pieces = [ex_piece1, ex_piece2, ex_piece3]"

definition ex_count :: json where
  "ex_count = usage_json 10 4 0 2"

definition ex_parses :: "string \<Rightarrow> string + json" where
  "ex_parses s =
     (if s = ''1'' then Inr (frame_of ex_piece1)
      else if s = ''2'' then Inr (frame_of ex_piece2)
      else if s = ''3'' then Inr (frame_of ex_piece3)
      else if s = ''4'' then Inr (finish_frame ''tool_calls'')
      else if s = ''5'' then Inr (usage_frame ex_count)
      else if s = ''6'' then Inr (response_of (said ex_pieces) ''tool_calls'' ex_count)
      else Inl ''bad'')"

definition ex_lines :: "string list" where
  "ex_lines = ['': ping'', ''data: 1'', [], ''data: 2'', ''data: 3'', ''data: 4'', ''data: 5'']"

definition ex_plan_request :: request where
  "ex_plan_request = \<lparr>rq_model = ex_spec, rq_system = None,
     rq_messages = rp_messages (plan_request (\<lambda>_. ''x'') id (\<lambda>_. True) ''s'' ex4), rq_tools = [],
     rq_thinking = Off, rq_max_tokens = None, rq_cache = [], rq_session = None\<rparr>"

definition ex_png :: "(string \<times> string \<times> string) list" where
  "ex_png = [(''IHDR'', ''x'', ''crc1''), (''IDAT'', ''yy'', ''crc2''), (''tEXt'', ''z'', ''crc3'')]"

definition ex_cached_usage :: usage_record where
  "ex_cached_usage = ex_usage\<lparr>ur_tokens := decode_usage (usage_json 1000 990 0 5)\<rparr>"

definition ex_cached :: store where
  "ex_cached = snd (append ex_text 0 ''s'' (UsageRecorded 0 ex_cached_usage) ex4)"

end
