(* ===== verification/Tools_Text.thy ===== *)
theory Tools_Text
  imports Prelude
begin

text \<open>
  \<^verbatim>\<open>plugins/kn9t-tools/src/encoding.rs\<close>: the encodings of a file, with the conversions of the standard
  library it rests on. A byte is a number below 256, a UTF-16 unit one below 65536, and a character a
  Unicode scalar value; a decoded text is the list of its characters. One locale holds what a codec
  owes: decoding what was written, and writing what was decoded.
\<close>

subsection \<open>Codecs\<close>

definition scalar :: "nat \<Rightarrow> bool" where
  "scalar c \<longleftrightarrow> c < 0xD800 \<or> 0xE000 \<le> c \<and> c < 0x110000"

text \<open>
  A step reads one character, or nothing, and says how many units it has used; a text is read to its
  end or to the first malformed place, and the lossy reader puts U+FFFD for each of these.
\<close>

function read_strict :: "('u list \<Rightarrow> nat option \<times> nat) \<Rightarrow> 'u list \<Rightarrow> nat list option" where
  "read_strict step [] = Some []"
| "read_strict step (u # us) =
     (case step (u # us) of
        (None, n) \<Rightarrow> None
      | (Some c, n) \<Rightarrow> map_option ((#) c) (read_strict step (drop (max 1 n) (u # us))))"
  by pat_completeness auto
termination
  by (relation "measure (\<lambda>(_, us). length us)") (auto simp: max_def)

function read_lossy :: "('u list \<Rightarrow> nat option \<times> nat) \<Rightarrow> 'u list \<Rightarrow> nat list" where
  "read_lossy step [] = []"
| "read_lossy step (u # us) =
     (case step (u # us) of
        (c, n) \<Rightarrow> (case c of Some x \<Rightarrow> x | None \<Rightarrow> 0xFFFD) # read_lossy step (drop (max 1 n) (u # us)))"
  by pat_completeness auto
termination
  by (relation "measure (\<lambda>(_, us). length us)") (auto simp: max_def)

declare read_strict.simps(2) [simp del] read_lossy.simps(2) [simp del]

lemma read_strict_step:
  "step us = (Some c, n) \<Longrightarrow> us \<noteq> [] \<Longrightarrow> 0 < n \<Longrightarrow>
   read_strict step us = map_option ((#) c) (read_strict step (drop n us))"
  by (cases us) (simp_all add: read_strict.simps(2) max_def)

lemma read_lossy_step:
  "step us = (Some c, n) \<Longrightarrow> us \<noteq> [] \<Longrightarrow> 0 < n \<Longrightarrow>
   read_lossy step us = c # read_lossy step (drop n us)"
  by (cases us) (simp_all add: read_lossy.simps(2) max_def)

lemma read_strict_Some_Cons:
  "read_strict step (u # us) = Some cs \<Longrightarrow>
   \<exists>c n ds. step (u # us) = (Some c, n) \<and> cs = c # ds \<and> read_strict step (drop (max 1 n) (u # us)) = Some ds"
  by (auto simp: read_strict.simps(2) split: prod.splits option.splits)

lemma read_lossy_strict: "read_strict step us = Some cs \<Longrightarrow> read_lossy step us = cs"
proof (induction step us arbitrary: cs rule: read_lossy.induct)
  case (2 step u us)
  from read_strict_Some_Cons [OF 2(2)] obtain c n ds
    where st: "step (u # us) = (Some c, n)" and cs: "cs = c # ds"
      and rest: "read_strict step (drop (max 1 n) (u # us)) = Some ds" by blast
  have "read_lossy step (drop (max 1 n) (u # us)) = ds"
    by (rule 2(1)) (use st rest in simp_all)
  with st cs show ?case by (simp add: read_lossy.simps(2))
qed simp

locale char_codec =
  fixes put :: "nat \<Rightarrow> 'u list" and step :: "'u list \<Rightarrow> nat option \<times> nat"
    and valid :: "nat \<Rightarrow> bool" and unit_ok :: "'u \<Rightarrow> bool"
  assumes put_nonempty: "valid c \<Longrightarrow> put c \<noteq> []"
    and step_put: "valid c \<Longrightarrow> step (put c @ us) = (Some c, length (put c))"
    and step_valid: "list_all unit_ok us \<Longrightarrow> step us = (Some c, n) \<Longrightarrow> us \<noteq> [] \<Longrightarrow>
      valid c \<and> take n us = put c \<and> n = length (put c)"
begin

lemma read_strict_put:
  "valid c \<Longrightarrow> read_strict step (put c @ us) = map_option ((#) c) (read_strict step us)"
  using read_strict_step [of step "put c @ us" c] step_put put_nonempty by simp

lemma read_lossy_put: "valid c \<Longrightarrow> read_lossy step (put c @ us) = c # read_lossy step us"
  using read_lossy_step [of step "put c @ us" c] step_put put_nonempty by simp

lemma read_strict_written: "list_all valid cs \<Longrightarrow> read_strict step (concat (map put cs)) = Some cs"
  by (induction cs) (simp_all add: read_strict_put)

lemma read_lossy_written: "list_all valid cs \<Longrightarrow> read_lossy step (concat (map put cs)) = cs"
  by (rule read_lossy_strict) (rule read_strict_written)

lemma written_read_strict:
  "read_strict step us = Some cs \<Longrightarrow> list_all unit_ok us \<Longrightarrow>
   list_all valid cs \<and> concat (map put cs) = us"
proof (induction us arbitrary: cs rule: measure_induct_rule [where f = length])
  case (less us)
  show ?case
  proof (cases us)
    case Nil
    with less.prems show ?thesis by simp
  next
    case (Cons u vs)
    from read_strict_Some_Cons [of step u vs cs] less.prems(1) [unfolded Cons] obtain c n ds
      where st: "step us = (Some c, n)" and cs: "cs = c # ds"
        and rest: "read_strict step (drop (max 1 n) us) = Some ds" unfolding Cons by blast
    have "us \<noteq> []" using Cons by simp
    from step_valid [OF less.prems(2) st this]
    have v: "valid c" "take n us = put c" "n = length (put c)" by blast+
    then have "0 < n" using put_nonempty [OF v(1)] by simp
    then have n: "max 1 n = n" by simp
    have "list_all unit_ok (drop n us)" using less.prems(2)
      by (metis append_take_drop_id list_all_append)
    moreover have "read_strict step (drop n us) = Some ds" using rest n by simp
    moreover have "length (drop n us) < length us" using Cons \<open>0 < n\<close> by simp
    ultimately have "list_all valid ds \<and> concat (map put ds) = drop n us" using less.IH by blast
    then show ?thesis using v(1) v(2) [symmetric] cs by simp
  qed
qed

end


subsection \<open>UTF-8\<close>

definition is_byte :: "nat \<Rightarrow> bool" where
  "is_byte b \<longleftrightarrow> b < 256"

definition utf8_put :: "nat \<Rightarrow> nat list" where
  "utf8_put c =
     (if c < 0x80 then [c]
      else if c < 0x800 then [0xC0 + c div 64, 0x80 + c mod 64]
      else if c < 0x10000 then [0xE0 + c div 64 div 64, 0x80 + c div 64 mod 64, 0x80 + c mod 64]
      else [0xF0 + c div 64 div 64 div 64, 0x80 + c div 64 div 64 mod 64, 0x80 + c div 64 mod 64, 0x80 + c mod 64])"

text \<open>The bytes a decoder looks at, zero past the end; zero never continues a character.\<close>

definition byte_at :: "nat list \<Rightarrow> nat \<Rightarrow> nat" where
  "byte_at bs i = (if i < length bs then bs ! i else 0)"

definition cont :: "nat \<Rightarrow> bool" where
  "cont b \<longleftrightarrow> 0x80 \<le> b \<and> b < 0xC0"

text \<open>The second byte is what excludes overlong forms, surrogates and values past U+10FFFF.\<close>

definition second_ok :: "nat \<Rightarrow> nat \<Rightarrow> bool" where
  "second_ok b b2 \<longleftrightarrow>
     cont b2 \<and> (b = 0xE0 \<longrightarrow> 0xA0 \<le> b2) \<and> (b = 0xED \<longrightarrow> b2 < 0xA0) \<and>
     (b = 0xF0 \<longrightarrow> 0x90 \<le> b2) \<and> (b = 0xF4 \<longrightarrow> b2 < 0x90)"

definition utf8_step :: "nat list \<Rightarrow> nat option \<times> nat" where
  "utf8_step bs =
     (let b = byte_at bs 0; b2 = byte_at bs 1; b3 = byte_at bs 2; b4 = byte_at bs 3 in
      if b < 0x80 then (Some b, 1)
      else if 0xC2 \<le> b \<and> b < 0xE0 then
        (if cont b2 then (Some ((b - 0xC0) * 64 + (b2 - 0x80)), 2) else (None, 1))
      else if 0xE0 \<le> b \<and> b < 0xF0 then
        (if \<not> second_ok b b2 then (None, 1)
         else if \<not> cont b3 then (None, 2)
         else (Some (((b - 0xE0) * 64 + (b2 - 0x80)) * 64 + (b3 - 0x80)), 3))
      else if 0xF0 \<le> b \<and> b < 0xF5 then
        (if \<not> second_ok b b2 then (None, 1)
         else if \<not> cont b3 then (None, 2)
         else if \<not> cont b4 then (None, 3)
         else (Some ((((b - 0xF0) * 64 + (b2 - 0x80)) * 64 + (b3 - 0x80)) * 64 + (b4 - 0x80)), 4))
      else (None, 1))"

lemma byte_at_simps [simp]:
  "byte_at [] i = 0" "byte_at (b # bs) 0 = b" "byte_at (b # bs) (Suc i) = byte_at bs i"
  "byte_at (b # bs) (numeral k) = byte_at bs (pred_numeral k)"
  by (simp_all add: byte_at_def numeral_eq_Suc)

lemma horner_64 [simp]:
  fixes x r :: nat
  shows "r < 64 \<Longrightarrow> (x * 64 + r) div 64 = x" "r < 64 \<Longrightarrow> (x * 64 + r) mod 64 = r"
  by simp_all

lemma digits_64: "\<exists>x r. (c::nat) = x * 64 + r \<and> r < 64"
  by (rule exI [of _ "c div 64"], rule exI [of _ "c mod 64"]) simp

lemma utf8_step_put:
  assumes "scalar c"
  shows "utf8_step (utf8_put c @ us) = (Some c, length (utf8_put c))"
proof -
  define x where "x = c div 64"
  define y where "y = x div 64"
  define z where "z = y div 64"
  define r where "r = c mod 64"
  define s where "s = x mod 64"
  define t where "t = y mod 64"
  note d = x_def [symmetric] y_def [symmetric] z_def [symmetric] r_def [symmetric] s_def [symmetric] t_def [symmetric]
  have c: "c = x * 64 + r" "r < 64" and x: "x = y * 64 + s" "s < 64" and y: "y = z * 64 + t" "t < 64"
    by (simp_all add: x_def y_def z_def r_def s_def t_def)
  consider "c < 0x80" | "0x80 \<le> c" "c < 0x800" | "0x800 \<le> c" "c < 0x10000" | "0x10000 \<le> c"
    by linarith
  then show ?thesis
  proof cases
    case 1
    then show ?thesis by (simp add: utf8_put_def utf8_step_def Let_def)
  next
    case 2
    then have "utf8_put c = [0xC0 + x, 0x80 + r]" by (simp add: utf8_put_def d)
    moreover have "2 \<le> x" "x < 32" using c 2 by linarith+
    ultimately show ?thesis using c by (simp add: utf8_step_def Let_def cont_def)
  next
    case 3
    then have "utf8_put c = [0xE0 + y, 0x80 + s, 0x80 + r]" by (simp add: utf8_put_def d)
    moreover have "y < 16" using c x 3 by linarith
    moreover have "second_ok (0xE0 + y) (0x80 + s)"
      using c x 3 assms by (auto simp: second_ok_def cont_def scalar_def)
    ultimately show ?thesis using c x by (simp add: utf8_step_def Let_def cont_def)
  next
    case 4
    then have "utf8_put c = [0xF0 + z, 0x80 + t, 0x80 + s, 0x80 + r]"
      by (simp add: utf8_put_def d)
    moreover have "z < 5" using c x y assms by (simp add: scalar_def) linarith
    moreover have "second_ok (0xF0 + z) (0x80 + t)"
      using c x y 4 assms by (auto simp: second_ok_def cont_def scalar_def)
    ultimately show ?thesis using c x y by (simp add: utf8_step_def Let_def cont_def)
  qed
qed

lemma take_byte_at: "n \<le> length bs \<Longrightarrow> take n bs = map (byte_at bs) [0..<n]"
  by (rule nth_equalityI) (auto simp: byte_at_def)

lemma byte_at_pos: "0 < byte_at bs i \<Longrightarrow> Suc i \<le> length bs"
  by (auto simp: byte_at_def split: if_splits)

lemma cont_pos: "cont (byte_at bs i) \<Longrightarrow> Suc i \<le> length bs"
  by (rule byte_at_pos) (simp add: cont_def)

lemma cont_offset: "cont b \<Longrightarrow> \<exists>r. b = 0x80 + r \<and> r < 64"
  unfolding cont_def by (rule exI [of _ "b - 0x80"]) linarith

lemma second_cont: "second_ok b b2 \<Longrightarrow> cont b2"
  by (simp add: second_ok_def)

lemma utf8_step_cases:
  assumes "utf8_step us = (Some c, n)" and "us \<noteq> []"
  obtains (one) "take n us = [c]" "n = 1" "c < 0x80"
  | (two) x r where "take n us = [0xC0 + x, 0x80 + r]" "n = 2" "2 \<le> x" "x < 32" "r < 64" "c = x * 64 + r"
  | (three) y s r where "take n us = [0xE0 + y, 0x80 + s, 0x80 + r]" "n = 3" "y < 16" "s < 64" "r < 64"
      "c = (y * 64 + s) * 64 + r" "second_ok (0xE0 + y) (0x80 + s)"
  | (four) z t s r where "take n us = [0xF0 + z, 0x80 + t, 0x80 + s, 0x80 + r]" "n = 4" "z < 5" "t < 64"
      "s < 64" "r < 64" "c = ((z * 64 + t) * 64 + s) * 64 + r" "second_ok (0xF0 + z) (0x80 + t)"
proof -
  let ?b = "byte_at us 0" and ?b2 = "byte_at us 1" and ?b3 = "byte_at us 2" and ?b4 = "byte_at us 3"
  have [simp]: "[0..<1] = [0]" "[0..<2] = [0, 1]" "[0..<3] = [0, 1, 2]" "[0..<4] = [0, 1, 2, 3::nat]"
    by (simp_all add: upt_rec)
  consider "?b < 0x80" "c = ?b" "n = 1"
    | "0xC2 \<le> ?b" "?b < 0xE0" "cont ?b2" "c = (?b - 0xC0) * 64 + (?b2 - 0x80)" "n = 2"
    | "0xE0 \<le> ?b" "?b < 0xF0" "second_ok ?b ?b2" "cont ?b3" "n = 3"
        "c = ((?b - 0xE0) * 64 + (?b2 - 0x80)) * 64 + (?b3 - 0x80)"
    | "0xF0 \<le> ?b" "?b < 0xF5" "second_ok ?b ?b2" "cont ?b3" "cont ?b4" "n = 4"
        "c = (((?b - 0xF0) * 64 + (?b2 - 0x80)) * 64 + (?b3 - 0x80)) * 64 + (?b4 - 0x80)"
    using assms(1) unfolding utf8_step_def Let_def by (auto split: if_splits)
  then show thesis
  proof cases
    case 1
    with assms(2) show ?thesis by (intro one) (simp_all add: take_byte_at Suc_le_eq)
  next
    case 2
    from cont_offset [OF 2(3)] obtain r where r: "?b2 = 0x80 + r" "r < 64" by blast
    from 2 obtain x where x: "?b = 0xC0 + x" using le_Suc_ex [of "0xC0" ?b] by auto
    have "take n us = [?b, ?b2]" using cont_pos [OF 2(3)] 2(5) by (simp add: take_byte_at)
    with r x 2 show ?thesis by (intro two [of x r]) simp_all
  next
    case 3
    from cont_offset [OF second_cont [OF 3(3)]] obtain s where s: "?b2 = 0x80 + s" "s < 64" by blast
    from cont_offset [OF 3(4)] obtain r where r: "?b3 = 0x80 + r" "r < 64" by blast
    from 3 obtain y where y: "?b = 0xE0 + y" using le_Suc_ex [of "0xE0" ?b] by auto
    have "take n us = [?b, ?b2, ?b3]" using cont_pos [OF 3(4)] 3(5) by (simp add: take_byte_at)
    with s r y 3 show ?thesis by (intro three [of y s r]) simp_all
  next
    case 4
    from cont_offset [OF second_cont [OF 4(3)]] obtain t where t: "?b2 = 0x80 + t" "t < 64" by blast
    from cont_offset [OF 4(4)] obtain s where s: "?b3 = 0x80 + s" "s < 64" by blast
    from cont_offset [OF 4(5)] obtain r where r: "?b4 = 0x80 + r" "r < 64" by blast
    from 4 obtain z where z: "?b = 0xF0 + z" using le_Suc_ex [of "0xF0" ?b] by auto
    have "take n us = [?b, ?b2, ?b3, ?b4]" using cont_pos [OF 4(5)] 4(6) by (simp add: take_byte_at)
    with t s r z 4 show ?thesis by (intro four [of z t s r]) simp_all
  qed
qed

lemma utf8_step_valid:
  assumes "utf8_step us = (Some c, n)" and "us \<noteq> []"
  shows "scalar c \<and> take n us = utf8_put c \<and> n = length (utf8_put c)"
  using assms
proof (cases rule: utf8_step_cases)
  case one
  then show ?thesis by (simp add: utf8_put_def scalar_def)
next
  case (two x r)
  have "c div 64 = x" "c mod 64 = r" "128 \<le> c" "c < 2048" using two by simp_all
  with two(1,2) show ?thesis by (simp add: utf8_put_def scalar_def)
next
  case (three y s r)
  have "c div 64 = y * 64 + s" "c mod 64 = r" by (simp_all only: three(6) horner_64 [OF three(5)])
  moreover have "(y * 64 + s) div 64 = y" "(y * 64 + s) mod 64 = s" using three by simp_all
  moreover have "2048 \<le> c" "c < 65536" using three by (auto simp: second_ok_def cont_def)
  moreover have "scalar c"
  proof (cases "y < 14")
    case True
    then show ?thesis using three by (cases "y = 13") (auto simp: second_ok_def cont_def scalar_def)
  next
    case False
    then show ?thesis using three by (simp add: scalar_def)
  qed
  ultimately show ?thesis using three(1,2) by (simp add: utf8_put_def)
next
  case (four z t s r)
  have "c div 64 = (z * 64 + t) * 64 + s" "c mod 64 = r" by (simp_all only: four(7) horner_64 [OF four(6)])
  moreover have "((z * 64 + t) * 64 + s) div 64 = z * 64 + t" "((z * 64 + t) * 64 + s) mod 64 = s"
    "(z * 64 + t) div 64 = z" "(z * 64 + t) mod 64 = t"
    by (simp_all only: horner_64 [OF four(4)] horner_64 [OF four(5)])
  moreover have "65536 \<le> c" "scalar c"
    using four by (auto simp: second_ok_def cont_def scalar_def)
  ultimately show ?thesis using four(1,2) by (simp add: utf8_put_def)
qed

lemma utf8_put_byte: "scalar c \<Longrightarrow> list_all is_byte (utf8_put c)"
  by (auto simp: utf8_put_def is_byte_def scalar_def)

interpretation utf8: char_codec utf8_put utf8_step scalar is_byte
proof
  show "utf8_put c \<noteq> []" for c by (simp add: utf8_put_def)
qed (simp_all add: utf8_step_put utf8_step_valid)

definition as_bytes :: "nat list \<Rightarrow> nat list" where
  "as_bytes cs = concat (map utf8_put cs)"

definition from_utf8 :: "nat list \<Rightarrow> nat list option" where
  "from_utf8 bs = read_strict utf8_step bs"

definition from_utf8_lossy :: "nat list \<Rightarrow> nat list" where
  "from_utf8_lossy bs = read_lossy utf8_step bs"

lemma from_utf8_as_bytes: "list_all scalar cs \<Longrightarrow> from_utf8 (as_bytes cs) = Some cs"
  by (simp add: from_utf8_def as_bytes_def utf8.read_strict_written)

lemma as_bytes_from_utf8: "from_utf8 bs = Some cs \<Longrightarrow> list_all is_byte bs \<Longrightarrow> as_bytes cs = bs \<and> list_all scalar cs"
  by (simp add: from_utf8_def as_bytes_def utf8.written_read_strict)

lemma from_utf8_lossy: "from_utf8 bs = Some cs \<Longrightarrow> from_utf8_lossy bs = cs"
  by (simp add: from_utf8_def from_utf8_lossy_def read_lossy_strict)

end
