(* ===== verification/Tools_Encoding.thy ===== *)
theory Tools_Encoding
  imports Tools_Text Rust_Str
begin

text \<open>
  \<^verbatim>\<open>plugins/kn9t-tools/src/encoding.rs\<close> over the codecs of \<^verbatim>\<open>Tools_Text\<close>: what a file's bytes are read
  as and how a text goes back to bytes, the repair of doubly encoded text, and line endings.
\<close>

subsection \<open>UTF-16\<close>

definition unit16 :: "nat \<Rightarrow> bool" where
  "unit16 u \<longleftrightarrow> u < 0x10000"

definition utf16_put :: "nat \<Rightarrow> nat list" where
  "utf16_put c =
     (if c < 0x10000 then [c]
      else [0xD800 + (c - 0x10000) div 0x400, 0xDC00 + (c - 0x10000) mod 0x400])"

definition utf16_step :: "nat list \<Rightarrow> nat option \<times> nat" where
  "utf16_step us =
     (let u = byte_at us 0; v = byte_at us 1 in
      if u < 0xD800 \<or> 0xE000 \<le> u then (Some u, 1)
      else if u < 0xDC00 \<and> 0xDC00 \<le> v \<and> v < 0xE000
      then (Some (0x10000 + (u - 0xD800) * 0x400 + (v - 0xDC00)), 2)
      else (None, 1))"

lemma utf16_step_put:
  assumes "scalar c"
  shows "utf16_step (utf16_put c @ us) = (Some c, length (utf16_put c))"
proof (cases "c < 0x10000")
  case True
  then show ?thesis using assms by (auto simp: utf16_put_def utf16_step_def Let_def scalar_def)
next
  case False
  define d where "d = c - 0x10000"
  have "c = 0x10000 + d" "d < 0x100000" using False assms by (auto simp: d_def scalar_def)
  then have "d div 0x400 < 0x400" "0x10000 + d div 0x400 * 0x400 + d mod 0x400 = c" by simp_all
  then show ?thesis using False
    by (simp add: utf16_put_def utf16_step_def Let_def d_def [symmetric])
qed

lemma utf16_step_valid:
  assumes "list_all unit16 us" and st: "utf16_step us = (Some c, n)" and "us \<noteq> []"
  shows "scalar c \<and> take n us = utf16_put c \<and> n = length (utf16_put c)"
proof -
  let ?u = "byte_at us 0" and ?v = "byte_at us 1"
  have [simp]: "[0..<1] = [0]" "[0..<2] = [0, 1::nat]" by (simp_all add: upt_rec)
  have u: "unit16 ?u" using assms(1,3) by (cases us) simp_all
  consider "?u < 0xD800 \<or> 0xE000 \<le> ?u" "c = ?u" "n = 1"
    | "0xD800 \<le> ?u" "?u < 0xDC00" "0xDC00 \<le> ?v" "?v < 0xE000" "n = 2"
        "c = 0x10000 + (?u - 0xD800) * 0x400 + (?v - 0xDC00)"
  proof (cases "?u < 0xD800 \<or> 0xE000 \<le> ?u")
    case True
    then show ?thesis using st that(1) by (simp only: utf16_step_def Let_def if_True) simp
  next
    case False
    with st have "?u < 0xDC00 \<and> 0xDC00 \<le> ?v \<and> ?v < 0xE000"
      "(0x10000 + (?u - 0xD800) * 0x400 + (?v - 0xDC00), 2) = (c, n)"
      unfolding utf16_step_def Let_def by (simp_all only: if_False split: if_splits) simp_all
    with False show ?thesis by (intro that(2)) simp_all
  qed
  then show ?thesis
  proof cases
    case 1
    then show ?thesis using u assms(3)
      by (auto simp: utf16_put_def scalar_def unit16_def take_byte_at Suc_le_eq)
  next
    case 2
    define x where "x = ?u - 0xD800"
    define r where "r = ?v - 0xDC00"
    have uv: "?u = 0xD800 + x" "x < 0x400" "?v = 0xDC00 + r" "r < 0x400"
      using 2 by (simp_all add: x_def r_def)
    have "take n us = [?u, ?v]" using byte_at_pos [of us 1] 2 by (simp add: take_byte_at)
    moreover have c: "c = 0x10000 + (x * 0x400 + r)" using 2 by (simp add: x_def r_def)
    moreover have "scalar c" unfolding c scalar_def using uv by auto
    moreover have "utf16_put c = [0xD800 + x, 0xDC00 + r]" unfolding c using uv by (simp add: utf16_put_def)
    ultimately show ?thesis using 2 uv by simp
  qed
qed

interpretation utf16: char_codec utf16_put utf16_step scalar unit16
proof
  show "utf16_put c \<noteq> []" for c by (simp add: utf16_put_def)
qed (simp_all add: utf16_step_put utf16_step_valid)

text \<open>\<^verbatim>\<open>chunks_exact(2)\<close> leaves an odd last byte out.\<close>

fun units_le :: "nat list \<Rightarrow> nat list" where
  "units_le (a # b # bs) = (a + 256 * b) # units_le bs"
| "units_le _ = []"

fun units_be :: "nat list \<Rightarrow> nat list" where
  "units_be (a # b # bs) = (256 * a + b) # units_be bs"
| "units_be _ = []"

definition utf16_le :: "nat list \<Rightarrow> nat list" where
  "utf16_le bs = read_lossy utf16_step (units_le bs)"

definition utf16_be :: "nat list \<Rightarrow> nat list" where
  "utf16_be bs = read_lossy utf16_step (units_be bs)"

definition encode_utf16 :: "nat list \<Rightarrow> nat list" where
  "encode_utf16 cs = concat (map utf16_put cs)"

definition le_bytes :: "nat list \<Rightarrow> nat list" where
  "le_bytes us = concat (map (\<lambda>u. [u mod 256, u div 256]) us)"

definition be_bytes :: "nat list \<Rightarrow> nat list" where
  "be_bytes us = concat (map (\<lambda>u. [u div 256, u mod 256]) us)"

lemma units_le_bytes: "units_le (le_bytes us) = us"
  by (induction us) (simp_all add: le_bytes_def)

lemma units_be_bytes: "units_be (be_bytes us) = us"
  by (induction us) (simp_all add: be_bytes_def)

lemma le_bytes_units: "list_all is_byte bs \<Longrightarrow> even (length bs) \<Longrightarrow> le_bytes (units_le bs) = bs"
  by (induction bs rule: units_le.induct) (simp_all add: le_bytes_def is_byte_def)

lemma be_bytes_units: "list_all is_byte bs \<Longrightarrow> even (length bs) \<Longrightarrow> be_bytes (units_be bs) = bs"
  by (induction bs rule: units_be.induct) (simp_all add: be_bytes_def is_byte_def)

lemma units_le_ok: "list_all is_byte bs \<Longrightarrow> list_all unit16 (units_le bs)"
  by (induction bs rule: units_le.induct) (auto simp: unit16_def is_byte_def)

lemma units_be_ok: "list_all is_byte bs \<Longrightarrow> list_all unit16 (units_be bs)"
  by (induction bs rule: units_be.induct) (auto simp: unit16_def is_byte_def)

lemma read_encode_utf16: "list_all scalar cs \<Longrightarrow> read_lossy utf16_step (encode_utf16 cs) = cs"
  by (simp add: encode_utf16_def utf16.read_lossy_written)

subsection \<open>Windows-1252\<close>

definition cp1252_high :: "(nat \<times> nat) list" where
  "cp1252_high =
     [(0x80, 0x20AC), (0x82, 0x201A), (0x83, 0x0192), (0x84, 0x201E), (0x85, 0x2026), (0x86, 0x2020),
      (0x87, 0x2021), (0x88, 0x02C6), (0x89, 0x2030), (0x8A, 0x0160), (0x8B, 0x2039), (0x8C, 0x0152),
      (0x8E, 0x017D), (0x91, 0x2018), (0x92, 0x2019), (0x93, 0x201C), (0x94, 0x201D), (0x95, 0x2022),
      (0x96, 0x2013), (0x97, 0x2014), (0x98, 0x02DC), (0x99, 0x2122), (0x9A, 0x0161), (0x9B, 0x203A),
      (0x9C, 0x0153), (0x9E, 0x017E), (0x9F, 0x0178)]"

definition cp1252_decode_byte :: "nat \<Rightarrow> nat" where
  "cp1252_decode_byte b = (case map_of cp1252_high b of Some c \<Rightarrow> c | None \<Rightarrow> b)"

definition cp1252_encode_char :: "nat \<Rightarrow> nat option" where
  "cp1252_encode_char c =
     (case map_of (map prod.swap cp1252_high) c of
        Some b \<Rightarrow> Some b
      | None \<Rightarrow>
          if c \<in> {0x81, 0x8D, 0x8F, 0x90, 0x9D} then Some c
          else if c < 0x80 then Some c
          else if 0xA0 \<le> c \<and> c \<le> 0xFF then Some c
          else None)"

text \<open>The five bytes the table leaves out are C1 controls, and stand for themselves.\<close>

lemma cp1252_table:
  "list_all (\<lambda>(b, c). map_of cp1252_high b = Some c \<and> map_of (map prod.swap cp1252_high) c = Some b \<and>
     0x80 \<le> b \<and> b < 0xA0 \<and> b \<notin> {0x81, 0x8D, 0x8F, 0x90, 0x9D} \<and> 256 \<le> c) cp1252_high"
  by (simp add: cp1252_high_def)

lemma cp1252_table_full:
  "list_all (\<lambda>b. map_of cp1252_high b \<noteq> None \<or> b \<in> {0x81, 0x8D, 0x8F, 0x90, 0x9D}) [0x80..<0xA0]"
  by (simp add: cp1252_high_def upt_rec)

lemma cp1252_high_entry:
  assumes "(b, c) \<in> set cp1252_high"
  shows "map_of cp1252_high b = Some c" "map_of (map prod.swap cp1252_high) c = Some b"
    "0x80 \<le> b" "b < 0xA0" "b \<notin> {0x81, 0x8D, 0x8F, 0x90, 0x9D}" "256 \<le> c"
  using cp1252_table assms unfolding list_all_iff by blast+

lemma cp1252_high_find:
  "map_of cp1252_high b = Some c \<Longrightarrow> (b, c) \<in> set cp1252_high"
  "map_of (map prod.swap cp1252_high) c = Some b \<Longrightarrow> (b, c) \<in> set cp1252_high"
  by (auto dest: map_of_SomeD)

lemma cp1252_low:
  assumes "b < 0x80 \<or> b \<in> {0x81, 0x8D, 0x8F, 0x90, 0x9D} \<or> 0xA0 \<le> b"
  shows "map_of cp1252_high b = None"
  using assms cp1252_high_entry(3-5) [OF cp1252_high_find(1)] by (cases "map_of cp1252_high b") fastforce+

lemma cp1252_low_char: "c < 256 \<Longrightarrow> map_of (map prod.swap cp1252_high) c = None"
  using cp1252_high_entry(6) [OF cp1252_high_find(2)]
  by (cases "map_of (map prod.swap cp1252_high) c") fastforce+

lemma cp1252_keys: "map_of cp1252_high b = None \<Longrightarrow>
  b \<in> {0x81, 0x8D, 0x8F, 0x90, 0x9D} \<or> b < 0x80 \<or> 0xA0 \<le> b"
  using cp1252_table_full unfolding list_all_iff by (metis atLeastLessThan_iff linorder_not_less set_upt)

lemma cp1252_encode_decode: "is_byte b \<Longrightarrow> cp1252_encode_char (cp1252_decode_byte b) = Some b"
proof (cases "map_of cp1252_high b")
  case None
  assume "is_byte b"
  then show ?thesis using None cp1252_keys [OF None] cp1252_low_char [of b]
    by (auto simp: cp1252_encode_char_def cp1252_decode_byte_def is_byte_def)
next
  case (Some c)
  from cp1252_high_entry(2) [OF cp1252_high_find(1) [OF Some]] Some show ?thesis
    by (simp add: cp1252_encode_char_def cp1252_decode_byte_def)
qed

lemma cp1252_decode_encode:
  assumes "cp1252_encode_char c = Some b"
  shows "cp1252_decode_byte b = c \<and> is_byte b"
proof (cases "map_of (map prod.swap cp1252_high) c")
  case None
  with assms have "b = c" "c < 0x80 \<or> c \<in> {0x81, 0x8D, 0x8F, 0x90, 0x9D} \<or> 0xA0 \<le> c \<and> c \<le> 0xFF"
    by (auto simp: cp1252_encode_char_def split: if_splits)
  then show ?thesis using cp1252_low [of c] by (auto simp: cp1252_decode_byte_def is_byte_def)
next
  case (Some d)
  with assms have "d = b" by (simp add: cp1252_encode_char_def)
  with cp1252_high_entry(1,4) [OF cp1252_high_find(2) [OF Some]] show ?thesis
    by (simp add: cp1252_decode_byte_def is_byte_def)
qed

lemma cp1252_ascii: "b < 0x80 \<Longrightarrow> cp1252_decode_byte b = b"
  by (simp add: cp1252_decode_byte_def cp1252_low)

lemma cp1252_high_bytes: "0x80 \<le> b \<Longrightarrow> 0x80 \<le> cp1252_decode_byte b"
  using cp1252_high_entry(6) [OF cp1252_high_find(1), of b]
  by (auto simp: cp1252_decode_byte_def split: option.splits)

definition cp1252_put :: "nat \<Rightarrow> nat list" where
  "cp1252_put c = (case cp1252_encode_char c of Some b \<Rightarrow> [b] | None \<Rightarrow> [])"

definition cp1252_step :: "nat list \<Rightarrow> nat option \<times> nat" where
  "cp1252_step bs = (Some (cp1252_decode_byte (byte_at bs 0)), 1)"

definition in_cp1252 :: "nat \<Rightarrow> bool" where
  "in_cp1252 c \<longleftrightarrow> cp1252_encode_char c \<noteq> None"

interpretation cp1252: char_codec cp1252_put cp1252_step in_cp1252 is_byte
proof
  show "in_cp1252 c \<Longrightarrow> cp1252_put c \<noteq> []" for c by (auto simp: in_cp1252_def cp1252_put_def)
  show "in_cp1252 c \<Longrightarrow> cp1252_step (cp1252_put c @ us) = (Some c, length (cp1252_put c))" for c us
    by (auto simp: in_cp1252_def cp1252_put_def cp1252_step_def dest: cp1252_decode_encode)
  show "list_all is_byte us \<Longrightarrow> cp1252_step us = (Some c, n) \<Longrightarrow> us \<noteq> [] \<Longrightarrow>
      in_cp1252 c \<and> take n us = cp1252_put c \<and> n = length (cp1252_put c)" for us c n
    by (cases us) (auto simp: in_cp1252_def cp1252_put_def cp1252_step_def cp1252_encode_decode)
qed

lemma read_cp1252: "read_strict cp1252_step bs = Some (map cp1252_decode_byte bs)"
  by (induction bs) (simp_all add: read_strict.simps(2) cp1252_step_def)

fun cp1252_bytes :: "nat list \<Rightarrow> nat list option" where
  "cp1252_bytes [] = Some []"
| "cp1252_bytes (c # cs) =
     (case cp1252_encode_char c of
        None \<Rightarrow> None
      | Some b \<Rightarrow> map_option ((#) b) (cp1252_bytes cs))"

lemma cp1252_bytes_put: "list_all in_cp1252 cs \<Longrightarrow> cp1252_bytes cs = Some (concat (map cp1252_put cs))"
  by (induction cs) (auto simp: in_cp1252_def cp1252_put_def)

lemma cp1252_bytes_None: "cp1252_bytes cs = None \<longleftrightarrow> \<not> list_all in_cp1252 cs"
  by (induction cs) (auto simp: in_cp1252_def split: option.splits)

lemma cp1252_bytes_decoded: "list_all is_byte bs \<Longrightarrow> cp1252_bytes (map cp1252_decode_byte bs) = Some bs"
  using cp1252.written_read_strict [OF read_cp1252, of bs] by (simp add: cp1252_bytes_put)

lemma cp1252_bytes_text: "cp1252_bytes cs = Some bs \<Longrightarrow> map cp1252_decode_byte bs = cs"
  using cp1252.read_strict_written [of cs] cp1252_bytes_put [of cs] cp1252_bytes_None [of cs]
  by (auto simp: read_cp1252)

subsection \<open>Files\<close>

datatype text_encoding = Utf8 | Utf8Bom | Utf16Le | Utf16Be | Windows1252

definition decode_file :: "nat list \<Rightarrow> text_encoding \<times> nat list" where
  "decode_file bs =
     (if starts_with bs [0xFF, 0xFE] then (Utf16Le, utf16_le (drop 2 bs))
      else if starts_with bs [0xFE, 0xFF] then (Utf16Be, utf16_be (drop 2 bs))
      else if starts_with bs [0xEF, 0xBB, 0xBF] then (Utf8Bom, from_utf8_lossy (drop 3 bs))
      else if 4 \<le> length bs \<and> bs ! 1 = 0 \<and> bs ! 3 = 0 then (Utf16Le, utf16_le bs)
      else (case from_utf8 bs of
              Some s \<Rightarrow> (Utf8, s)
            | None \<Rightarrow> (Windows1252, map cp1252_decode_byte bs)))"

definition encode_checked :: "text_encoding \<Rightarrow> nat list \<Rightarrow> nat list \<times> bool" where
  "encode_checked enc t =
     (case enc of
        Utf8 \<Rightarrow> (as_bytes t, False)
      | Utf8Bom \<Rightarrow> ([0xEF, 0xBB, 0xBF] @ as_bytes t, False)
      | Utf16Le \<Rightarrow> ([0xFF, 0xFE] @ le_bytes (encode_utf16 t), False)
      | Utf16Be \<Rightarrow> ([0xFE, 0xFF] @ be_bytes (encode_utf16 t), False)
      | Windows1252 \<Rightarrow> (case cp1252_bytes t of Some bs \<Rightarrow> (bs, False) | None \<Rightarrow> (as_bytes t, True)))"

text \<open>
  What \<^verbatim>\<open>decode\<close> reads with nothing replaced and with its byte-order mark in place. UTF-8 without a mark
  and Windows-1252 always are: the first is strict and the second gives every byte a character.
\<close>

definition lossless :: "nat list \<Rightarrow> bool" where
  "lossless bs =
     (case fst (decode_file bs) of
        Utf8 \<Rightarrow> True
      | Windows1252 \<Rightarrow> True
      | Utf8Bom \<Rightarrow> from_utf8 (drop 3 bs) \<noteq> None
      | Utf16Le \<Rightarrow> starts_with bs [0xFF, 0xFE] \<and> even (length bs) \<and>
          read_strict utf16_step (units_le (drop 2 bs)) \<noteq> None
      | Utf16Be \<Rightarrow> even (length bs) \<and> read_strict utf16_step (units_be (drop 2 bs)) \<noteq> None)"

text \<open>Bytes that look like nothing but a text with no mark.\<close>

definition unmarked :: "nat list \<Rightarrow> bool" where
  "unmarked bs \<longleftrightarrow>
     \<not> starts_with bs [0xFF, 0xFE] \<and> \<not> starts_with bs [0xFE, 0xFF] \<and> \<not> starts_with bs [0xEF, 0xBB, 0xBF] \<and>
     \<not> (4 \<le> length bs \<and> bs ! 1 = 0 \<and> bs ! 3 = 0)"

lemma mark_drop: "starts_with bs p \<Longrightarrow> n = length p \<Longrightarrow> p @ drop n bs = bs"
  unfolding starts_with_def by (metis append_take_drop_id)

lemma list_all_drop: "list_all P xs \<Longrightarrow> list_all P (drop n xs)"
  by (metis append_take_drop_id list_all_append)

lemma encode_utf16_read:
  "read_strict utf16_step us = Some t \<Longrightarrow> list_all unit16 us \<Longrightarrow>
   encode_utf16 (read_lossy utf16_step us) = us"
  unfolding encode_utf16_def
  using read_lossy_strict utf16.written_read_strict by fastforce

lemma encode_decode_file:
  assumes ok: "list_all is_byte bs" and ll: "lossless bs"
  shows "encode_checked (fst (decode_file bs)) (snd (decode_file bs)) = (bs, False)"
proof -
  consider (le) "starts_with bs [0xFF, 0xFE]"
    | (be) "\<not> starts_with bs [0xFF, 0xFE]" "starts_with bs [0xFE, 0xFF]"
    | (bom) "\<not> starts_with bs [0xFF, 0xFE]" "\<not> starts_with bs [0xFE, 0xFF]" "starts_with bs [0xEF, 0xBB, 0xBF]"
    | (bare) "\<not> starts_with bs [0xFF, 0xFE]" "\<not> starts_with bs [0xFE, 0xFF]"
        "\<not> starts_with bs [0xEF, 0xBB, 0xBF]" "4 \<le> length bs \<and> bs ! 1 = 0 \<and> bs ! 3 = 0"
    | (utf8) s where "unmarked bs" "from_utf8 bs = Some s"
    | (ansi) "unmarked bs" "from_utf8 bs = None"
    unfolding unmarked_def by (cases "from_utf8 bs") blast+
  then show ?thesis
  proof cases
    case le
    with ll obtain t where t: "read_strict utf16_step (units_le (drop 2 bs)) = Some t" "even (length bs)"
      by (auto simp: lossless_def decode_file_def)
    have "le_bytes (encode_utf16 (utf16_le (drop 2 bs))) = drop 2 bs"
      unfolding utf16_le_def using ok t
      by (simp add: encode_utf16_read units_le_ok list_all_drop le_bytes_units)
    with le mark_drop [OF le, of 2] show ?thesis by (simp add: decode_file_def encode_checked_def)
  next
    case be
    with ll obtain t where t: "read_strict utf16_step (units_be (drop 2 bs)) = Some t" "even (length bs)"
      by (auto simp: lossless_def decode_file_def)
    have "be_bytes (encode_utf16 (utf16_be (drop 2 bs))) = drop 2 bs"
      unfolding utf16_be_def using ok t
      by (simp add: encode_utf16_read units_be_ok list_all_drop be_bytes_units)
    with be mark_drop [OF be(2), of 2] show ?thesis by (simp add: decode_file_def encode_checked_def)
  next
    case bom
    with ll obtain t where t: "from_utf8 (drop 3 bs) = Some t"
      by (auto simp: lossless_def decode_file_def)
    have "as_bytes (from_utf8_lossy (drop 3 bs)) = drop 3 bs"
      using from_utf8_lossy [OF t] as_bytes_from_utf8 [OF t list_all_drop [OF ok]] by simp
    with bom mark_drop [OF bom(3), of 3] show ?thesis by (simp add: decode_file_def encode_checked_def)
  next
    case bare
    with ll show ?thesis by (simp add: lossless_def decode_file_def)
  next
    case utf8
    with as_bytes_from_utf8 [OF utf8(2) ok] show ?thesis
      by (auto simp: decode_file_def unmarked_def encode_checked_def)
  next
    case ansi
    with cp1252_bytes_decoded [OF ok] show ?thesis
      by (auto simp: decode_file_def unmarked_def encode_checked_def)
  qed
qed

text \<open>A text written with a mark is read back as it was, in the same encoding.\<close>

lemma decode_marked:
  assumes "list_all scalar t" and "enc \<in> {Utf8Bom, Utf16Le, Utf16Be}"
  shows "decode_file (fst (encode_checked enc t)) = (enc, t)"
  using assms
  by (auto simp: encode_checked_def decode_file_def starts_with_def from_utf8_lossy [OF from_utf8_as_bytes]
      utf16_le_def utf16_be_def units_le_bytes units_be_bytes read_encode_utf16)

text \<open>Without one, it is when its bytes are unmarked.\<close>

lemma decode_unmarked:
  "list_all scalar t \<Longrightarrow> unmarked (as_bytes t) \<Longrightarrow> decode_file (fst (encode_checked Utf8 t)) = (Utf8, t)"
  by (simp add: encode_checked_def decode_file_def unmarked_def from_utf8_as_bytes)

lemma decode_ansi:
  "cp1252_bytes t = Some bs \<Longrightarrow> unmarked bs \<Longrightarrow> from_utf8 bs = None \<Longrightarrow>
   decode_file (fst (encode_checked Windows1252 t)) = (Windows1252, t)"
  by (simp add: encode_checked_def decode_file_def unmarked_def cp1252_bytes_text del: not_None_eq)

lemma encode_upgrade:
  "snd (encode_checked enc t) \<longleftrightarrow> enc = Windows1252 \<and> \<not> list_all in_cp1252 t"
  "snd (encode_checked enc t) \<Longrightarrow> encode_checked enc t = (as_bytes t, True)"
  by (auto simp: encode_checked_def cp1252_bytes_None [symmetric] split: text_encoding.splits option.splits)

subsection \<open>Double encoding\<close>

definition is_mojibake_candidate :: "nat \<Rightarrow> bool" where
  "is_mojibake_candidate c \<longleftrightarrow> 0x80 \<le> c \<and> cp1252_encode_char c \<noteq> None"

function repair_runs :: "nat list \<Rightarrow> nat list" where
  "repair_runs [] = []"
| "repair_runs (c # cs) =
     (if \<not> is_mojibake_candidate c then c # repair_runs cs
      else
        (let run = takeWhile is_mojibake_candidate (c # cs) in
         (case Option.bind (cp1252_bytes run) from_utf8 of Some fixed \<Rightarrow> fixed | None \<Rightarrow> run) @
         repair_runs (dropWhile is_mojibake_candidate cs)))"
  by pat_completeness auto
termination
  by (relation "measure length") (auto simp: le_imp_less_Suc length_dropWhile_le)

definition repair_mojibake :: "nat list \<Rightarrow> nat list" where
  "repair_mojibake t = repair_runs (case strip_prefix [0xFEFF] t of Some u \<Rightarrow> u | None \<Rightarrow> t)"

text \<open>What reading UTF-8 as Windows-1252 makes of a text.\<close>

definition mojibake :: "nat list \<Rightarrow> nat list" where
  "mojibake t = map cp1252_decode_byte (as_bytes t)"

lemma put_ascii: "c < 0x80 \<Longrightarrow> utf8_put c = [c]"
  by (simp add: utf8_put_def)

lemma put_high: "0x80 \<le> c \<Longrightarrow> list_all (\<lambda>b. 0x80 \<le> b) (utf8_put c)"
  by (simp add: utf8_put_def)

lemma as_bytes_simps [simp]:
  "as_bytes [] = []" "as_bytes (c # cs) = utf8_put c @ as_bytes cs" "as_bytes (cs @ ds) = as_bytes cs @ as_bytes ds"
  by (simp_all add: as_bytes_def)

lemma as_bytes_byte: "list_all scalar cs \<Longrightarrow> list_all is_byte (as_bytes cs)"
  by (induction cs) (simp_all add: utf8_put_byte)

lemma mojibake_candidates:
  assumes "list_all scalar cs" and "list_all (\<lambda>c. 0x80 \<le> c) cs"
  shows "list_all is_mojibake_candidate (mojibake cs)"
proof -
  have "list_all is_byte (as_bytes cs)" by (rule as_bytes_byte) (rule assms)
  moreover have "list_all (\<lambda>b. 0x80 \<le> b) (as_bytes cs)"
    using assms(2) by (induction cs) (simp_all add: put_high)
  ultimately show ?thesis
    by (auto simp: mojibake_def list_all_iff is_mojibake_candidate_def cp1252_encode_decode cp1252_high_bytes)
qed

lemma ascii_no_candidate: "c < 0x80 \<Longrightarrow> \<not> is_mojibake_candidate c"
  by (simp add: is_mojibake_candidate_def)

lemma mojibake_simps:
  "mojibake [] = []" "c < 0x80 \<Longrightarrow> mojibake (c # cs) = c # mojibake cs"
  "mojibake (cs @ ds) = mojibake cs @ mojibake ds"
  by (simp_all add: mojibake_def put_ascii cp1252_ascii)

lemma takeWhile_run: "list_all P xs \<Longrightarrow> ys = [] \<or> \<not> P (hd ys) \<Longrightarrow> takeWhile P (xs @ ys) = xs"
  by (induction xs) (auto simp: takeWhile_eq_Nil_iff)

lemma dropWhile_run: "list_all P xs \<Longrightarrow> ys = [] \<or> \<not> P (hd ys) \<Longrightarrow> dropWhile P (xs @ ys) = ys"
  by (induction xs) (auto simp: dropWhile_eq_self_iff)

lemma repair_run:
  assumes "list_all is_mojibake_candidate run" "run \<noteq> []" "rest = [] \<or> \<not> is_mojibake_candidate (hd rest)"
  shows "repair_runs (run @ rest) =
    (case Option.bind (cp1252_bytes run) from_utf8 of Some fixed \<Rightarrow> fixed | None \<Rightarrow> run) @ repair_runs rest"
proof -
  obtain c cs where c: "run = c # cs" using assms(2) by (cases run) auto
  have "takeWhile is_mojibake_candidate (c # cs @ rest) = c # cs"
    "dropWhile is_mojibake_candidate (cs @ rest) = rest" "is_mojibake_candidate c"
    using takeWhile_run [OF assms(1,3)] dropWhile_run [of is_mojibake_candidate cs rest] assms
    unfolding c by simp_all
  then show ?thesis unfolding c by (simp add: Let_def)
qed

lemma repair_runs_mojibake: "list_all scalar cs \<Longrightarrow> repair_runs (mojibake cs) = cs"
proof (induction cs rule: measure_induct_rule [where f = length])
  case (less cs)
  show ?case
  proof (cases cs)
    case Nil
    then show ?thesis by (simp add: mojibake_simps)
  next
    case (Cons c ds)
    show ?thesis
    proof (cases "c < 0x80")
      case True
      with Cons less show ?thesis by (simp add: mojibake_simps ascii_no_candidate)
    next
      case False
      define hi where "hi = takeWhile (\<lambda>c. 0x80 \<le> c) cs"
      define lo where "lo = dropWhile (\<lambda>c. 0x80 \<le> c) cs"
      have cs: "cs = hi @ lo" by (simp add: hi_def lo_def)
      with less.prems have ok: "list_all scalar hi" "list_all scalar lo" by simp_all
      have hi: "hi \<noteq> []" "list_all (\<lambda>c. 0x80 \<le> c) hi"
        using False Cons by (auto simp: hi_def list_all_iff dest: set_takeWhileD)
      have "lo = [] \<or> hd lo < 0x80"
        using hd_dropWhile [of "\<lambda>c. 0x80 \<le> c" cs] unfolding lo_def not_le by blast
      then have lo: "mojibake lo = [] \<or> \<not> is_mojibake_candidate (hd (mojibake lo))"
        by (cases lo) (auto simp: mojibake_simps ascii_no_candidate)
      have ne: "mojibake hi \<noteq> []" using hi(1) by (cases hi) (simp_all add: mojibake_def utf8_put_def)
      have "Option.bind (cp1252_bytes (mojibake hi)) from_utf8 = Some hi"
        using cp1252_bytes_decoded [OF as_bytes_byte [OF ok(1)]] from_utf8_as_bytes [OF ok(1)]
        by (simp add: mojibake_def)
      with repair_run [OF mojibake_candidates [OF ok(1) hi(2)] ne lo]
      have "repair_runs (mojibake cs) = hi @ repair_runs (mojibake lo)" by (simp add: cs mojibake_simps)
      also have "repair_runs (mojibake lo) = lo"
        using hi(1) ok(2) by (intro less.IH) (simp_all add: cs)
      finally show ?thesis by (simp add: cs)
    qed
  qed
qed

lemma no_mark_decoded: "cp1252_decode_byte b = 0xFEFF \<Longrightarrow> is_byte b \<Longrightarrow> False"
  using cp1252_encode_decode [of b] by (simp add: cp1252_encode_char_def cp1252_high_def)

lemma repair_mojibake_undoes: "list_all scalar cs \<Longrightarrow> repair_mojibake (mojibake cs) = cs"
proof -
  assume ok: "list_all scalar cs"
  have "strip_prefix [0xFEFF] (mojibake cs) = None"
    using as_bytes_byte [OF ok] no_mark_decoded
    by (cases "as_bytes cs") (auto simp: mojibake_def strip_prefix_def starts_with_def)
  then show ?thesis by (simp add: repair_mojibake_def repair_runs_mojibake [OF ok])
qed

text \<open>A text whose runs are not UTF-8 when taken for bytes is left as it is.\<close>

lemma repair_runs_clean:
  "(\<And>us run vs. t = us @ run @ vs \<Longrightarrow> run \<noteq> [] \<Longrightarrow> list_all is_mojibake_candidate run \<Longrightarrow>
     Option.bind (cp1252_bytes run) from_utf8 = None) \<Longrightarrow> repair_runs t = t"
proof (induction t rule: repair_runs.induct)
  case (2 c cs)
  show ?case
  proof (cases "is_mojibake_candidate c")
    case False
    have "repair_runs cs = cs"
    proof (rule 2(1) [OF False])
      fix us run vs
      assume "cs = us @ run @ vs" "run \<noteq> []" "list_all is_mojibake_candidate run"
      then show "Option.bind (cp1252_bytes run) from_utf8 = None" using 2(3) [of "c # us" run vs] by simp
    qed
    with False show ?thesis by simp
  next
    case True
    let ?run = "takeWhile is_mojibake_candidate (c # cs)"
    have split: "c # cs = ?run @ dropWhile is_mojibake_candidate cs" using True by simp
    have "repair_runs (dropWhile is_mojibake_candidate cs) = dropWhile is_mojibake_candidate cs"
    proof (rule 2(2))
      show "\<not> \<not> is_mojibake_candidate c" using True by simp
      fix us run vs
      assume a: "dropWhile is_mojibake_candidate cs = us @ run @ vs" "run \<noteq> []"
        "list_all is_mojibake_candidate run"
      have "c # cs = (?run @ us) @ run @ vs" using split unfolding a(1) append_assoc .
      from 2(3) [OF this a(2,3)] show "Option.bind (cp1252_bytes run) from_utf8 = None" .
    qed (rule refl)
    moreover have "Option.bind (cp1252_bytes ?run) from_utf8 = None"
      by (rule 2(3) [of "[]" _ "dropWhile is_mojibake_candidate cs"])
        (use True in \<open>auto simp: list_all_iff dest: set_takeWhileD\<close>)
    ultimately show ?thesis using True by (simp add: Let_def)
  qed
qed simp

subsection \<open>Line endings\<close>

text \<open>Carriage return is 13 and line feed 10. \<^verbatim>\<open>str::replace\<close> goes left to right and does not look at
  what it has written; the pattern is never empty here.\<close>

abbreviation CR :: nat where "CR \<equiv> 13"
abbreviation LF :: nat where "LF \<equiv> 10"

function replace_sub :: "'a list \<Rightarrow> 'a list \<Rightarrow> 'a list \<Rightarrow> 'a list" where
  "replace_sub p r [] = []"
| "replace_sub p r (c # s) =
     (if p \<noteq> [] \<and> starts_with (c # s) p then r @ replace_sub p r (drop (max 1 (length p)) (c # s))
      else c # replace_sub p r s)"
  by pat_completeness auto
termination
  by (relation "measure (\<lambda>(_, _, s). length s)") (auto simp: max_def)

definition replace_char :: "nat \<Rightarrow> nat list \<Rightarrow> nat list \<Rightarrow> nat list" where
  "replace_char a r t = concat (map (\<lambda>c. if c = a then r else [c]) t)"

definition detect_line_ending :: "nat list \<Rightarrow> nat list" where
  "detect_line_ending t =
     (case (find_sub [LF] t, find_sub [CR, LF] t) of
        (None, _) \<Rightarrow> [LF]
      | (_, None) \<Rightarrow> [LF]
      | (Some lf, Some crlf) \<Rightarrow> if crlf < lf then [CR, LF] else [LF])"

definition normalize_to_lf :: "nat list \<Rightarrow> nat list" where
  "normalize_to_lf t = replace_char CR [LF] (replace_sub [CR, LF] [LF] t)"

definition restore_line_endings :: "nat list \<Rightarrow> nat list \<Rightarrow> nat list" where
  "restore_line_endings t ending = (if ending = [CR, LF] then replace_char LF [CR, LF] t else t)"

fun crlf_only :: "nat list \<Rightarrow> bool" where
  "crlf_only [] \<longleftrightarrow> True"
| "crlf_only (c # t) \<longleftrightarrow>
     (if c = CR then (case t of d # u \<Rightarrow> d = LF \<and> crlf_only u | [] \<Rightarrow> False)
      else c \<noteq> LF \<and> crlf_only t)"

definition uniform :: "nat list \<Rightarrow> bool" where
  "uniform t \<longleftrightarrow> CR \<notin> set t \<or> crlf_only t"

lemma replace_char_simps [simp]:
  "replace_char a r [] = []"
  "replace_char a r (c # t) = (if c = a then r else [c]) @ replace_char a r t"
  "replace_char a r (t @ u) = replace_char a r t @ replace_char a r u"
  by (simp_all add: replace_char_def)

lemma replace_char_id: "a \<notin> set t \<Longrightarrow> replace_char a r t = t"
  by (induction t) auto

lemma replace_char_gone: "a \<notin> set r \<Longrightarrow> a \<notin> set (replace_char a r t)"
  by (induction t) auto

lemma normalize_simps [simp]:
  "normalize_to_lf [] = []"
  "normalize_to_lf (CR # LF # t) = LF # normalize_to_lf t"
  "c \<noteq> CR \<Longrightarrow> normalize_to_lf (c # t) = c # normalize_to_lf t"
  "t = [] \<or> hd t \<noteq> LF \<Longrightarrow> normalize_to_lf (CR # t) = LF # normalize_to_lf t"
  by (cases t; simp add: normalize_to_lf_def starts_with_def)+

lemma normalize_no_cr: "CR \<notin> set (normalize_to_lf t)"
  by (simp add: normalize_to_lf_def replace_char_gone)

lemma normalize_id: "CR \<notin> set t \<Longrightarrow> normalize_to_lf t = t"
  by (induction t) auto

lemma normalize_restored: "CR \<notin> set t \<Longrightarrow> normalize_to_lf (replace_char LF [CR, LF] t) = t"
  by (induction t) auto

lemma crlf_only_restored: "CR \<notin> set t \<Longrightarrow> crlf_only (replace_char LF [CR, LF] t)"
  by (induction t) auto

lemma crlf_only_normalize: "crlf_only t \<Longrightarrow> replace_char LF [CR, LF] (normalize_to_lf t) = t"
  by (induction t rule: crlf_only.induct) (auto split: list.splits if_splits)

lemma find_sub_split:
  assumes "find_sub p s = Some i"
  shows "s = take i s @ p @ drop (i + length p) s" "i + length p \<le> length s"
proof -
  from find_sub_SomeD [OF assms] have "take (length p) (drop i s) = p" "i + length p \<le> length s" by auto
  then show "s = take i s @ p @ drop (i + length p) s" "i + length p \<le> length s"
    by (metis append_take_drop_id drop_drop add.commute)+
qed

lemma find_sub_mem: "a \<notin> set t \<Longrightarrow> a \<in> set p \<Longrightarrow> find_sub p t = None"
  using find_sub_split(1) [of p t] by (metis Un_iff not_None_eq set_append)

lemma detect_crlf: "crlf_only t \<Longrightarrow> LF \<in> set t \<Longrightarrow> detect_line_ending t = [CR, LF]"
proof (induction t rule: crlf_only.induct)
  case (2 c t)
  then show ?case
    by (auto simp: detect_line_ending_def split: if_splits option.splits list.splits)
qed simp

lemma detect_no_cr: "CR \<notin> set t \<Longrightarrow> detect_line_ending t = [LF]"
  using find_sub_mem [of CR t "[CR, LF]"] by (simp add: detect_line_ending_def split: option.splits)

lemma crlf_only_no_lf: "crlf_only t \<Longrightarrow> LF \<notin> set t \<Longrightarrow> CR \<notin> set t"
  by (induction t rule: crlf_only.induct) (auto split: list.splits if_splits)

text \<open>Endings survive the way to line feeds and back exactly when the file has one kind of them.\<close>

lemma restore_normalize:
  "restore_line_endings (normalize_to_lf t) (detect_line_ending t) = t \<longleftrightarrow> uniform t"
proof
  assume "uniform t"
  then consider "CR \<notin> set t" | "crlf_only t" "LF \<in> set t"
    using crlf_only_no_lf by (auto simp: uniform_def)
  then show "restore_line_endings (normalize_to_lf t) (detect_line_ending t) = t"
    by cases (simp_all add: restore_line_endings_def detect_no_cr normalize_id detect_crlf crlf_only_normalize)
next
  assume eq: "restore_line_endings (normalize_to_lf t) (detect_line_ending t) = t"
  show "uniform t"
  proof (cases "detect_line_ending t = [CR, LF]")
    case True
    with eq crlf_only_restored [OF normalize_no_cr] show ?thesis
      by (metis restore_line_endings_def uniform_def)
  next
    case False
    with eq normalize_no_cr show ?thesis by (metis restore_line_endings_def uniform_def)
  qed
qed

end
