(* ===== verification/Tools_Match.thy ===== *)
theory Tools_Match
  imports Tools_Encoding
begin

text \<open>
  The matching half of \<^verbatim>\<open>plugins/kn9t-tools/src/edit.rs\<close>: how \<^verbatim>\<open>old_string\<close> is located. A text is the
  list of its characters; the code's offsets are in bytes and slicing at one that is not between two
  characters panics, so offsets are kept in bytes here and \<open>None\<close> is the panic.
\<close>

subsection \<open>Byte offsets\<close>

definition width :: "nat \<Rightarrow> nat" where
  "width c = length (utf8_put c)"

definition blen :: "nat list \<Rightarrow> nat" where
  "blen t = length (as_bytes t)"

fun split_at :: "nat \<Rightarrow> nat list \<Rightarrow> (nat list \<times> nat list) option" where
  "split_at n [] = (if n = 0 then Some ([], []) else None)"
| "split_at n (c # t) =
     (if n = 0 then Some ([], c # t)
      else if n < width c then None
      else map_option (\<lambda>(a, b). (c # a, b)) (split_at (n - width c) t))"

lemma blen_simps [simp]: "blen [] = 0" "blen (c # t) = width c + blen t" "blen (t @ u) = blen t + blen u"
  by (simp_all add: blen_def width_def)

lemma width_pos [simp]: "0 < width c"
  by (simp add: width_def utf8_put_def)

lemma split_at_boundary: "split_at (blen a) (a @ b) = Some (a, b)"
proof (induction a)
  case Nil
  show ?case by (cases b) simp_all
qed simp

lemma split_at_Some: "split_at n t = Some (a, b) \<Longrightarrow> t = a @ b \<and> n = blen a"
  by (induction n t arbitrary: a b rule: split_at.induct) (auto split: if_splits)

subsection \<open>Search\<close>

text \<open>\<^verbatim>\<open>matches\<close> goes on after the end of a match; \<^verbatim>\<open>find\<close> gives a byte offset.\<close>

function count_matches :: "'a list \<Rightarrow> 'a list \<Rightarrow> nat" where
  "count_matches p [] = 0"
| "count_matches p (c # t) =
     (if p \<noteq> [] \<and> starts_with (c # t) p then Suc (count_matches p (drop (max 1 (length p)) (c # t)))
      else count_matches p t)"
  by pat_completeness auto
termination
  by (relation "measure (\<lambda>(_, t). length t)") (auto simp: max_def)

definition find_bytes :: "nat list \<Rightarrow> nat list \<Rightarrow> nat option" where
  "find_bytes p t = map_option (\<lambda>i. blen (take i t)) (find_sub p t)"

lemma count_matches_find: "p \<noteq> [] \<Longrightarrow> count_matches p t = 0 \<longleftrightarrow> find_sub p t = None"
  by (induction p t rule: count_matches.induct) (auto simp: starts_with_def)

lemma count_matches_append:
  "count_matches p v \<le> count_matches p (p @ v)"
  by (cases p) (simp_all add: starts_with_def)

text \<open>When one match is counted, any other occurrence overlaps it.\<close>

lemma count_matches_after: 
  assumes "find_sub p t = Some i" and "p \<noteq> []"
  shows "count_matches p t = Suc (count_matches p (drop (i + length p) t))"
  using assms
proof (induction t arbitrary: i)
  case (Cons c t)
  show ?case
  proof (cases "starts_with (c # t) p")
    case True
    with Cons.prems have "i = 0" by (simp add: starts_with_def)
    with True Cons.prems show ?thesis by (cases p) (simp_all add: max_def)
  next
    case False
    with Cons.prems obtain j where "find_sub p t = Some j" "i = Suc j" by (auto simp: starts_with_def)
    with False Cons.IH [of j] Cons.prems(2) show ?thesis by simp
  qed
qed simp

lemma find_sub_app: "find_sub p (u @ p @ v) \<noteq> None"
  using find_sub_None [of p "u @ p @ v" "length u"] by auto

lemma match_once:
  assumes one: "count_matches p t = 1" and ne: "p \<noteq> []" and occ: "t = u @ p @ v"
  obtains i where "find_sub p t = Some i" "i \<le> length u" "length u < i + length p"
proof -
  obtain i where i: "find_sub p t = Some i" using find_sub_app occ by blast
  have "i \<le> length u"
    using find_sub_SomeD [OF i] occ by (metis append_eq_conv_conj not_le)
  moreover have "length u < i + length p"
  proof (rule ccontr)
    assume "\<not> ?thesis"
    then have "drop (i + length p) t = drop (i + length p) u @ p @ v" by (simp add: occ)
    with find_sub_app have "count_matches p (drop (i + length p) t) \<noteq> 0"
      using count_matches_find [OF ne] by metis
    with one count_matches_after [OF i ne] show False by simp
  qed
  ultimately show thesis using that i by blast
qed

subsection \<open>Fuzzy text\<close>

text \<open>\<^verbatim>\<open>char::is_whitespace\<close>.\<close>

definition white_space :: "nat \<Rightarrow> bool" where
  "white_space c \<longleftrightarrow>
     9 \<le> c \<and> c \<le> 13 \<or> c \<in> {0x20, 0x85, 0xA0, 0x1680} \<or> 0x2000 \<le> c \<and> c \<le> 0x200A \<or>
     c \<in> {0x2028, 0x2029, 0x202F, 0x205F, 0x3000}"

definition trim_line :: "nat list \<Rightarrow> nat list" where
  "trim_line t = rev (dropWhile white_space (rev t))"

text \<open>\<^verbatim>\<open>str::lines\<close>: the line feed ends a line, with the carriage return before it.\<close>

fun text_lines :: "nat list \<Rightarrow> nat list list" where
  "text_lines [] = []"
| "text_lines (c # t) =
     (if c = LF then [] # text_lines t
      else if c = CR \<and> starts_with t [LF] then text_lines t
      else (case text_lines t of [] \<Rightarrow> [[c]] | l # ls \<Rightarrow> (c # l) # ls))"

definition fuzzy_char :: "nat \<Rightarrow> nat" where
  "fuzzy_char c =
     (if c \<in> {0x2018, 0x2019, 0x201A, 0x201B} then 0x27
      else if c \<in> {0x201C, 0x201D, 0x201E, 0x201F} then 0x22
      else if c \<in> {0x2010, 0x2011, 0x2012, 0x2013, 0x2014, 0x2015, 0x2212} then 0x2D
      else if c = 0xA0 \<or> 0x2002 \<le> c \<and> c \<le> 0x200A \<or> c \<in> {0x202F, 0x205F, 0x3000} then 0x20
      else c)"

definition normalize_for_fuzzy_match :: "nat list \<Rightarrow> nat list" where
  "normalize_for_fuzzy_match t = map fuzzy_char (join_with LF (map trim_line (text_lines t)))"

text \<open>An output character with the byte offset and the width of its source.\<close>

type_synonym mapped = "nat \<times> nat \<times> nat"

fun map_line :: "nat \<Rightarrow> nat list \<Rightarrow> mapped list" where
  "map_line off [] = []"
| "map_line off (c # t) = (fuzzy_char c, off, width c) # map_line (off + width c) t"

function fuzzy_loop :: "nat \<Rightarrow> nat list \<Rightarrow> mapped list" where
  "fuzzy_loop off [] = []"
| "fuzzy_loop off (c # cs) =
     (let t = c # cs in
      case find_sub [LF] t of
        None \<Rightarrow> map_line off (trim_line t)
      | Some i \<Rightarrow>
          let line = take i t; r = drop (i + 1) t in
          map_line off (trim_line line) @
          (if r = [] then []
           else (LF, off + blen line, 1) # fuzzy_loop (off + blen line + 1) r))"
  by pat_completeness auto
termination
  by (relation "measure (\<lambda>(_, t). length t)") (auto simp: Let_def simp del: find_sub.simps)

declare fuzzy_loop.simps(2) [simp del]

lemma fuzzy_loop_line:
  "find_sub [LF] t = None \<Longrightarrow> fuzzy_loop off t = map_line off (trim_line t)"
  by (cases t) (simp_all add: fuzzy_loop.simps(2) trim_line_def del: find_sub.simps(2))

lemma fuzzy_loop_lines:
  "find_sub [LF] t = Some i \<Longrightarrow> fuzzy_loop off t =
     map_line off (trim_line (take i t)) @
     (if drop (i + 1) t = [] then []
      else (LF, off + blen (take i t), 1) # fuzzy_loop (off + blen (take i t) + 1) (drop (i + 1) t))"
  by (cases t) (simp_all add: fuzzy_loop.simps(2) Let_def del: find_sub.simps(2) drop_Suc_Cons)

lemma fuzzy_induct [case_names line lines]:
  assumes "\<And>off t. find_sub [LF] t = None \<Longrightarrow> P off t"
    and "\<And>off t i. find_sub [LF] t = Some i \<Longrightarrow> P (off + blen (take i t) + 1) (drop (i + 1) t) \<Longrightarrow> P off t"
  shows "P off t"
proof (induction t arbitrary: off rule: measure_induct_rule [where f = length])
  case (less t)
  show ?case
  proof (cases "find_sub [LF] t")
    case None
    then show ?thesis by (rule assms(1))
  next
    case (Some i)
    then have "length (drop (i + 1) t) < length t" using find_sub_split(2) [OF Some] by simp
    with less Some show ?thesis by (intro assms(2) [OF Some]) blast
  qed
qed

definition normalize_fuzzy_mapped :: "nat list \<Rightarrow> nat list \<times> (nat \<times> nat) list" where
  "normalize_fuzzy_mapped t = (map fst (fuzzy_loop 0 t), map snd (fuzzy_loop 0 t))"

text \<open>
  A character at a time: a character goes when only white space is left of its line, and the line
  feed that ends the text goes too.
\<close>

definition is_blank :: "nat \<Rightarrow> bool" where
  "is_blank c \<longleftrightarrow> white_space c \<and> c \<noteq> LF"

definition dropped :: "nat \<Rightarrow> nat list \<Rightarrow> bool" where
  "dropped c t \<longleftrightarrow>
     c = LF \<and> t = [] \<or> is_blank c \<and> (dropWhile is_blank t = [] \<or> hd (dropWhile is_blank t) = LF)"

fun kept :: "nat \<Rightarrow> nat list \<Rightarrow> mapped list" where
  "kept off [] = []"
| "kept off (c # t) =
     (if dropped c t then kept (off + width c) t
      else (fuzzy_char c, off, width c) # kept (off + width c) t)"

lemma width_LF [simp]: "width LF = 1"
  by (simp add: width_def utf8_put_def)

lemma fuzzy_LF [simp]: "fuzzy_char LF = LF"
  by (simp add: fuzzy_char_def)

lemma blank_LF [simp]: "\<not> is_blank LF"
  by (simp add: is_blank_def)

lemma trim_line_blank: "list_all is_blank t \<Longrightarrow> trim_line t = []"
  by (auto simp: trim_line_def list_all_iff is_blank_def)

lemma trim_line_Cons: "trim_line (c # t) = (if trim_line t = [] then if white_space c then [] else [c] else c # trim_line t)"
  by (auto simp: trim_line_def dropWhile_append3)

lemma trim_line_Nil: "trim_line t = [] \<longleftrightarrow> list_all white_space t"
  by (auto simp: trim_line_def list_all_iff)

lemma dropWhile_blank_line:
  "LF \<notin> set l \<Longrightarrow> rest = [] \<or> hd rest = LF \<Longrightarrow>
   (dropWhile is_blank (l @ rest) = [] \<or> hd (dropWhile is_blank (l @ rest)) = LF) \<longleftrightarrow> list_all white_space l"
proof (induction l)
  case Nil
  then show ?case by (cases rest) auto
qed (auto simp: is_blank_def)

lemma kept_line:
  "LF \<notin> set l \<Longrightarrow> rest = [] \<or> hd rest = LF \<Longrightarrow>
   kept off (l @ rest) = map_line off (trim_line l) @ kept (off + blen l) rest"
proof (induction l arbitrary: off)
  case (Cons c l)
  then have IH: "kept (off + width c) (l @ rest) =
      map_line (off + width c) (trim_line l) @ kept (off + width c + blen l) rest" by simp
  have "dropped c (l @ rest) \<longleftrightarrow> white_space c \<and> list_all white_space l"
    using Cons.prems dropWhile_blank_line [of l rest] by (auto simp: dropped_def is_blank_def)
  then show ?case using IH trim_line_Nil [of l]
    by (cases "trim_line l = []") (simp_all add: trim_line_Cons add.assoc)
qed (simp add: trim_line_def)

lemma find_LF:
  "find_sub [LF] t = Some i \<Longrightarrow> t = take i t @ LF # drop (i + 1) t \<and> LF \<notin> set (take i t)"
proof -
  assume f: "find_sub [LF] t = Some i"
  from find_sub_split(1) [OF f] have "t = take i t @ LF # drop (i + 1) t" by simp
  moreover have "LF \<notin> set (take i t)"
  proof
    assume "LF \<in> set (take i t)"
    then obtain j where "j < i" "j < length t" "t ! j = LF" by (auto simp: in_set_conv_nth)
    then have "take 1 (drop j t) = [LF]" by (simp add: take_Suc hd_drop_conv_nth)
    with find_sub_SomeD [OF f] \<open>j < i\<close> show False by simp
  qed
  ultimately show ?thesis by blast
qed

lemma find_LF_None: "find_sub [LF] t = None \<Longrightarrow> LF \<notin> set t"
  by (induction t) (auto split: if_splits)

lemma fuzzy_loop_kept: "fuzzy_loop off t = kept off t"
proof (induction off t rule: fuzzy_induct)
  case (line off t)
  with kept_line [of t "[]" off] find_LF_None [OF line] show ?case
    by (simp add: fuzzy_loop_line)
next
  case (lines off t i)
  let ?l = "take i t" and ?r = "drop (i + 1) t"
  from find_LF [OF lines(1)] have t: "t = ?l @ LF # ?r" and l: "LF \<notin> set ?l" by auto
  have "kept off t = map_line off (trim_line ?l) @ kept (off + blen ?l) (LF # ?r)"
    by (subst t) (rule kept_line [OF l], simp)
  with lines(2) show ?case
    unfolding fuzzy_loop_lines [OF lines(1)] by (auto simp: dropped_def add.assoc)
qed

text \<open>The plain normalizer, for the text searched for, agrees with the mapped one.\<close>

lemma starts_with_LF [simp]: "starts_with t [LF] \<longleftrightarrow> t \<noteq> [] \<and> hd t = LF"
  by (cases t) (simp_all add: starts_with_def)

lemma text_lines_last: "LF \<notin> set l \<Longrightarrow> l \<noteq> [] \<Longrightarrow> text_lines l = [l]"
proof (induction l)
  case (Cons c l)
  then show ?case by (cases l) auto
qed simp

lemma text_lines_line:
  "LF \<notin> set l \<Longrightarrow> text_lines (l @ LF # r) =
     (if l \<noteq> [] \<and> last l = CR then butlast l else l) # text_lines r"
proof (induction l)
  case (Cons c l)
  then show ?case by (cases l) auto
qed simp

lemma trim_line_butlast: "l \<noteq> [] \<Longrightarrow> last l = CR \<Longrightarrow> trim_line (butlast l) = trim_line l"
  by (cases l rule: rev_cases) (simp_all add: trim_line_def white_space_def)

lemma map_line_fst: "map fst (map_line off t) = map fuzzy_char t"
  by (induction t arbitrary: off) simp_all

lemma text_lines_Nil: "text_lines t = [] \<longleftrightarrow> t = []"
  by (induction t rule: text_lines.induct) (auto split: list.splits)

lemma mapped_is_normal: "map fst (fuzzy_loop off t) = normalize_for_fuzzy_match t"
proof (induction off t rule: fuzzy_induct)
  case (line off t)
  have "normalize_for_fuzzy_match t = map fuzzy_char (trim_line t)"
    using text_lines_last [OF find_LF_None [OF line]]
    by (cases "t = []") (simp_all add: normalize_for_fuzzy_match_def trim_line_def)
  with line show ?case by (simp add: fuzzy_loop_line map_line_fst)
next
  case (lines off t i)
  let ?l = "take i t" and ?r = "drop (i + 1) t"
  from find_LF [OF lines(1)] have t: "t = ?l @ LF # ?r" and l: "LF \<notin> set ?l" by auto
  have ls: "map trim_line (text_lines t) = trim_line ?l # map trim_line (text_lines ?r)"
    by (subst t, subst text_lines_line [OF l]) (auto simp: trim_line_butlast)
  have "normalize_for_fuzzy_match t =
    map fuzzy_char (trim_line ?l) @ (if ?r = [] then [] else LF # normalize_for_fuzzy_match ?r)"
    unfolding normalize_for_fuzzy_match_def ls
    by (cases "map trim_line (text_lines ?r)") (auto simp: text_lines_Nil)
  with lines(2) show ?case
    unfolding fuzzy_loop_lines [OF lines(1)] by (simp add: map_line_fst)
qed

subsection \<open>From fuzzy positions back to the text\<close>

text \<open>What the matched part of a text looks like to the search: the blanks before its line feeds go.\<close>

fun squash :: "nat list \<Rightarrow> nat list" where
  "squash [] = []"
| "squash (c # t) =
     (if is_blank c \<and> dropWhile is_blank t \<noteq> [] \<and> hd (dropWhile is_blank t) = LF then squash t
      else fuzzy_char c # squash t)"

definition mapped_end :: "mapped \<Rightarrow> nat" where
  "mapped_end m = fst (snd m) + snd (snd m)"

lemma dropWhile_keep: "dropWhile P xs \<noteq> [] \<Longrightarrow> dropWhile P (xs @ ys) = dropWhile P xs @ ys"
  by (induction xs) auto

text \<open>A run of kept characters ends where its last source does, and is what its part squashes to.\<close>

lemma kept_prefix:
  "kept off t = M @ B \<Longrightarrow> M \<noteq> [] \<Longrightarrow>
   \<exists>mid post. t = mid @ post \<and> mid \<noteq> [] \<and> off + blen mid = mapped_end (last M) \<and>
     squash mid = map fst M \<and> \<not> dropped (last mid) post"
proof (induction t arbitrary: off M)
  case (Cons c t)
  show ?case
  proof (cases "dropped c t")
    case True
    with Cons.prems(1) have k: "kept (off + width c) t = M @ B" by simp
    from Cons.IH [OF k Cons.prems(2)] obtain mid post where m: "t = mid @ post" "mid \<noteq> []"
      "off + width c + blen mid = mapped_end (last M)" "squash mid = map fst M" "\<not> dropped (last mid) post"
      by blast
    have c: "is_blank c" "dropWhile is_blank t = [] \<or> hd (dropWhile is_blank t) = LF"
      using True m(1,2) by (auto simp: dropped_def)
    have "dropWhile is_blank mid \<noteq> []"
    proof
      assume "dropWhile is_blank mid = []"
      then have "list_all is_blank mid" by (simp add: list_all_iff)
      then have "is_blank (last mid)" "dropWhile is_blank t = dropWhile is_blank post"
        using m(1,2) by (auto simp: list_all_iff)
      with c(2) m(5) show False by (simp add: dropped_def)
    qed
    with c dropWhile_keep [OF this, of post] have "squash (c # mid) = squash mid" by (auto simp: m(1))
    with m show ?thesis by (intro exI [of _ "c # mid"] exI [of _ post]) (simp add: add.assoc)
  next
    case False
    with Cons.prems obtain M' where M: "M = (fuzzy_char c, off, width c) # M'"
      and k: "kept (off + width c) t = M' @ B" by (cases M) auto
    show ?thesis
    proof (cases "M' = []")
      case True
      with M False show ?thesis
        by (intro exI [of _ "[c]"] exI [of _ t]) (simp add: mapped_end_def)
    next
      case M': False
      from Cons.IH [OF k M'] obtain mid post where m: "t = mid @ post" "mid \<noteq> []"
        "off + width c + blen mid = mapped_end (last M')" "squash mid = map fst M'"
        "\<not> dropped (last mid) post" by blast
      have "\<not> (is_blank c \<and> dropWhile is_blank mid \<noteq> [] \<and> hd (dropWhile is_blank mid) = LF)"
      proof
        assume a: "is_blank c \<and> dropWhile is_blank mid \<noteq> [] \<and> hd (dropWhile is_blank mid) = LF"
        with dropWhile_keep [of is_blank mid post] have "hd (dropWhile is_blank t) = LF" by (simp add: m(1))
        with a False show False by (simp add: dropped_def)
      qed
      with m M M' show ?thesis
        by (intro exI [of _ "c # mid"] exI [of _ post]) (auto simp: add.assoc)
    qed
  qed
qed simp

lemma kept_span:
  "kept off t = A @ M @ B \<Longrightarrow> M \<noteq> [] \<Longrightarrow>
   \<exists>pre mid post. t = pre @ mid @ post \<and> off + blen pre = fst (snd (hd M)) \<and>
     off + blen (pre @ mid) = mapped_end (last M) \<and> squash mid = map fst M"
proof (induction t arbitrary: off A)
  case (Cons c t)
  show ?case
  proof (cases "dropped c t \<or> A \<noteq> []")
    case True
    then obtain A' where "kept (off + width c) t = A' @ M @ B"
      using Cons.prems(1) by (cases A) (auto split: if_splits)
    from Cons.IH [OF this Cons.prems(2)] obtain pre mid post where
      "t = pre @ mid @ post" "off + width c + blen pre = fst (snd (hd M))"
      "off + width c + blen (pre @ mid) = mapped_end (last M)" "squash mid = map fst M" by blast
    then show ?thesis
      by (intro exI [of _ "c # pre"] exI [of _ mid] exI [of _ post]) (simp add: add.assoc)
  next
    case False
    with Cons.prems have k: "kept off (c # t) = M @ B" by simp
    from kept_prefix [OF this Cons.prems(2)] obtain mid post where
      m: "c # t = mid @ post" "off + blen mid = mapped_end (last M)" "squash mid = map fst M" by blast
    have "fst (snd (hd M)) = off" using k Cons.prems(2) False by (cases M) auto
    with m show ?thesis by (intro exI [of _ "[]"] exI [of _ mid] exI [of _ post]) simp
  qed
qed simp

subsection \<open>Resolution\<close>

datatype match_kind = Exact | Fuzzy | Repaired

datatype resolution = Found (found_start: nat) (found_end: nat) (found_kind: match_kind)
  | Duplicate nat | NotFound

definition index :: "'a list \<Rightarrow> nat \<Rightarrow> 'a option" where
  "index xs i = (if i < length xs then Some (xs ! i) else None)"

definition map_span :: "nat list \<Rightarrow> (nat \<times> nat) list \<Rightarrow> nat \<Rightarrow> nat \<Rightarrow> (nat \<times> nat) option" where
  "map_span fuzzy m fstart flen =
     do {
       (a, _) \<leftarrow> split_at fstart fuzzy;
       (b, _) \<leftarrow> split_at (fstart + flen) fuzzy;
       (start, _) \<leftarrow> index m (length a);
       (last_start, last_len) \<leftarrow> (if b = [] then None else index m (length b - 1));
       Some (start, last_start + last_len)
     }"

definition resolve :: "nat list \<Rightarrow> nat list \<Rightarrow> resolution option" where
  "resolve content old =
     (let exact = count_matches old content in
      if exact = 1
      then map_option (\<lambda>start. Found start (start + blen old) Exact) (find_bytes old content)
      else if 1 < exact then Some (Duplicate exact)
      else
        (let (fuzzy_content, m) = normalize_fuzzy_mapped content;
             fuzzy_old = normalize_for_fuzzy_match old in
         if fuzzy_old = [] then Some NotFound
         else
           (let fuzzy_count = count_matches fuzzy_old fuzzy_content in
            if 1 < fuzzy_count then Some (Duplicate fuzzy_count)
            else if fuzzy_count = 0 then Some NotFound
            else
              do {
                fstart \<leftarrow> find_bytes fuzzy_old fuzzy_content;
                (start, end) \<leftarrow> map_span fuzzy_content m fstart (blen fuzzy_old);
                Some (Found start end Fuzzy)
              })))"

text \<open>The matched part, with both ends of the span on character boundaries.\<close>

definition spans :: "nat list \<Rightarrow> nat \<Rightarrow> nat \<Rightarrow> nat list \<Rightarrow> nat list \<Rightarrow> nat list \<Rightarrow> bool" where
  "spans t s e pre mid post \<longleftrightarrow>
     t = pre @ mid @ post \<and> split_at s t = Some (pre, mid @ post) \<and> split_at e t = Some (pre @ mid, post)"

lemma spans_blen: "spans (pre @ mid @ post) (blen pre) (blen pre + blen mid) pre mid post"
  using split_at_boundary [of pre "mid @ post"] split_at_boundary [of "pre @ mid" post]
  by (simp add: spans_def)

lemma find_bytes_spans:
  assumes "find_bytes p t = Some s"
  obtains pre post where "spans t s (s + blen p) pre p post"
proof -
  from assms obtain i where i: "find_sub p t = Some i" "s = blen (take i t)"
    by (auto simp: find_bytes_def)
  have "t = take i t @ p @ drop (i + length p) t" by (rule find_sub_split(1) [OF i(1)])
  with spans_blen [of "take i t" p "drop (i + length p) t"] i(2) that show thesis by metis
qed

lemma map_span_spans:
  assumes f: "find_bytes p (map fst (kept 0 t)) = Some fs" and p: "p \<noteq> []"
  obtains s e pre mid post where
    "map_span (map fst (kept 0 t)) (map snd (kept 0 t)) fs (blen p) = Some (s, e)"
    "spans t s e pre mid post" "squash mid = p"
proof -
  let ?k = "kept 0 t"
  from find_bytes_spans [OF f] obtain a b where
    ab: "spans (map fst ?k) fs (fs + blen p) a p b" .
  then have "map fst ?k = a @ p @ b" by (simp add: spans_def)
  then obtain A M B where k: "?k = A @ M @ B" "map fst A = a" "map fst M = p" "map fst B = b"
    by (metis (no_types, opaque_lifting) append_eq_map_conv)
  with p have M: "M \<noteq> []" by auto
  from kept_span [OF k(1) M] obtain pre mid post where
    m: "t = pre @ mid @ post" "blen pre = fst (snd (hd M))" "blen (pre @ mid) = mapped_end (last M)"
      "squash mid = p" using k(3) by auto
  have "index (map snd ?k) (length a) = Some (snd (hd M))"
    using k M by (auto simp: index_def nth_append hd_conv_nth)
  moreover have "index (map snd ?k) (length (a @ p) - 1) = Some (snd (last M))"
    using k M by (cases M rule: rev_cases) (auto simp: index_def nth_append)
  ultimately have "map_span (map fst ?k) (map snd ?k) fs (blen p) = Some (blen pre, blen pre + blen mid)"
    using ab p m(2,3) by (cases "snd (hd M)"; cases "snd (last M)")
      (simp add: map_span_def spans_def mapped_end_def)
  with spans_blen [of pre mid post] m(1,4) that show thesis by blast
qed

lemma resolve_found:
  assumes old: "old \<noteq> []"
  obtains (exact) s e pre post where "resolve content old = Some (Found s e Exact)"
      "spans content s e pre old post" "count_matches old content = 1"
  | (fuzzy) s e pre mid post where "resolve content old = Some (Found s e Fuzzy)"
      "spans content s e pre mid post" "squash mid = normalize_for_fuzzy_match old"
      "count_matches old content = 0"
      "count_matches (normalize_for_fuzzy_match old) (normalize_for_fuzzy_match content) = 1"
  | (many) n where "resolve content old = Some (Duplicate n)" "1 < n"
  | (none) "resolve content old = Some NotFound" "find_sub old content = None"
proof -
  let ?f = "normalize_for_fuzzy_match old" and ?c = "map fst (kept 0 content)"
  have c: "?c = normalize_for_fuzzy_match content"
    using mapped_is_normal [of 0 content] by (simp add: fuzzy_loop_kept)
  consider "count_matches old content = 1" | "1 < count_matches old content"
    | "count_matches old content = 0" by linarith
  then show thesis
  proof cases
    case 1
    with count_matches_find [OF old, of content] obtain s where s: "find_bytes old content = Some s"
      by (auto simp: find_bytes_def)
    from find_bytes_spans [OF s] obtain pre post where "spans content s (s + blen old) pre old post" .
    with 1 s exact show thesis by (simp add: resolve_def)
  next
    case 2
    with many show thesis by (simp add: resolve_def)
  next
    case 3
    then have nf: "find_sub old content = None" using count_matches_find [OF old] by blast
    have r: "resolve content old =
       (if ?f = [] then Some NotFound
        else if 1 < count_matches ?f ?c then Some (Duplicate (count_matches ?f ?c))
        else if count_matches ?f ?c = 0 then Some NotFound
        else do { fstart \<leftarrow> find_bytes ?f ?c;
                  (start, end) \<leftarrow> map_span ?c (map snd (kept 0 content)) fstart (blen ?f);
                  Some (Found start end Fuzzy) })"
      using 3 by (simp add: resolve_def normalize_fuzzy_mapped_def fuzzy_loop_kept Let_def)
    show thesis
    proof (cases "?f \<noteq> [] \<and> count_matches ?f ?c = 1")
      case True
      then obtain fs where fs: "find_bytes ?f ?c = Some fs"
        using count_matches_find [of ?f ?c] by (auto simp: find_bytes_def)
      from map_span_spans [OF fs] True obtain s e pre mid post where
        "map_span ?c (map snd (kept 0 content)) fs (blen ?f) = Some (s, e)"
        "spans content s e pre mid post" "squash mid = ?f" by blast
      with r True fs 3 fuzzy show thesis unfolding c by simp
    next
      case False
      with r nf none many [of "count_matches ?f ?c"] show thesis by (auto split: if_splits)
    qed
  qed
qed

lemma resolve_returns: "old \<noteq> [] \<Longrightarrow> \<exists>r. resolve content old = Some r"
  by (rule resolve_found [of old content]) auto

end
