(* ===== verification/Tools_Files.thy ===== *)
theory Tools_Files
  imports Tools_Match Json "HOL-Library.List_Lexorder" "HOL-Library.Char_ord"
begin

text \<open>
  \<^verbatim>\<open>path.rs\<close>, \<^verbatim>\<open>read.rs\<close> and \<^verbatim>\<open>write.rs\<close> of \<^verbatim>\<open>plugins/kn9t-tools\<close>: paths, the map of observed files
  with its digests and times, reading, listing, images, and writing behind the stale check.
\<close>

subsection \<open>Paths\<close>

text \<open>
  A \<^verbatim>\<open>PathBuf\<close> is compared by its components, so it is their list: repeated separators and inner
  dots do not count, a leading dot does, and nothing resolves \<^verbatim>\<open>..\<close>.
\<close>

type_synonym path = "string list"

definition root_dir :: string where "root_dir = ''/''"

definition is_absolute :: "string \<Rightarrow> bool" where
  "is_absolute p \<longleftrightarrow> starts_with p ''/''"

definition components :: "string \<Rightarrow> path" where
  "components p =
     (let parts = split_on CHR ''/'' p in
      (if is_absolute p then [root_dir] else if hd parts = ''.'' then [''.''] else []) @
      filter (\<lambda>c. c \<noteq> '''' \<and> c \<noteq> ''.'') parts)"

definition path_join :: "string \<Rightarrow> string \<Rightarrow> string" where
  "path_join base p =
     (if is_absolute p then p
      else if base = '''' \<or> last base = CHR ''/'' then base @ p
      else base @ ''/'' @ p)"

definition resolve_path :: "string \<Rightarrow> string option \<Rightarrow> path" where
  "resolve_path p cwd =
     (if is_absolute p then components p
      else (case cwd of Some base \<Rightarrow> components (path_join base p) | None \<Rightarrow> components p))"

definition file_name :: "path \<Rightarrow> string option" where
  "file_name p = (if p = [] \<or> last p \<in> {root_dir, ''..'', ''.''} then None else Some (last p))"

text \<open>What follows the last dot; a name that only starts with a dot has none.\<close>

definition extension :: "path \<Rightarrow> string option" where
  "extension p =
     Option.bind (file_name p) (\<lambda>n.
       let parts = split_on CHR ''.'' n in
       if length parts < 2 \<or> length parts = 2 \<and> hd parts = '''' then None else Some (last parts))"

lemma split_on_append:
  "split_on c (a @ c # b) = split_on c a @ split_on c b"
  by (induction a) (auto split: list.splits)

lemma split_on_hd: "split_on c (x # s) = (if x = c then [] # split_on c s else (x # hd (split_on c s)) # tl (split_on c s))"
  by (cases "split_on c s") auto

lemma relative_hd: "hd (split_on CHR ''/'' p) = '''' \<Longrightarrow> \<not> is_absolute p \<Longrightarrow> p = ''''"
  by (cases p) (auto simp: is_absolute_def starts_with_def split: list.splits)

text \<open>A relative path lands below the directory of the session.\<close>

lemma path_join_components:
  assumes "\<not> is_absolute p" and "base \<noteq> ''''"
  shows "components (path_join base p) =
    components base @ filter (\<lambda>c. c \<noteq> '''' \<and> c \<noteq> ''.'') (split_on CHR ''/'' p)"
proof -
  have abs: "is_absolute (base @ r) = is_absolute base" for r
    using assms(2) by (cases base) (simp_all add: is_absolute_def starts_with_def)
  have hd: "hd (split_on CHR ''/'' (base @ CHR ''/'' # r)) = hd (split_on CHR ''/'' base)" for r
    by (simp add: split_on_append hd_append)
  show ?thesis
  proof (cases "last base = CHR ''/''")
    case True
    then obtain b where b: "base = b @ [CHR ''/'']" using assms(2) by (cases base rule: rev_cases) auto
    then have "split_on CHR ''/'' (base @ p) = split_on CHR ''/'' b @ split_on CHR ''/'' p"
      and "split_on CHR ''/'' base = split_on CHR ''/'' b @ [[]]"
      using split_on_append [of "CHR ''/''" b p] split_on_append [of "CHR ''/''" b "[]"] by simp_all
    with True assms abs [of p] show ?thesis
      by (simp add: path_join_def components_def Let_def hd_append)
  next
    case False
    with assms abs [of "''/'' @ p"] hd [of p] show ?thesis
      by (simp add: path_join_def components_def Let_def split_on_append)
  qed
qed

lemma resolve_below:
  "\<not> is_absolute p \<Longrightarrow> base \<noteq> '''' \<Longrightarrow>
   take (length (components base)) (resolve_path p (Some base)) = components base"
  by (simp add: resolve_path_def path_join_components)

subsection \<open>Files and what was observed of them\<close>

text \<open>
  A file is its bytes and its time of modification; writing a file gives it the time of the clock.
  The tools keep a map from paths to the digest and the time of what they last saw there. The files
  are under absolute paths; the map is under paths as they are given, and a relative one is a place
  below the directory of the process.

  A call makes several accesses to the file system, and other processes run between them: \<open>w_others\<close> is
  what they do in the gaps of the calls to come, gap by gap, and \<open>gap\<close> lets it happen. \<open>w_room\<close> is how
  many bytes of a file the disk takes before a write fails.
\<close>

datatype other = Other_Write nat path "nat list" | Other_Remove nat path

record tool_world =
  w_files :: "path \<Rightarrow> (nat list \<times> nat) option"
  w_dirs :: "path \<Rightarrow> bool"
  w_dir_time :: "path \<Rightarrow> nat"
  w_listing :: "path \<Rightarrow> (string \<times> bool) list option"
  w_no_read :: "path \<Rightarrow> bool"
  w_no_write :: "path \<Rightarrow> bool"
  w_room :: "path \<Rightarrow> nat"
  w_others :: "other list list"
  w_clock :: nat
  w_cwd :: path
  w_tracked :: "path \<Rightarrow> (nat list \<times> nat) option"

definition fnv :: "nat list \<Rightarrow> 64 word" where
  "fnv bs = foldl (\<lambda>h b. h * 0x100000001b3 + of_nat b) 0xcbf29ce484222325 bs"

definition le8 :: "64 word \<Rightarrow> nat list" where
  "le8 h = map (\<lambda>i. unat (take_bit 8 (drop_bit (8 * i) h))) [0..<8]"

definition sha256 :: "nat list \<Rightarrow> nat list" where
  "sha256 bs =
     (let h = fnv bs in
      le8 h @ le8 (word_rotl 17 h) @ le8 (word_rotl 31 h) @ le8 (word_rotl 47 h))"

lemma sha256_cong: "fnv a = fnv b \<Longrightarrow> sha256 a = sha256 b"
  by (simp add: sha256_def)

definition locus :: "tool_world \<Rightarrow> path \<Rightarrow> path" where
  "locus w p = (if p \<noteq> [] \<and> hd p = root_dir then p else w_cwd w @ filter (\<lambda>c. c \<noteq> ''.'') p)"

lemma locus_frame [simp]:
  "locus (w\<lparr>w_files := f\<rparr>) p = locus w p" "locus (w\<lparr>w_dirs := D\<rparr>) p = locus w p"
  "locus (w\<lparr>w_clock := n\<rparr>) p = locus w p" "locus (w\<lparr>w_tracked := T\<rparr>) p = locus w p"
  "locus (w\<lparr>w_others := os\<rparr>) p = locus w p"
  by (simp_all add: locus_def)

definition put_file :: "path \<Rightarrow> nat list \<Rightarrow> tool_world \<Rightarrow> tool_world" where
  "put_file q bs w = w\<lparr>w_files := (w_files w)(q := Some (bs, w_clock w))\<rparr>"

definition pass_time :: "nat \<Rightarrow> tool_world \<Rightarrow> tool_world" where
  "pass_time dt w = w\<lparr>w_clock := w_clock w + dt\<rparr>"

definition outside_write :: "path \<Rightarrow> nat list \<Rightarrow> tool_world \<Rightarrow> tool_world" where
  "outside_write q bs w = (if w_dirs w q then w else put_file q bs w)"

definition outside_remove :: "path \<Rightarrow> tool_world \<Rightarrow> tool_world" where
  "outside_remove q w = w\<lparr>w_files := (w_files w)(q := None)\<rparr>"

fun other_step :: "other \<Rightarrow> tool_world \<Rightarrow> tool_world" where
  "other_step (Other_Write dt q bs) w = outside_write q bs (pass_time dt w)"
| "other_step (Other_Remove dt q) w = outside_remove q (pass_time dt w)"

definition gap :: "tool_world \<Rightarrow> tool_world" where
  "gap w = (case w_others w of [] \<Rightarrow> w | os # rest \<Rightarrow> fold other_step os (w\<lparr>w_others := rest\<rparr>))"

lemma gap_calm [simp]: "w_others w = [] \<Longrightarrow> gap w = w"
  by (simp add: gap_def)

lemma other_step_frame [simp]:
  "w_dirs (other_step x w) = w_dirs w" "w_cwd (other_step x w) = w_cwd w"
  "w_tracked (other_step x w) = w_tracked w" "w_room (other_step x w) = w_room w"
  "w_no_write (other_step x w) = w_no_write w"
  by (cases x; simp add: outside_write_def outside_remove_def pass_time_def put_file_def)+

lemma others_frame [simp]:
  "w_dirs (fold other_step os w) = w_dirs w" "w_cwd (fold other_step os w) = w_cwd w"
  "w_tracked (fold other_step os w) = w_tracked w" "w_room (fold other_step os w) = w_room w"
  "w_no_write (fold other_step os w) = w_no_write w"
  by (induction os arbitrary: w) simp_all

lemma gap_frame [simp]:
  "w_dirs (gap w) = w_dirs w" "w_cwd (gap w) = w_cwd w" "w_tracked (gap w) = w_tracked w"
  "w_room (gap w) = w_room w" "w_no_write (gap w) = w_no_write w" "locus (gap w) p = locus w p"
  by (simp_all add: gap_def locus_def split: list.split)

lemma put_file_frame [simp]:
  "w_dirs (put_file q bs w) = w_dirs w" "w_cwd (put_file q bs w) = w_cwd w"
  "w_tracked (put_file q bs w) = w_tracked w" "w_clock (put_file q bs w) = w_clock w"
  "w_others (put_file q bs w) = w_others w" "locus (put_file q bs w) p = locus w p"
  "w_files (put_file q bs w) = (w_files w)(q := Some (bs, w_clock w))"
  by (simp_all add: put_file_def locus_def)

definition is_dir :: "tool_world \<Rightarrow> path \<Rightarrow> bool" where
  "is_dir w p \<longleftrightarrow> w_dirs w (locus w p)"

definition file_at :: "tool_world \<Rightarrow> path \<Rightarrow> (nat list \<times> nat) option" where
  "file_at w p = w_files w (locus w p)"

definition read_bytes :: "tool_world \<Rightarrow> path \<Rightarrow> nat list option" where
  "read_bytes w p = (if w_no_read w (locus w p) then None else map_option fst (file_at w p))"

text \<open>\<^verbatim>\<open>metadata(path).and_then(modified).unwrap_or(UNIX_EPOCH)\<close>\<close>

definition mtime_of :: "tool_world \<Rightarrow> path \<Rightarrow> nat" where
  "mtime_of w p =
     (if is_dir w p then w_dir_time w (locus w p)
      else case file_at w p of Some (_, t) \<Rightarrow> t | None \<Rightarrow> 0)"

definition exists_path :: "tool_world \<Rightarrow> path \<Rightarrow> bool" where
  "exists_path w p \<longleftrightarrow> is_dir w p \<or> file_at w p \<noteq> None"

text \<open>
  \<^verbatim>\<open>std::fs::write\<close> opens the file, which creates it or empties it, and writes: when it cannot open it
  nothing changes, but when the disk is full the file is left with what went in.
\<close>

definition write_bytes :: "path \<Rightarrow> nat list \<Rightarrow> tool_world \<Rightarrow> bool \<times> tool_world" where
  "write_bytes p bs w =
     (let q = locus w p in
      if w_dirs w q \<or> w_no_write w q \<or> \<not> w_dirs w (butlast q) then (False, w)
      else if length bs \<le> w_room w q then (True, put_file q bs w)
      else (False, put_file q (take (w_room w q) bs) w))"

definition track :: "path \<Rightarrow> nat list \<Rightarrow> tool_world \<Rightarrow> tool_world" where
  "track p bs w = w\<lparr>w_tracked := (w_tracked w)(p := Some (sha256 bs, mtime_of w p))\<rparr>"

definition track_as_read :: "path \<Rightarrow> tool_world \<Rightarrow> bool \<times> tool_world" where
  "track_as_read p w =
     (case read_bytes w p of None \<Rightarrow> (False, w) | Some bs \<Rightarrow> (True, track p bs (gap w)))"

text \<open>
  The check before a write: the path must be in the map, and the file not newer than the entry.
\<close>

datatype tool_error = Missing string | Cancelled | Not_Observed | Modified_Since | Read_Error
  | Write_Error | Mkdir_Error | Listing_Error | Image_Too_Large nat | Empty_Old | Too_Many nat
  | Not_In_File | No_Changes

definition stale_check :: "tool_world \<Rightarrow> path \<Rightarrow> tool_error option" where
  "stale_check w p =
     (case w_tracked w p of
        None \<Rightarrow> Some Not_Observed
      | Some (_, t) \<Rightarrow> if t < mtime_of w p then Some Modified_Since else None)"

datatype file_output =
    Numbered "(nat \<times> nat list) list"
  | Listing "string list"
  | Picture (pic_uri: string) (pic_mime: string) (pic_name: string) (pic_kb: nat)
  | Wrote nat path
  | Edited path match_kind bool bool
  | Failed tool_error

subsection \<open>Reading\<close>

text \<open>
  The lines of a page with their numbers. \<^verbatim>\<open>start + l\<close> is 64-bit: past it the code panics, in the
  addition or, when that wraps, in slicing backwards; that is \<open>None\<close>.
\<close>

definition page :: "nat \<Rightarrow> nat option \<Rightarrow> nat list list \<Rightarrow> (nat \<times> nat list) list option" where
  "page offset limit ls =
     (let start = min (offset - 1) (length ls) in
      case (case limit of
              None \<Rightarrow> Some (length ls)
            | Some l \<Rightarrow> if int (start + l) \<le> u64_max then Some (min (start + l) (length ls)) else None) of
        None \<Rightarrow> None
      | Some stop \<Rightarrow> Some (map (\<lambda>i. (i + 1, ls ! i)) [start..<stop]))"

definition image_extensions :: "string list" where
  "image_extensions = [''png'', ''jpg'', ''jpeg'', ''gif'', ''webp'', ''svg'']"

definition max_image_size :: nat where "max_image_size = 10 * 1024 * 1024"

definition is_image_file :: "path \<Rightarrow> bool" where
  "is_image_file p =
     (case extension p of None \<Rightarrow> False | Some e \<Rightarrow> map ascii_lower e \<in> set image_extensions)"

definition mime_for_extension :: "string \<Rightarrow> string" where
  "mime_for_extension ext =
     (let e = map ascii_lower ext in
      if e = ''png'' then ''image/png''
      else if e = ''jpg'' \<or> e = ''jpeg'' then ''image/jpeg''
      else if e = ''gif'' then ''image/gif''
      else if e = ''webp'' then ''image/webp''
      else if e = ''svg'' then ''image/svg+xml''
      else ''application/octet-stream'')"

definition read_image :: "(nat list \<Rightarrow> string) \<Rightarrow> path \<Rightarrow> tool_world \<Rightarrow> file_output \<times> tool_world" where
  "read_image b64 p w =
     (case read_bytes w p of
        None \<Rightarrow> (Failed Read_Error, w)
      | Some bs \<Rightarrow>
          if max_image_size < length bs then (Failed (Image_Too_Large (length bs)), w)
          else
            (let mime = mime_for_extension (case extension p of Some e \<Rightarrow> e | None \<Rightarrow> ''png'') in
             (Picture (''data:'' @ mime @ '';base64,'' @ b64 bs) mime
                (case file_name p of Some n \<Rightarrow> n | None \<Rightarrow> ''image'') (length bs div 1024),
              track p bs (gap w))))"

text \<open>Directories first, each part sorted; \<^verbatim>\<open>String\<close> is ordered by its bytes.\<close>

definition list_directory :: "path \<Rightarrow> nat option \<Rightarrow> tool_world \<Rightarrow> file_output" where
  "list_directory p limit w =
     (case w_listing w (locus w p) of
        None \<Rightarrow> Failed Listing_Error
      | Some es \<Rightarrow>
          let dirs = sort (map (\<lambda>e. fst e @ ''/'') (filter snd es));
              files = sort (map fst (filter (\<lambda>e. \<not> snd e) es));
              all = dirs @ files in
          Listing (case limit of Some l \<Rightarrow> take (min l (length all)) all | None \<Rightarrow> all))"

definition read_tool ::
  "(nat list \<Rightarrow> string) \<Rightarrow> json \<Rightarrow> string option \<Rightarrow> bool \<Rightarrow> tool_world \<Rightarrow> file_output option \<times> tool_world" where
  "read_tool b64 args cwd cancelled w =
     (case fld ''path'' dec_str args of
        None \<Rightarrow> (Some (Failed (Missing ''path'')), w)
      | Some s \<Rightarrow>
          let p = resolve_path s cwd;
              offset = max 1 (case fld ''offset'' (dec_uint u64_max) args of Some n \<Rightarrow> n | None \<Rightarrow> 1);
              limit = fld ''limit'' (dec_uint u64_max) args in
          if cancelled then (Some (Failed Cancelled), w)
          else if is_dir w p then (Some (list_directory p limit (gap w)), gap w)
          else if is_image_file p then map_prod Some id (read_image b64 p (gap w))
          else
            (case read_bytes (gap w) p of
               None \<Rightarrow> (Some (Failed Read_Error), gap w)
             | Some bs \<Rightarrow>
                 (map_option Numbered (page offset limit (text_lines (snd (decode_file bs)))),
                  track p bs (gap (gap w)))))"

lemma page_numbers:
  "page offset limit ls = Some out \<Longrightarrow>
   out = map (\<lambda>i. (i + 1, ls ! i)) [min (offset - 1) (length ls)..<
     (case limit of None \<Rightarrow> length ls | Some l \<Rightarrow> min (min (offset - 1) (length ls) + l) (length ls))]"
  by (auto simp: page_def Let_def split: option.splits if_splits)

lemma page_returns:
  "case limit of None \<Rightarrow> True | Some l \<Rightarrow> int (length ls + l) \<le> u64_max \<Longrightarrow> \<exists>out. page offset limit ls = Some out"
  by (auto simp: page_def Let_def min_def split: option.splits)

text \<open>Reading page after page shows every line once, under its own number.\<close>

lemma page_step:
  assumes "int (length ls + k) \<le> u64_max"
  shows "page (1 + i * k) (Some k) ls =
    Some (map (\<lambda>i. (i + 1, ls ! i)) [min (i * k) (length ls)..<min (Suc i * k) (length ls)])"
proof -
  have "int (min (i * k) (length ls) + k) \<le> u64_max" using assms by linarith
  then show ?thesis by (auto simp: page_def Let_def min_def add.commute)
qed

lemma upt_concat:
  assumes "\<And>i. f i \<le> f (Suc i)"
  shows "concat (map (\<lambda>i. map h [f i..<f (Suc i)]) [0..<n]) = map h [f 0..<f n]"
proof (induction n)
  case (Suc n)
  have le: "f 0 \<le> f n" using lift_Suc_mono_le [of f 0 n] assms by simp
  obtain d where d: "f (Suc n) = f n + d" using assms le_Suc_ex by blast
  have "[f 0..<f (Suc n)] = [f 0..<f n] @ [f n..<f (Suc n)]"
    unfolding d by (rule upt_add_eq_append [OF le])
  with Suc.IH show ?case by simp
qed simp

lemma map_opt_all: "map_opt (\<lambda>x. Some (f x)) xs = Some (map f xs)"
  by (induction xs) simp_all

definition with_numbers :: "nat list list \<Rightarrow> (nat \<times> nat list) list" where
  "with_numbers ls = map (\<lambda>i. (i + 1, ls ! i)) [0..<length ls]"

lemma pages_cover:
  assumes "int (length ls + k) \<le> u64_max" and "length ls \<le> n * k"
  shows "\<exists>ps. map_opt (\<lambda>i. page (1 + i * k) (Some k) ls) [0..<n] = Some ps \<and> concat ps = with_numbers ls"
proof -
  define f where "f i = min (i * k) (length ls)" for i
  have "page (1 + i * k) (Some k) ls = Some (map (\<lambda>i. (i + 1, ls ! i)) [f i..<f (Suc i)])" for i
    unfolding f_def by (rule page_step [OF assms(1)])
  then have "map_opt (\<lambda>i. page (1 + i * k) (Some k) ls) [0..<n] =
      Some (map (\<lambda>i. map (\<lambda>i. (i + 1, ls ! i)) [f i..<f (Suc i)]) [0..<n])"
    by (simp only: map_opt_all)
  moreover have "f i \<le> f (Suc i)" for i by (simp add: f_def min_le_iff_disj)
  note upt_concat [of f, OF this, of "\<lambda>i. (i + 1, ls ! i)" n]
  moreover have "f 0 = 0" "f n = length ls" using assms(2) by (simp_all add: f_def)
  ultimately show ?thesis by (simp only: with_numbers_def option.inject) blast
qed

subsection \<open>Writing\<close>

definition chars_of :: "string \<Rightarrow> nat list" where
  "chars_of s = from_utf8_lossy (map of_char s)"

text \<open>
  The directories on the way down are made one by one; what was made before a failure stays.
\<close>

fun make_dirs :: "(path \<Rightarrow> bool) \<Rightarrow> path list \<Rightarrow> tool_world \<Rightarrow> bool \<times> tool_world" where
  "make_dirs denied [] w = (True, w)"
| "make_dirs denied (q # qs) w =
     (if w_dirs w q then make_dirs denied qs w
      else if denied q \<or> w_files w q \<noteq> None then (False, w)
      else make_dirs denied qs (w\<lparr>w_dirs := (w_dirs w)(q := True)\<rparr>))"

definition create_dir_all :: "(path \<Rightarrow> bool) \<Rightarrow> path \<Rightarrow> tool_world \<Rightarrow> bool \<times> tool_world" where
  "create_dir_all denied p w =
     (let q = locus w p in
      if w_dirs w q then (True, w) else make_dirs denied (map (\<lambda>n. take n q) [1..<Suc (length q)]) w)"

definition write_tool ::
  "(path \<Rightarrow> bool) \<Rightarrow> json \<Rightarrow> string option \<Rightarrow> bool \<Rightarrow> tool_world \<Rightarrow> file_output \<times> tool_world" where
  "write_tool denied args cwd cancelled w =
     (case fld ''path'' dec_str args of
        None \<Rightarrow> (Failed (Missing ''path''), w)
      | Some s \<Rightarrow>
      (case fld ''content'' dec_str args of
        None \<Rightarrow> (Failed (Missing ''content''), w)
      | Some content \<Rightarrow>
          let p = resolve_path s cwd; bs = map of_char content; w1 = gap w in
          if cancelled then (Failed Cancelled, w)
          else
            (case if exists_path w p then stale_check w1 p else None of
               Some e \<Rightarrow> (Failed e, w1)
             | None \<Rightarrow>
               (case if butlast p = [] then (True, w1) else create_dir_all denied (butlast p) (gap w1) of
                  (False, w2) \<Rightarrow> (Failed Mkdir_Error, w2)
                | (True, w2) \<Rightarrow>
                  (case write_bytes p bs (gap w2) of
                     (False, w3) \<Rightarrow> (Failed Write_Error, w3)
                   | (True, w3) \<Rightarrow> (Wrote (length bs) p, track p bs (gap w3)))))))"

end
