(* ===== verification/Tools_Edit.thy ===== *)
theory Tools_Edit
  imports Tools_Files
begin

text \<open>
  The tool of \<^verbatim>\<open>plugins/kn9t-tools/src/edit.rs\<close>: locating the text, replacing the span, going back to
  the file's endings and encoding, and the diff it reports. \<open>None\<close> is a panic.
\<close>

subsection \<open>The edit of a file's bytes\<close>

text \<open>
  When neither the text nor its fuzzy form is there, the repaired text is tried, and a match in it
  makes the repair part of the edit.
\<close>

definition locate :: "nat list \<Rightarrow> text_encoding \<Rightarrow> nat list \<Rightarrow> (resolution \<times> nat list \<times> text_encoding) option" where
  "locate content enc old =
     do {
       r \<leftarrow> resolve content old;
       (if r = NotFound then
          (let repaired = repair_mojibake content in
           if repaired \<noteq> content then
             do {
               r2 \<leftarrow> resolve repaired old;
               Some (case r2 of
                       Found s e _ \<Rightarrow> (Found s e Repaired, repaired, Utf8)
                     | other \<Rightarrow> (other, content, enc))
             }
           else Some (r, content, enc))
        else Some (r, content, enc))
     }"

record edited =
  e_bytes :: "nat list"
  e_kind :: match_kind
  e_upgraded :: bool
  e_encoding :: text_encoding
  e_before :: "nat list"
  e_after :: "nat list"

definition edit_bytes :: "nat list \<Rightarrow> nat list \<Rightarrow> nat list \<Rightarrow> (tool_error + edited) option" where
  "edit_bytes raw old new =
     (let (enc, content) = decode_file raw;
          ending = detect_line_ending content;
          new_lf = normalize_to_lf new in
      do {
        (r, base, out) \<leftarrow> locate (normalize_to_lf content) enc (normalize_to_lf old);
        (case r of
           Duplicate n \<Rightarrow> Some (Inl (Too_Many n))
         | NotFound \<Rightarrow> Some (Inl Not_In_File)
         | Found s e kind \<Rightarrow>
             do {
               (before, _) \<leftarrow> split_at s base;
               (_, rest) \<leftarrow> split_at e base;
               let updated = before @ new_lf @ rest in
               if base = updated then Some (Inl No_Changes)
               else
                 (let (bytes, upgraded) = encode_checked out (restore_line_endings updated ending) in
                  Some (Inr \<lparr>e_bytes = bytes, e_kind = kind, e_upgraded = upgraded, e_encoding = out,
                    e_before = base, e_after = updated\<rparr>))
             })
      })"

definition edit_tool :: "json \<Rightarrow> string option \<Rightarrow> bool \<Rightarrow> tool_world \<Rightarrow> file_output option \<times> tool_world" where
  "edit_tool args cwd cancelled w =
     (case fld ''path'' dec_str args of
        None \<Rightarrow> (Some (Failed (Missing ''path'')), w)
      | Some s \<Rightarrow>
      (case fld ''old_string'' dec_str args of
        None \<Rightarrow> (Some (Failed (Missing ''old_string'')), w)
      | Some old \<Rightarrow>
      (case fld ''new_string'' dec_str args of
        None \<Rightarrow> (Some (Failed (Missing ''new_string'')), w)
      | Some new \<Rightarrow>
          let p = resolve_path s cwd in
          if old = '''' then (Some (Failed Empty_Old), w)
          else if cancelled then (Some (Failed Cancelled), w)
          else
            (case stale_check w p of
               Some e \<Rightarrow> (Some (Failed e), w)
             | None \<Rightarrow>
               (case read_bytes (gap w) p of
                  None \<Rightarrow> (Some (Failed Read_Error), gap w)
                | Some raw \<Rightarrow>
                  (case edit_bytes raw (chars_of old) (chars_of new) of
                     None \<Rightarrow> (None, gap w)
                   | Some (Inl e) \<Rightarrow> (Some (Failed e), gap w)
                   | Some (Inr r) \<Rightarrow>
                     (case write_bytes p (e_bytes r) (gap (gap w)) of
                        (False, w1) \<Rightarrow> (Some (Failed Write_Error), w1)
                      | (True, w1) \<Rightarrow>
                          (Some (Edited p (e_kind r) (e_upgraded r)
                             (\<not> e_upgraded r \<and> e_encoding r = Windows1252)),
                           track p (e_bytes r) (gap w1)))))))))"

subsection \<open>No edit panics\<close>

lemma normalize_Nil: "normalize_to_lf t = [] \<longleftrightarrow> t = []"
  by (cases t; cases "hd t = CR"; cases "tl t"; cases "hd (tl t) = LF") auto

lemma spans_split:
  "spans t s e pre mid post \<Longrightarrow> t = pre @ mid @ post"
  "spans t s e pre mid post \<Longrightarrow> split_at s t = Some (pre, mid @ post)"
  "spans t s e pre mid post \<Longrightarrow> split_at e t = Some (pre @ mid, post)"
  unfolding spans_def by blast+

lemma locate_cases:
  assumes old: "old \<noteq> []"
  obtains (found) s e kind pre mid post where
      "locate content enc old = Some (Found s e kind, content, enc)" "spans content s e pre mid post"
      "kind = Exact \<and> mid = old \<and> count_matches old content = 1 \<or>
       kind = Fuzzy \<and> squash mid = normalize_for_fuzzy_match old \<and> find_sub old content = None"
  | (repaired) s e pre mid post where
      "locate content enc old = Some (Found s e Repaired, repair_mojibake content, Utf8)"
      "spans (repair_mojibake content) s e pre mid post"
      "mid = old \<or> squash mid = normalize_for_fuzzy_match old"
  | (many) n where "locate content enc old = Some (Duplicate n, content, enc)"
  | (none) "locate content enc old = Some (NotFound, content, enc)"
  using old
proof (cases rule: resolve_found [where content = content])
  case (exact s e pre post)
  with found show thesis by (simp add: locate_def)
next
  case (fuzzy s e pre mid post)
  have "find_sub old content = None" using count_matches_find [OF old] fuzzy(4) by blast
  with fuzzy found show thesis by (simp add: locate_def)
next
  case (many n)
  with that(3) show thesis by (simp add: locate_def)
next
  case none
  let ?r = "repair_mojibake content"
  show thesis
  proof (cases "?r = content")
    case True
    with none that(4) show thesis by (simp add: locate_def Let_def)
  next
    case False
    show thesis
      using old
    proof (cases rule: resolve_found [where content = ?r])
      case (exact s e pre post)
      with none False repaired show thesis by (simp add: locate_def Let_def)
    next
      case (fuzzy s e pre mid post)
      with none False repaired show thesis by (simp add: locate_def Let_def)
    next
      case (many n)
      with none False that(3) show thesis by (simp add: locate_def Let_def)
    next
      case none2: none
      with none False that(4) show thesis by (simp add: locate_def Let_def)
    qed
  qed
qed

lemma edit_bytes_returns: "old \<noteq> [] \<Longrightarrow> \<exists>r. edit_bytes raw old new = Some r"
proof -
  assume "old \<noteq> []"
  then have old: "normalize_to_lf old \<noteq> []" by (simp add: normalize_Nil)
  obtain enc content where d: "decode_file raw = (enc, content)" by (cases "decode_file raw")
  show ?thesis
    by (rule locate_cases [OF old, of "normalize_to_lf content" enc])
      (auto simp: edit_bytes_def d Let_def spans_split(2,3) split: prod.splits)
qed

subsection \<open>Only the span is rewritten\<close>

text \<open>An encoding as a byte-order mark and the bytes of each character.\<close>

definition bom :: "text_encoding \<Rightarrow> nat list" where
  "bom enc = (case enc of Utf8Bom \<Rightarrow> [0xEF, 0xBB, 0xBF] | Utf16Le \<Rightarrow> [0xFF, 0xFE]
     | Utf16Be \<Rightarrow> [0xFE, 0xFF] | _ \<Rightarrow> [])"

definition text_body :: "text_encoding \<Rightarrow> nat list \<Rightarrow> nat list" where
  "text_body enc t = (case enc of Utf16Le \<Rightarrow> le_bytes (encode_utf16 t) | Utf16Be \<Rightarrow> be_bytes (encode_utf16 t)
     | Windows1252 \<Rightarrow> concat (map cp1252_put t) | _ \<Rightarrow> as_bytes t)"

lemma body_append: "text_body enc (t @ u) = text_body enc t @ text_body enc u"
  by (simp add: text_body_def le_bytes_def be_bytes_def encode_utf16_def split: text_encoding.split)

lemma encode_body: "encode_checked enc t = (bs, False) \<Longrightarrow> bs = bom enc @ text_body enc t"
  using cp1252_bytes_put [of t] cp1252_bytes_None [of t]
  by (auto simp: encode_checked_def bom_def text_body_def split: text_encoding.splits option.splits)

lemma restore_append:
  "restore_line_endings (t @ u) e = restore_line_endings t e @ restore_line_endings u e"
  by (simp add: restore_line_endings_def)

text \<open>A text in the endings and the encoding of a file.\<close>

definition in_file :: "nat list \<Rightarrow> nat list \<Rightarrow> nat list" where
  "in_file raw t =
     (let (enc, content) = decode_file raw in
      text_body enc (restore_line_endings (normalize_to_lf t) (detect_line_ending content)))"

lemma edit_bytes_cases:
  assumes ed: "edit_bytes raw old new = Some (Inr r)" and old: "old \<noteq> []"
    and d: "decode_file raw = (enc, content)"
  obtains (plain) pre mid post where
      "normalize_to_lf content = pre @ mid @ post" "e_encoding r = enc" "e_kind r \<noteq> Repaired"
      "e_before r = pre @ mid @ post" "e_after r = pre @ normalize_to_lf new @ post"
      "encode_checked enc (restore_line_endings (e_after r) (detect_line_ending content)) =
        (e_bytes r, e_upgraded r)"
      "e_kind r = Exact \<Longrightarrow> mid = normalize_to_lf old \<and> count_matches mid (normalize_to_lf content) = 1"
      "e_kind r = Fuzzy \<Longrightarrow> squash mid = normalize_for_fuzzy_match (normalize_to_lf old) \<and>
        find_sub (normalize_to_lf old) (normalize_to_lf content) = None"
  | (repaired) pre mid post where
      "repair_mojibake (normalize_to_lf content) = pre @ mid @ post" "e_encoding r = Utf8"
      "e_kind r = Repaired" "e_before r = pre @ mid @ post" "e_after r = pre @ normalize_to_lf new @ post"
      "e_bytes r = as_bytes (restore_line_endings (e_after r) (detect_line_ending content))"
      "\<not> e_upgraded r"
proof -
  have ne: "normalize_to_lf old \<noteq> []" using old by (simp add: normalize_Nil)
  from ne show thesis
  proof (cases rule: locate_cases [where content = "normalize_to_lf content" and enc = enc])
    case (found s e kind pre mid post)
    with ed show thesis
      using plain [of pre mid post] spans_split [OF found(2)]
      by (auto simp: edit_bytes_def d Let_def split: prod.splits if_splits)
  next
    case (repaired s e pre mid post)
    with ed show thesis
      using that(2) [of pre mid post] spans_split [OF repaired(2)]
      by (auto simp: edit_bytes_def d Let_def encode_checked_def split: prod.splits if_splits)
  next
    case (many n)
    with ed show thesis by (simp add: edit_bytes_def d Let_def)
  next
    case none
    with ed show thesis by (simp add: edit_bytes_def d Let_def)
  qed
qed

lemma edit_span:
  assumes ed: "edit_bytes raw old new = Some (Inr r)" and old: "old \<noteq> []"
    and raw: "list_all is_byte raw" "lossless raw" "uniform (snd (decode_file raw))"
    and up: "\<not> e_upgraded r" "e_kind r \<noteq> Repaired"
  shows "\<exists>A M B. raw = A @ M @ B \<and> e_bytes r = A @ in_file raw new @ B \<and>
    (e_kind r = Exact \<longrightarrow> M = in_file raw old)"
proof -
  obtain enc content where d: "decode_file raw = (enc, content)" by (cases "decode_file raw")
  let ?e = "detect_line_ending content"
  let ?f = "\<lambda>t. text_body enc (restore_line_endings t ?e)"
  from ed old d show ?thesis
  proof (cases rule: edit_bytes_cases)
    case (plain pre mid post)
    have "raw = bom enc @ text_body enc content"
      using encode_body encode_decode_file [OF raw(1,2)] by (simp add: d)
    also have "text_body enc content = ?f (normalize_to_lf content)"
      using restore_normalize [of content] raw(3) by (simp add: d)
    finally have "raw = (bom enc @ ?f pre) @ ?f mid @ ?f post"
      by (simp add: plain(1) restore_append body_append)
    moreover have "e_bytes r = (bom enc @ ?f pre) @ ?f (normalize_to_lf new) @ ?f post"
      using encode_body [of enc "restore_line_endings (e_after r) ?e" "e_bytes r"] plain(5,6) up(1)
      by (simp add: restore_append body_append)
    moreover have "e_kind r = Exact \<longrightarrow> ?f mid = in_file raw old"
      using plain(7) by (simp add: in_file_def d)
    moreover have "?f (normalize_to_lf new) = in_file raw new" by (simp add: in_file_def d)
    ultimately show ?thesis by (metis (no_types, lifting))
  next
    case repaired
    with up(2) show ?thesis by simp
  qed
qed

text \<open>What the tool does to the world: one file when it succeeds or the disk is full, nothing otherwise.\<close>

lemma edit_bytes_error:
  assumes ed: "edit_bytes raw old new = Some (Inl e)"
  shows "e \<noteq> Write_Error"
proof -
  obtain enc content where d: "decode_file raw = (enc, content)" by (cases "decode_file raw")
  from ed obtain r base out where
    l: "locate (normalize_to_lf content) enc (normalize_to_lf old) = Some (r, base, out)"
    by (auto simp: edit_bytes_def d Let_def bind_eq_Some_conv)
  show ?thesis
    by (cases r) (use ed d l in \<open>auto simp: edit_bytes_def Let_def bind_eq_Some_conv split: if_splits prod.splits\<close>)
qed

lemma stale_check_error: "stale_check w p = Some e \<Longrightarrow> e \<noteq> Write_Error"
  by (auto simp: stale_check_def split: option.splits if_splits)

definition edit_done :: "path \<Rightarrow> edited \<Rightarrow> bool \<times> tool_world \<Rightarrow> file_output option \<times> tool_world" where
  "edit_done p r res =
     (if fst res
      then (Some (Edited p (e_kind r) (e_upgraded r) (\<not> e_upgraded r \<and> e_encoding r = Windows1252)),
        track p (e_bytes r) (gap (snd res)))
      else (Some (Failed Write_Error), snd res))"

lemma edit_tool_ends:
  "(\<exists>e w1. edit_tool args cwd c w = (Some (Failed e), w1) \<and> e \<noteq> Write_Error \<and> w1 \<in> {w, gap w}) \<or>
   (\<exists>raw old new. old \<noteq> [] \<and> edit_bytes raw (chars_of old) new = None \<and>
      edit_tool args cwd c w = (None, gap w)) \<or>
   (\<exists>p old new raw r.
      fld ''old_string'' dec_str args = Some old \<and> fld ''new_string'' dec_str args = Some new \<and> old \<noteq> '''' \<and>
      edit_tool args cwd c w = edit_done p r (write_bytes p (e_bytes r) (gap (gap w))) \<and>
      stale_check w p = None \<and> read_bytes (gap w) p = Some raw \<and>
      edit_bytes raw (chars_of old) (chars_of new) = Some (Inr r))"
proof (cases "fld ''path'' dec_str args")
  case (Some s)
  show ?thesis
  proof (cases "fld ''old_string'' dec_str args")
    case old: (Some old)
    show ?thesis
    proof (cases "fld ''new_string'' dec_str args")
      case new: (Some new)
      let ?p = "resolve_path s cwd"
      note def = edit_tool_def Some old new Let_def
      show ?thesis
      proof (cases "stale_check w ?p")
        case st: None
        show ?thesis
        proof (cases "read_bytes (gap w) ?p")
          case raw: (Some raw)
          show ?thesis
          proof (cases "edit_bytes raw (chars_of old) (chars_of new)")
            case (Some x)
            show ?thesis
            proof (cases x)
              case (Inl e)
              with Some show ?thesis using edit_bytes_error by (simp add: def st raw)
            next
              case (Inr r)
              have "edit_tool args cwd c w = edit_done ?p r (write_bytes ?p (e_bytes r) (gap (gap w)))"
                if "old \<noteq> ''''" "\<not> c"
                using that Some Inr by (simp add: def st raw edit_done_def split: prod.split bool.split)
              moreover have "\<exists>e. edit_tool args cwd c w = (Some (Failed e), w) \<and> e \<noteq> Write_Error"
                if "\<not> (old \<noteq> '''' \<and> \<not> c)"
                using that by (auto simp: def)
              ultimately show ?thesis
                using old new st raw Some Inr by blast
            qed
          qed (simp add: def st raw; blast)
        qed (simp add: def st)
      next
        case (Some e)
        with stale_check_error show ?thesis by (simp add: def)
      qed
    qed (simp add: edit_tool_def Some old)
  qed (simp add: edit_tool_def Some)
qed (simp add: edit_tool_def)

lemma write_bytes_cases:
  assumes "write_bytes p bs w = (ok, w1)"
  obtains (written) "ok" "w1 = put_file (locus w p) bs w" "\<not> w_dirs w (locus w p)"
  | (refused) "\<not> ok" "w1 = w"
  | (torn) n where "\<not> ok" "n < length bs" "w1 = put_file (locus w p) (take n bs) w" "\<not> w_dirs w (locus w p)"
proof -
  let ?q = "locus w p"
  consider "w_dirs w ?q \<or> w_no_write w ?q \<or> \<not> w_dirs w (butlast ?q)"
    | "\<not> w_dirs w ?q" "\<not> w_no_write w ?q" "w_dirs w (butlast ?q)" by blast
  then show thesis
  proof cases
    case 1
    with assms refused show thesis by (simp add: write_bytes_def Let_def)
  next
    case 2
    with assms written torn [of "w_room w ?q"] show thesis
      by (simp add: write_bytes_def Let_def not_le split: if_splits)
  qed
qed

lemma edit_tool_edited:
  assumes "edit_tool args cwd c w = (Some (Edited p k u a), w')"
  obtains old new raw r where
    "fld ''old_string'' dec_str args = Some old" "fld ''new_string'' dec_str args = Some new" "old \<noteq> ''''"
    "k = e_kind r" "u = e_upgraded r"
    "w' = track p (e_bytes r) (gap (put_file (locus w p) (e_bytes r) (gap (gap w))))" "stale_check w p = None"
    "read_bytes (gap w) p = Some raw" "edit_bytes raw (chars_of old) (chars_of new) = Some (Inr r)"
  using edit_tool_ends [of args cwd c w] assms
proof (elim disjE exE conjE)
  fix p' old new raw r
  assume "fld ''old_string'' dec_str args = Some old" "fld ''new_string'' dec_str args = Some new" "old \<noteq> ''''"
    and e: "edit_tool args cwd c w = edit_done p' r (write_bytes p' (e_bytes r) (gap (gap w)))"
    and "stale_check w p' = None" "read_bytes (gap w) p' = Some raw"
    "edit_bytes raw (chars_of old) (chars_of new) = Some (Inr r)"
  moreover obtain ok w1 where wr: "write_bytes p' (e_bytes r) (gap (gap w)) = (ok, w1)" by force
  then have "p' = p" "k = e_kind r" "u = e_upgraded r"
    "w' = track p (e_bytes r) (gap (put_file (locus w p) (e_bytes r) (gap (gap w))))"
    using e assms by (auto elim!: write_bytes_cases simp: edit_done_def)
  ultimately show thesis using that by blast
qed (use assms in simp_all)

end
