(* ===== verification/Tools_Guard.thy ===== *)
theory Tools_Guard
  imports Tools_Edit
begin

text \<open>
  \<^verbatim>\<open>plugins/kn9t-tools/src/bash.rs\<close>, and the file tools together: calls interleaved with writes of other
  processes, and what the stale check guarantees over any such history.
\<close>

subsection \<open>Paths named by a command\<close>

definition string_of :: "nat list \<Rightarrow> string" where
  "string_of t = map char_of (as_bytes t)"

definition separator :: "nat \<Rightarrow> bool" where
  "separator c \<longleftrightarrow> white_space c \<or> c = 0x3B \<or> c = 0x7C \<or> c = 0x2C"

definition push_token :: "nat list \<Rightarrow> nat list list \<Rightarrow> nat list list" where
  "push_token cur out = (if cur = [] then out else out @ [cur])"

fun tokenize_from :: "nat option \<Rightarrow> nat list \<Rightarrow> nat list list \<Rightarrow> nat list \<Rightarrow> nat list list" where
  "tokenize_from q cur out [] = push_token cur out"
| "tokenize_from (Some q) cur out (c # cs) =
     (if c = q then tokenize_from None cur out cs else tokenize_from (Some q) (cur @ [c]) out cs)"
| "tokenize_from None cur out (c # cs) =
     (if c = 0x27 \<or> c = 0x22 then tokenize_from (Some c) cur out cs
      else if separator c then tokenize_from None [] (push_token cur out) cs
      else tokenize_from None (cur @ [c]) out cs)"

definition tokenize :: "nat list \<Rightarrow> nat list list" where
  "tokenize cmd = tokenize_from None [] [] cmd"

definition max_tracked :: nat where "max_tracked = 32"

definition is_file :: "tool_world \<Rightarrow> path \<Rightarrow> bool" where
  "is_file w p \<longleftrightarrow> file_at w p \<noteq> None \<and> \<not> is_dir w p"

fun track_tokens :: "nat \<Rightarrow> path list \<Rightarrow> tool_world \<Rightarrow> tool_world" where
  "track_tokens n [] w = w"
| "track_tokens n (p # ps) w =
     (if max_tracked \<le> n then w
      else
        let w1 = gap w in
        if is_file w1 p
        then (case track_as_read p (gap w1) of
                (True, w2) \<Rightarrow> track_tokens (n + 1) ps w2
              | (False, w2) \<Rightarrow> track_tokens n ps w2)
        else track_tokens n ps w1)"

definition track_paths_in :: "string \<Rightarrow> tool_world \<Rightarrow> tool_world" where
  "track_paths_in cmd w =
     track_tokens 0 (map (\<lambda>t. components (string_of t)) (tokenize (chars_of cmd))) w"

subsection \<open>Running a command\<close>

text \<open>
  What the operating system answers, poll by poll, and what the pipes gave; \<open>None\<close> of the exit code
  is a signal. A line that is not UTF-8 is dropped. The readers are joined without a limit: as long
  as some process holds a pipe open the call does not return, which is \<open>None\<close>.
\<close>

datatype exit_status = Exit_Code int | Killed_By_Signal

datatype wait_answer = Still_Running | Exited exit_status | Wait_Error

datatype poll_end = Poll_Cancelled | Poll_Timeout | Poll_Error | Poll_Exit exit_status

record child_poll =
  p_cancelled :: bool
  p_wait :: wait_answer
  p_now :: nat

fun poll_child :: "nat \<Rightarrow> child_poll list \<Rightarrow> poll_end option" where
  "poll_child deadline [] = None"
| "poll_child deadline (p # ps) =
     (if p_cancelled p then Some Poll_Cancelled
      else (case p_wait p of
              Exited s \<Rightarrow> Some (Poll_Exit s)
            | Wait_Error \<Rightarrow> Some Poll_Error
            | Still_Running \<Rightarrow> if deadline \<le> p_now p then Some Poll_Timeout else poll_child deadline ps))"

record child =
  c_spawned :: bool
  c_start :: nat
  c_polls :: "child_poll list"
  c_stdout :: "nat list list"
  c_stderr :: "nat list list"
  c_pipes_close :: bool

datatype bash_output = Bash_Text "nat list" | Bash_Error "nat list" | Bash_Failed string

definition utf8_lines :: "nat list list \<Rightarrow> nat list list" where
  "utf8_lines ls = List.map_filter from_utf8 ls"

definition bash_report :: "exit_status \<Rightarrow> nat list list \<Rightarrow> nat list list \<Rightarrow> bash_output" where
  "bash_report s out err =
     (let o1 = join_with LF out;
          o2 = (if err = [] then o1 else (if o1 = [] then [] else o1 @ [LF]) @ join_with LF err);
          code = (case s of Exit_Code n \<Rightarrow> n | Killed_By_Signal \<Rightarrow> -1);
          shown = map of_char (if code < 0 then ''-'' @ show_nat (nat (- code)) else show_nat (nat code)) in
      if s = Exit_Code 0 then Bash_Text o2
      else
        (let msg = map of_char ''exit '' @ shown @ [LF] @ o2 in
         if out \<noteq> [] then Bash_Text msg else Bash_Error msg))"

definition bash_tool :: "json \<Rightarrow> bool \<Rightarrow> child \<Rightarrow> tool_world \<Rightarrow> bash_output option \<times> tool_world" where
  "bash_tool args cancelled ch w =
     (case fld ''cmd'' dec_str args of
        None \<Rightarrow> (Some (Bash_Failed ''missing 'cmd' argument''), w)
      | Some cmd \<Rightarrow>
          let secs = (case fld ''timeout_secs'' (dec_uint u64_max) args of Some n \<Rightarrow> n | None \<Rightarrow> 120) in
          if cancelled then (Some (Bash_Failed ''cancelled before start''), w)
          else if \<not> c_spawned ch then (Some (Bash_Failed ''spawn failed''), w)
          else
            (case poll_child (c_start ch + secs * 1000) (c_polls ch) of
               None \<Rightarrow> (None, w)
             | Some Poll_Error \<Rightarrow> (Some (Bash_Failed ''wait error''), w)
             | Some Poll_Cancelled \<Rightarrow> (if c_pipes_close ch then Some (Bash_Failed ''cancelled'') else None, w)
             | Some Poll_Timeout \<Rightarrow> (if c_pipes_close ch then Some (Bash_Failed ''timed out'') else None, w)
             | Some (Poll_Exit s) \<Rightarrow>
                 if c_pipes_close ch
                 then (Some (bash_report s (utf8_lines (c_stdout ch)) (utf8_lines (c_stderr ch))),
                   track_paths_in cmd w)
                 else (None, w)))"

lemma poll_child_ends:
  assumes "p \<in> set ps" and "deadline \<le> p_now p"
  shows "poll_child deadline ps \<noteq> None"
  using assms by (induction ps) (auto split: wait_answer.splits)

text \<open>With pipes that close and a clock that reaches the deadline the call returns.\<close>

lemma bash_returns:
  assumes "c_pipes_close ch" and "\<exists>p \<in> set (c_polls ch). c_start ch +
    (case fld ''timeout_secs'' (dec_uint u64_max) args of Some n \<Rightarrow> n | None \<Rightarrow> 120) * 1000 \<le> p_now p"
  shows "fst (bash_tool args cancelled ch w) \<noteq> None"
proof (cases "fld ''cmd'' dec_str args")
  case None
  then show ?thesis by (simp add: bash_tool_def)
next
  case (Some cmd)
  let ?d = "c_start ch +
    (case fld ''timeout_secs'' (dec_uint u64_max) args of Some n \<Rightarrow> n | None \<Rightarrow> 120) * 1000"
  from assms(2) obtain r where "poll_child ?d (c_polls ch) = Some r" using poll_child_ends by blast
  with Some assms(1) show ?thesis by (cases r) (auto simp: bash_tool_def Let_def)
qed

subsection \<open>Histories\<close>

text \<open>
  What happens, some ticks after what happened before: another process writes or removes a file, a call
  is made, or it is fixed what other processes will do between the accesses of the next calls. The
  encoder of images and the refusals of the operating system are parameters.
\<close>

datatype tool_event =
    Outside_Write path "nat list"
  | Outside_Remove path
  | Call_Read json "string option" bool
  | Call_Write json "string option" bool
  | Call_Edit json "string option" bool
  | Call_Bash json bool child
  | Interleave "other list list"

fun tool_step ::
  "(nat list \<Rightarrow> string) \<Rightarrow> (path \<Rightarrow> bool) \<Rightarrow> nat \<times> tool_event \<Rightarrow> tool_world \<Rightarrow> tool_world" where
  "tool_step b64 denied (dt, Outside_Write q bs) w = outside_write q bs (pass_time dt w)"
| "tool_step b64 denied (dt, Outside_Remove q) w = outside_remove q (pass_time dt w)"
| "tool_step b64 denied (dt, Call_Read args cwd c) w = snd (read_tool b64 args cwd c (pass_time dt w))"
| "tool_step b64 denied (dt, Call_Write args cwd c) w = snd (write_tool denied args cwd c (pass_time dt w))"
| "tool_step b64 denied (dt, Call_Edit args cwd c) w = snd (edit_tool args cwd c (pass_time dt w))"
| "tool_step b64 denied (dt, Call_Bash args c ch) w = snd (bash_tool args c ch (pass_time dt w))"
| "tool_step b64 denied (dt, Interleave gs) w = (pass_time dt w)\<lparr>w_others := gs\<rparr>"

definition tool_run ::
  "(nat list \<Rightarrow> string) \<Rightarrow> (path \<Rightarrow> bool) \<Rightarrow> (nat \<times> tool_event) list \<Rightarrow> tool_world \<Rightarrow> tool_world" where
  "tool_run b64 denied evs w = fold (tool_step b64 denied) evs w"

text \<open>The clock tells the events apart, and no other process acts inside a call.\<close>

fun told_apart :: "nat \<times> tool_event \<Rightarrow> bool" where
  "told_apart (dt, Interleave gs) \<longleftrightarrow> 0 < dt \<and> gs = []"
| "told_apart (dt, e) \<longleftrightarrow> 0 < dt"

text \<open>
  The invariant: an entry no older than its file holds the digest of the file; nothing is from the
  future.
\<close>

definition fresh :: "tool_world \<Rightarrow> bool" where
  "fresh w \<longleftrightarrow>
     (\<forall>q. w_dirs w q \<longrightarrow> w_files w q = None) \<and>
     (\<forall>q bs t. w_files w q = Some (bs, t) \<longrightarrow> t \<le> w_clock w) \<and>
     (\<forall>p d u bs t. w_tracked w p = Some (d, u) \<longrightarrow> file_at w p = Some (bs, t) \<longrightarrow> t \<le> u \<longrightarrow>
        d = sha256 bs) \<and>
     (\<forall>p d u. w_tracked w p = Some (d, u) \<longrightarrow> u \<le> w_clock w)"

definition mtimes_past :: "tool_world \<Rightarrow> bool" where
  "mtimes_past w \<longleftrightarrow> (\<forall>p d u. w_tracked w p = Some (d, u) \<longrightarrow> u < w_clock w)"

lemma freshD:
  assumes "fresh w"
  shows "w_dirs w q \<Longrightarrow> w_files w q = None" "w_files w q = Some (bs, t) \<Longrightarrow> t \<le> w_clock w"
    "w_tracked w p = Some (d, u) \<Longrightarrow> file_at w p = Some (bs, t) \<Longrightarrow> t \<le> u \<Longrightarrow> d = sha256 bs"
    "w_tracked w p = Some (d, u) \<Longrightarrow> u \<le> w_clock w"
  using assms unfolding fresh_def by blast+

lemma file_no_dir: "fresh w \<Longrightarrow> file_at w p = Some (bs, t) \<Longrightarrow> \<not> is_dir w p"
  using freshD(1) by (fastforce simp: file_at_def is_dir_def)

lemma read_bytes_file: "read_bytes w p = Some bs \<Longrightarrow> \<exists>t. file_at w p = Some (bs, t)"
  by (auto simp: read_bytes_def split: if_splits)

lemma track_frame [simp]:
  "w_files (track p bs w) = w_files w" "w_dirs (track p bs w) = w_dirs w" "w_clock (track p bs w) = w_clock w"
  "w_cwd (track p bs w) = w_cwd w" "file_at (track p bs w) q = file_at w q" "w_others (track p bs w) = w_others w"
  "w_tracked (track p bs w) = (w_tracked w)(p := Some (sha256 bs, mtime_of w p))"
  by (simp_all add: track_def file_at_def locus_def)

lemma fresh_track:
  assumes "fresh w" and f: "file_at w p = Some (bs, t)"
  shows "fresh (track p bs w)"
proof -
  have "mtime_of w p = t" using file_no_dir [OF assms] f by (simp add: mtime_of_def)
  moreover have "t \<le> w_clock w" using f freshD(2) [OF assms(1)] by (simp add: file_at_def)
  ultimately show ?thesis using assms by (auto simp: fresh_def)
qed

lemma fresh_time: "fresh w \<Longrightarrow> fresh (pass_time dt w)"
  by (auto simp: fresh_def pass_time_def file_at_def locus_def intro: trans_le_add1)

lemma older_time: "fresh w \<Longrightarrow> 0 < dt \<Longrightarrow> mtimes_past (pass_time dt w)"
  using freshD(4) by (fastforce simp: mtimes_past_def pass_time_def)

lemma fresh_put:
  assumes "fresh w" "mtimes_past w" "\<not> w_dirs w q"
  shows "fresh (put_file q bs w)"
proof -
  let ?w = "put_file q bs w"
  have "d = sha256 ds" if "w_tracked w p = Some (d, u)" "file_at ?w p = Some (ds, t)" "t \<le> u" for p d u ds t
  proof (cases "locus w p = q")
    case True
    with that(2) have "t = w_clock w" by (simp add: file_at_def)
    with that(1,3) assms(2) show ?thesis by (fastforce simp: mtimes_past_def)
  next
    case False
    with that(2) have "file_at w p = Some (ds, t)" by (simp add: file_at_def)
    with that(1,3) freshD(3) [OF assms(1)] show ?thesis by blast
  qed
  with assms show ?thesis by (auto simp: fresh_def)
qed

lemma fresh_remove: "fresh w \<Longrightarrow> fresh (outside_remove q w)"
  by (auto simp: fresh_def outside_remove_def file_at_def locus_def split: if_splits)

lemma fresh_written: "fresh w \<Longrightarrow> mtimes_past w \<Longrightarrow> \<not> w_dirs w (locus w p) \<Longrightarrow>
    fresh (track p bs (put_file (locus w p) bs w))"
  by (rule fresh_track [of _ p bs "w_clock w"]) (auto simp: fresh_put file_at_def)

text \<open>What other processes did in a gap keeps no such promise: the rest is about calls without.\<close>

definition calm :: "tool_world \<Rightarrow> bool" where
  "calm w \<longleftrightarrow> w_others w = []"

lemma calm_gap [simp]: "calm w \<Longrightarrow> gap w = w"
  by (simp add: calm_def)

lemma calm_id: "calm w \<Longrightarrow> w\<lparr>w_others := []\<rparr> = w"
  by (cases w) (simp add: calm_def)

lemma calm_frame [simp]:
  "calm (track p bs w) = calm w" "calm (put_file q bs w) = calm w" "calm (pass_time dt w) = calm w"
  "calm (outside_write q bs w) = calm w" "calm (outside_remove q w) = calm w"
  "calm (w\<lparr>w_dirs := D\<rparr>) = calm w"
  by (simp_all add: calm_def pass_time_def outside_write_def outside_remove_def)

definition guard_ok :: "tool_world \<Rightarrow> bool" where
  "guard_ok w \<longleftrightarrow> fresh w \<and> mtimes_past w \<and> calm w"

lemma guard_ok_dirs:
  "guard_ok w \<Longrightarrow> w_files w q = None \<Longrightarrow> guard_ok (w\<lparr>w_dirs := (w_dirs w)(q := True)\<rparr>)"
  by (auto simp: guard_ok_def fresh_def mtimes_past_def file_at_def)

lemma make_dirs_frame:
  "make_dirs denied qs w = (ok, w1) \<Longrightarrow> \<exists>D. w1 = w\<lparr>w_dirs := D\<rparr> \<and> (guard_ok w \<longrightarrow> guard_ok w1)"
proof (induction qs arbitrary: w)
  case Nil
  then show ?case by (intro exI [of _ "w_dirs w"]) simp
next
  case (Cons q qs)
  show ?case
  proof (cases "w_dirs w q \<or> (\<not> denied q \<and> w_files w q = None)")
    case True
    let ?w = "if w_dirs w q then w else w\<lparr>w_dirs := (w_dirs w)(q := True)\<rparr>"
    have "make_dirs denied qs ?w = (ok, w1)" using Cons.prems True by (auto split: if_splits)
    from Cons.IH [OF this] True show ?thesis using guard_ok_dirs [of w q] by (auto split: if_splits)
  next
    case False
    with Cons.prems have "w1 = w" by simp
    then show ?thesis by (intro exI [of _ "w_dirs w"]) simp
  qed
qed

lemma mkdirs_frame:
  assumes "create_dir_all denied p w = (ok, w1)"
  shows "\<exists>D. w1 = w\<lparr>w_dirs := D\<rparr> \<and> (guard_ok w \<longrightarrow> guard_ok w1)"
proof (cases "w_dirs w (locus w p)")
  case True
  with assms show ?thesis by (intro exI [of _ "w_dirs w"]) (simp add: create_dir_all_def Let_def)
next
  case False
  with assms show ?thesis by (intro make_dirs_frame) (simp add: create_dir_all_def Let_def)
qed

lemma fresh_track_read: "fresh w \<Longrightarrow> read_bytes w p = Some bs \<Longrightarrow> fresh (track p bs w)"
  using fresh_track read_bytes_file by blast

lemma fresh_read: "guard_ok w \<Longrightarrow> fresh (snd (read_tool b64 args cwd c w)) \<and> calm (snd (read_tool b64 args cwd c w))"
  by (auto simp: read_tool_def read_image_def Let_def guard_ok_def intro: fresh_track_read split: option.split)

lemma fresh_tokens: "fresh w \<and> calm w \<Longrightarrow> fresh (track_tokens n ps w) \<and> calm (track_tokens n ps w)"
proof (induction ps arbitrary: n w)
  case (Cons p ps)
  show ?case
  proof (cases "read_bytes w p")
    case None
    with Cons show ?thesis by (simp add: track_as_read_def Let_def)
  next
    case (Some bs)
    with Cons.prems fresh_track_read have "fresh (track p bs w) \<and> calm (track p bs w)" by auto
    with Cons Some show ?thesis by (simp add: track_as_read_def Let_def)
  qed
qed simp

lemma fresh_bash: "guard_ok w \<Longrightarrow> fresh (snd (bash_tool args c ch w)) \<and> calm (snd (bash_tool args c ch w))"
  using fresh_tokens [of w]
  by (auto simp: bash_tool_def Let_def track_paths_in_def guard_ok_def split: option.split poll_end.split)

text \<open>The ways an edit or a write ends, in a world where nobody interferes.\<close>

lemma edit_tool_calm:
  assumes "calm w"
  shows "snd (edit_tool args cwd c w) = w \<or>
    (\<exists>p bs. stale_check w p = None \<and> \<not> w_dirs w (locus w p) \<and>
       (snd (edit_tool args cwd c w) = put_file (locus w p) bs w \<or>
        snd (edit_tool args cwd c w) = track p bs (put_file (locus w p) bs w)))"
  using edit_tool_ends [of args cwd c w]
proof (elim disjE exE conjE)
  fix p r
  assume e: "edit_tool args cwd c w = edit_done p r (write_bytes p (e_bytes r) (gap (gap w)))"
    and st: "stale_check w p = None"
  obtain ok w1 where wr: "write_bytes p (e_bytes r) w = (ok, w1)" by force
  then have e: "edit_tool args cwd c w = edit_done p r (ok, w1)" using e assms by simp
  from wr show ?thesis
    using e st assms by (cases rule: write_bytes_cases) (auto simp: edit_done_def)
qed (use assms in auto)

lemma write_tool_calm:
  assumes "calm w"
  shows "(\<exists>D. snd (write_tool denied args cwd c w) = w\<lparr>w_dirs := D\<rparr> \<and>
      (guard_ok w \<longrightarrow> guard_ok (w\<lparr>w_dirs := D\<rparr>))) \<or>
    (\<exists>p bs D. (exists_path w p \<longrightarrow> stale_check w p = None) \<and> \<not> D (locus w p) \<and>
       (guard_ok w \<longrightarrow> guard_ok (w\<lparr>w_dirs := D\<rparr>)) \<and>
       (snd (write_tool denied args cwd c w) = put_file (locus w p) bs (w\<lparr>w_dirs := D\<rparr>) \<or>
        snd (write_tool denied args cwd c w) = track p bs (put_file (locus w p) bs (w\<lparr>w_dirs := D\<rparr>))))"
    (is "?ends (snd (write_tool denied args cwd c w))")
proof -
  have same: "?ends w" by (intro disjI1 exI [of _ "w_dirs w"]) simp
  show ?thesis
  proof (cases "fld ''path'' dec_str args")
    case (Some s)
    show ?thesis
    proof (cases "fld ''content'' dec_str args")
      case content: (Some t)
      let ?p = "resolve_path s cwd" and ?bs = "map of_char t :: nat list"
      define chk where "chk = (if exists_path w ?p then stale_check w ?p else None)"
      define mk where "mk = (if butlast ?p = [] then (True, w) else create_dir_all denied (butlast ?p) w)"
      obtain ok w2 where mk: "mk = (ok, w2)" by force
      from mk [unfolded mk_def] obtain D where D: "w2 = w\<lparr>w_dirs := D\<rparr>" "guard_ok w \<longrightarrow> guard_ok (w\<lparr>w_dirs := D\<rparr>)"
        using mkdirs_frame [of denied "butlast ?p" w ok w2] that [of "w_dirs w"] by (auto split: if_splits)
      have w2: "calm w2" using assms D(1) by simp
      obtain ok' w3 where wr: "write_bytes ?p ?bs w2 = (ok', w3)" by force
      have "write_tool denied args cwd c w =
        (if c then (Failed Cancelled, w)
         else (case chk of Some e \<Rightarrow> (Failed e, w)
          | None \<Rightarrow> (case mk of (False, w2) \<Rightarrow> (Failed Mkdir_Error, w2)
            | (True, w2) \<Rightarrow> (case write_bytes ?p ?bs (gap w2) of (False, w3) \<Rightarrow> (Failed Write_Error, w3)
              | (True, w3) \<Rightarrow> (Wrote (length ?bs) ?p, track ?p ?bs (gap w3))))))"
        unfolding chk_def mk_def write_tool_def Let_def calm_gap [OF assms] by (simp add: Some content)
      then have def: "write_tool denied args cwd c w =
        (if c then (Failed Cancelled, w)
         else (case chk of Some e \<Rightarrow> (Failed e, w)
          | None \<Rightarrow> if \<not> ok then (Failed Mkdir_Error, w2)
            else if \<not> ok' then (Failed Write_Error, w3)
            else (Wrote (length ?bs) ?p, track ?p ?bs (gap w3))))"
        unfolding mk using w2 by (cases ok; cases ok'; cases chk) (simp_all add: wr)
      show ?thesis
      proof (cases "c \<or> chk \<noteq> None \<or> \<not> ok")
        case True
        with same D show ?thesis unfolding def by (auto split: option.split)
      next
        case False
        then have st: "exists_path w ?p \<longrightarrow> stale_check w ?p = None" by (auto simp: chk_def split: if_splits)
        from wr show ?thesis
        proof (cases rule: write_bytes_cases)
          case written
          then have "snd (write_tool denied args cwd c w) = track ?p ?bs (put_file (locus w ?p) ?bs (w\<lparr>w_dirs := D\<rparr>))"
            using False w2 unfolding def by (auto simp: D(1))
          with st D written(3) show ?thesis by auto
        next
          case refused
          with False D show ?thesis unfolding def by auto
        next
          case (torn n)
          then have "snd (write_tool denied args cwd c w) = put_file (locus w ?p) (take n ?bs) (w\<lparr>w_dirs := D\<rparr>)"
            using False unfolding def by (auto simp: D(1))
          with st D torn(4) show ?thesis by auto
        qed
      qed
    qed (use same in \<open>simp add: write_tool_def Some\<close>)
  qed (use same in \<open>simp add: write_tool_def\<close>)
qed

lemma fresh_edit: "guard_ok w \<Longrightarrow> fresh (snd (edit_tool args cwd c w)) \<and> calm (snd (edit_tool args cwd c w))"
  using edit_tool_calm [of w args cwd c] fresh_put fresh_written by (auto simp: guard_ok_def)

lemma fresh_write_tool:
  "guard_ok w \<Longrightarrow> fresh (snd (write_tool denied args cwd c w)) \<and> calm (snd (write_tool denied args cwd c w))"
  using write_tool_calm [of w denied args cwd c] fresh_put fresh_written [of "w\<lparr>w_dirs := _\<rparr>"]
  by (fastforce simp: guard_ok_def)

lemma fresh_step:
  assumes "fresh w" and "calm w" and "told_apart ev"
  shows "fresh (tool_step b64 denied ev w) \<and> calm (tool_step b64 denied ev w)"
proof -
  obtain dt e where ev: "ev = (dt, e)" by (cases ev)
  have "0 < dt" using assms(3) ev by (cases e) simp_all
  then have t: "guard_ok (pass_time dt w)"
    using assms by (simp add: fresh_time older_time guard_ok_def)
  then have f: "fresh (pass_time dt w)" "mtimes_past (pass_time dt w)" "calm (pass_time dt w)"
    by (simp_all add: guard_ok_def)
  show ?thesis
    unfolding ev using t f assms(2,3) ev
    by (cases e) (auto simp: outside_write_def fresh_put fresh_remove fresh_read fresh_edit
        fresh_bash fresh_write_tool calm_id)
qed

lemma fresh_run:
  "fresh w \<Longrightarrow> calm w \<Longrightarrow> list_all told_apart evs \<Longrightarrow>
   fresh (tool_run b64 denied evs w) \<and> calm (tool_run b64 denied evs w)"
  by (induction evs arbitrary: w) (simp_all add: tool_run_def fresh_step)

text \<open>A call that overwrites a file overwrites what was last observed of it.\<close>

lemma checked_digest:
  assumes "fresh w" "stale_check w p = None" "file_at w p = Some (bs, t)"
  shows "\<exists>u. w_tracked w p = Some (sha256 bs, u)"
proof -
  from assms(2) obtain d u where e: "w_tracked w p = Some (d, u)" "mtime_of w p \<le> u"
    by (auto simp: stale_check_def split: option.splits if_splits)
  moreover have "mtime_of w p = t" using file_no_dir [OF assms(1,3)] assms(3) by (simp add: mtime_of_def)
  ultimately show ?thesis using freshD(3) [OF assms(1) e(1) assms(3)] by auto
qed

lemma overwritten:
  assumes "fresh w" and "calm w" and f: "w_files w q = Some (bs, t)"
    and d: "w' = snd (edit_tool args cwd c w) \<or> w' = snd (write_tool denied args cwd c w)"
    and "w_files w' q \<noteq> w_files w q"
  shows "\<exists>p s. locus w p = q \<and> w_tracked w p = Some (sha256 bs, s)"
proof -
  have "\<exists>p. locus w p = q \<and> stale_check w p = None"
    using d
  proof
    assume "w' = snd (edit_tool args cwd c w)"
    with assms(5) edit_tool_calm [OF assms(2), of args cwd c] show ?thesis by (auto split: if_splits)
  next
    assume "w' = snd (write_tool denied args cwd c w)"
    with assms(5) write_tool_calm [OF assms(2), of denied args cwd c] f show ?thesis
      by (auto simp: exists_path_def file_at_def split: if_splits)
  qed
  then obtain p where p: "locus w p = q" "stale_check w p = None" by blast
  with f have "file_at w p = Some (bs, t)" by (simp add: file_at_def)
  from checked_digest [OF assms(1) p(2) this] p(1) show ?thesis by blast
qed

end
