(* ===== verification/Tools_Diff.thy ===== *)
theory Tools_Diff
  imports Tools_Edit
begin

text \<open>
  The diff an edit reports (\<^verbatim>\<open>emit_unified_diff\<close> of \<^verbatim>\<open>edit.rs\<close>): one hunk around the lines that
  differ, with up to three lines of context on either side.
\<close>

subsection \<open>The hunk\<close>

fun first_diff :: "'a list \<Rightarrow> 'a list \<Rightarrow> nat" where
  "first_diff (x # xs) (y # ys) = (if x \<noteq> y then 0 else Suc (first_diff xs ys))"
| "first_diff _ _ = 0"

function last_diff :: "'a list \<Rightarrow> 'a list \<Rightarrow> nat \<Rightarrow> nat \<Rightarrow> nat \<Rightarrow> nat \<times> nat" where
  "last_diff a b f i j =
     (if f < i \<and> f < j
      then (if a ! (i - 1) \<noteq> b ! (j - 1) then (i, j) else last_diff a b f (i - 1) (j - 1))
      else (i, j))"
  by pat_completeness auto
termination
  by (relation "measure (\<lambda>(_, _, _, i, _). i)") auto

declare last_diff.simps [simp del]

datatype 'a diff_line = Context (line_of: 'a) | Removed (line_of: 'a) | Added (line_of: 'a)

record 'a hunk =
  h_old_start :: nat
  h_old_count :: nat
  h_new_start :: nat
  h_new_count :: nat
  h_lines :: "'a diff_line list"

definition unified_diff :: "'a list \<Rightarrow> 'a list \<Rightarrow> 'a hunk" where
  "unified_diff a b =
     (let f = first_diff a b;
          (la, lb) = last_diff a b f (length a) (length b);
          start = f - 3;
          end_a = min (la + 3) (length a);
          end_b = min (lb + 3) (length b) in
      \<lparr>h_old_start = start + 1, h_old_count = end_a - start,
       h_new_start = start + 1, h_new_count = end_b - start,
       h_lines = map (\<lambda>i. Context (a ! i)) [start..<f] @ map (\<lambda>i. Removed (a ! i)) [f..<la] @
         map (\<lambda>i. Added (b ! i)) [f..<lb] @ map (\<lambda>i. Context (a ! i)) [la..<end_a]\<rparr>)"

text \<open>The two sides of a hunk.\<close>

definition old_side :: "'a hunk \<Rightarrow> 'a list" where
  "old_side h = map line_of (filter (\<lambda>l. case l of Added _ \<Rightarrow> False | _ \<Rightarrow> True) (h_lines h))"

definition new_side :: "'a hunk \<Rightarrow> 'a list" where
  "new_side h = map line_of (filter (\<lambda>l. case l of Removed _ \<Rightarrow> False | _ \<Rightarrow> True) (h_lines h))"

definition patch :: "'a hunk \<Rightarrow> 'a list \<Rightarrow> 'a list" where
  "patch h a = take (h_old_start h - 1) a @ new_side h @ drop (h_old_start h - 1 + h_old_count h) a"

lemma first_diff_prefix: "take (first_diff a b) a = take (first_diff a b) b \<and>
   first_diff a b \<le> length a \<and> first_diff a b \<le> length b"
  by (induction a b rule: first_diff.induct) auto

lemma last_diff_suffix:
  "f \<le> i \<Longrightarrow> f \<le> j \<Longrightarrow> i \<le> length a \<Longrightarrow> j \<le> length b \<Longrightarrow> drop i a = drop j b \<Longrightarrow>
   last_diff a b f i j = (la, lb) \<Longrightarrow>
   f \<le> la \<and> f \<le> lb \<and> la \<le> length a \<and> lb \<le> length b \<and> drop la a = drop lb b"
proof (induction a b f i j rule: last_diff.induct)
  case (1 a b f i j)
  show ?case
  proof (cases "f < i \<and> f < j \<and> a ! (i - 1) = b ! (j - 1)")
    case True
    then have "i - 1 < length a" "j - 1 < length b" "Suc (i - 1) = i" "Suc (j - 1) = j"
      using "1.prems" by auto
    then have "drop (i - 1) a = drop (j - 1) b"
      using Cons_nth_drop_Suc [of "i - 1" a] Cons_nth_drop_Suc [of "j - 1" b] True "1.prems"(5) by metis
    moreover have "last_diff a b f (i - 1) (j - 1) = (la, lb)"
      using True "1.prems"(6) by (subst (asm) last_diff.simps) simp
    moreover have "f \<le> i - 1" "f \<le> j - 1" "i - 1 \<le> length a" "j - 1 \<le> length b"
      using True "1.prems" by auto
    ultimately show ?thesis using "1.IH" True by simp
  next
    case False
    with "1.prems" show ?thesis by (subst (asm) last_diff.simps) (auto split: if_splits)
  qed
qed

lemma map_nth_between: "i \<le> j \<Longrightarrow> j \<le> length a \<Longrightarrow> map ((!) a) [i..<j] = take (j - i) (drop i a)"
  by (rule nth_equalityI) simp_all

lemma take_drop_join: "i \<le> j \<Longrightarrow> take i a @ take (j - i) (drop i a) = take j a"
  by (metis le_add_diff_inverse take_add)

lemma hunk_sides:
  assumes "f = first_diff a b" and "last_diff a b f (length a) (length b) = (la, lb)"
  shows "old_side (unified_diff a b) = take (min (la + 3) (length a) - (f - 3)) (drop (f - 3) a)"
    "new_side (unified_diff a b) = take (min (lb + 3) (length b) - (f - 3)) (drop (f - 3) b)"
    "f \<le> la" "f \<le> lb" "la \<le> length a" "lb \<le> length b" "take f a = take f b" "drop la a = drop lb b"
proof -
  from first_diff_prefix [of a b] assms(1)
  have f: "take f a = take f b" "f \<le> length a" "f \<le> length b" by auto
  from last_diff_suffix [OF f(2,3) _ _ _ assms(2)]
  have l: "f \<le> la" "f \<le> lb" "la \<le> length a" "lb \<le> length b" "drop la a = drop lb b" by auto
  then show "f \<le> la" "f \<le> lb" "la \<le> length a" "lb \<le> length b" "take f a = take f b" "drop la a = drop lb b"
    using f by auto
  let ?s = "f - 3" and ?ea = "min (la + 3) (length a)" and ?eb = "min (lb + 3) (length b)"
  have h: "h_lines (unified_diff a b) =
      map (\<lambda>i. Context (a ! i)) [?s..<f] @ map (\<lambda>i. Removed (a ! i)) [f..<la] @
      map (\<lambda>i. Added (b ! i)) [f..<lb] @ map (\<lambda>i. Context (a ! i)) [la..<?ea]"
    using assms by (simp add: unified_diff_def Let_def)
  have f1: "filter P (map g xs) = (if \<forall>x. P (g x) then map g xs else [])" if "(\<forall>x. P (g x)) \<or> (\<forall>x. \<not> P (g x))"
    for P and g :: "nat \<Rightarrow> 'b" and xs using that by (auto simp: filter_empty_conv)
  have cat: "map g [i..<j] @ map g [j..<k] = map g [i..<k]" if "i \<le> j" "j \<le> k"
    for g :: "nat \<Rightarrow> 'a" and i j k using that by (metis le_Suc_ex map_append upt_add_eq_append)
  show "old_side (unified_diff a b) = take (?ea - ?s) (drop ?s a)"
  proof -
    have "old_side (unified_diff a b) = map ((!) a) [?s..<f] @ map ((!) a) [f..<la] @ map ((!) a) [la..<?ea]"
      by (simp add: old_side_def h f1 comp_def)
    also have "\<dots> = map ((!) a) [?s..<?ea]" using l by (simp add: cat)
    also have "\<dots> = take (?ea - ?s) (drop ?s a)" using l by (intro map_nth_between) auto
    finally show ?thesis .
  qed
  have "map ((!) a) [?s..<f] = map ((!) b) [?s..<f]"
  proof (intro map_cong refl)
    fix i assume "i \<in> set [?s..<f]"
    then have "i < f" by simp
    then show "a ! i = b ! i" using f(1) by (metis nth_take)
  qed
  moreover have "map ((!) a) [la..<?ea] = map ((!) b) [lb..<?eb]"
  proof -
    have len: "length a - la = length b - lb" using l(5) by (metis length_drop)
    have "map ((!) a) [la..<?ea] = take (?ea - la) (drop la a)" using l by (intro map_nth_between) auto
    also have "?ea - la = ?eb - lb" using l(3,4) len by linarith
    also have "take (?eb - lb) (drop la a) = take (?eb - lb) (drop lb b)" unfolding l(5) ..
    also have "\<dots> = map ((!) b) [lb..<?eb]" using l by (intro map_nth_between [symmetric]) auto
    finally show ?thesis .
  qed
  ultimately have "new_side (unified_diff a b) = map ((!) b) [?s..<f] @ map ((!) b) [f..<lb] @ map ((!) b) [lb..<?eb]"
    by (simp add: new_side_def h f1 comp_def)
  also have "\<dots> = map ((!) b) [?s..<?eb]" using l by (simp add: cat)
  also have "\<dots> = take (?eb - ?s) (drop ?s b)" using l by (intro map_nth_between) auto
  finally show "new_side (unified_diff a b) = take (?eb - ?s) (drop ?s b)" .
qed

lemma diff_patches:
  "patch (unified_diff a b) a = b \<and>
   length (old_side (unified_diff a b)) = h_old_count (unified_diff a b) \<and>
   length (new_side (unified_diff a b)) = h_new_count (unified_diff a b)"
proof -
  define f where "f = first_diff a b"
  obtain la lb where l: "last_diff a b f (length a) (length b) = (la, lb)"
    by (cases "last_diff a b f (length a) (length b)")
  note s = hunk_sides [OF f_def l]
  let ?s = "f - 3" and ?ea = "min (la + 3) (length a)" and ?eb = "min (lb + 3) (length b)"
  have h: "h_old_start (unified_diff a b) = ?s + 1" "h_old_count (unified_diff a b) = ?ea - ?s"
    "h_new_count (unified_diff a b) = ?eb - ?s"
    using l by (simp_all add: unified_diff_def Let_def f_def)
  have len: "length a - la = length b - lb" using s(8) by (metis length_drop)
  have "?ea - la + la = ?ea" "?eb - lb + lb = ?eb" using s(5,6) by simp_all
  then have "drop ?ea a = drop (?ea - la) (drop la a)" "drop ?eb b = drop (?eb - lb) (drop lb b)"
    by (simp_all only: drop_drop)
  moreover have "?ea - la = ?eb - lb" using s(5,6) len by linarith
  ultimately have tail: "drop ?ea a = drop ?eb b" unfolding s(8) by simp
  have "take ?s (take f a) = take ?s (take f b)" unfolding s(7) ..
  then have head: "take ?s a = take ?s b" by (simp add: min_absorb1)
  have "patch (unified_diff a b) a = take ?s a @ new_side (unified_diff a b) @ drop (?s + (?ea - ?s)) a"
    by (simp only: patch_def h add_diff_cancel_right')
  also have "?s + (?ea - ?s) = ?ea" using s(3,5) by linarith
  finally have "patch (unified_diff a b) a = take ?s b @ take (?eb - ?s) (drop ?s b) @ drop ?eb b"
    by (simp only: head tail s(2))
  also have "\<dots> = take ?eb b @ drop ?eb b"
  proof -
    have "?s \<le> ?eb" using s(4,6) by linarith
    then show ?thesis by (simp only: take_drop_join flip: append_assoc)
  qed
  finally have "patch (unified_diff a b) a = b" by simp
  moreover have "length (old_side (unified_diff a b)) = ?ea - ?s" unfolding s(1) using s(3,5) by simp
  moreover have "length (new_side (unified_diff a b)) = ?eb - ?s" unfolding s(2) using s(4,6) by simp
  ultimately show ?thesis by (simp only: h)
qed

end
