(* ===== verification/Tools_Examples.thy ===== *)
theory Tools_Examples
  imports Tools_Guard Tools_Diff
begin

text \<open>
  What the file tools promise, with concrete runs, and the cases where they do something else than
  their descriptions say.
\<close>

subsection \<open>Evaluating an edit\<close>

lemma edit_bytes_eval:
  assumes "decode_file raw = (enc, content)" "detect_line_ending content = ending"
    "normalize_to_lf content = c" "normalize_to_lf old = q" "normalize_to_lf new = n"
    "locate c enc q = Some (Found s e k, base, out)"
    "split_at s base = Some (before, x)" "split_at e base = Some (y, rest)" "base \<noteq> before @ n @ rest"
    "encode_checked out (restore_line_endings (before @ n @ rest) ending) = (bs, up)"
  shows "edit_bytes raw old new = Some (Inr \<lparr>e_bytes = bs, e_kind = k, e_upgraded = up,
    e_encoding = out, e_before = base, e_after = before @ n @ rest\<rparr>)"
  using assms by (simp add: edit_bytes_def Let_def)

text \<open>A file with CRLF: an e with an acute accent, and a line \<^verbatim>\<open>b\<close>.\<close>

definition ex_crlf :: "nat list" where
  "ex_crlf = [0xC3, 0xA9, 13, 10, 98, 13, 10]"

lemma ex_crlf_decoded: "decode_file ex_crlf = (Utf8, [233, 13, 10, 98, 13, 10])"
  by code_simp

lemma ex_edited:
  "edit_bytes ex_crlf [98] [99, 10, 100] = Some (Inr \<lparr>e_bytes = [0xC3, 0xA9, 13, 10, 99, 13, 10, 100, 13, 10],
     e_kind = Exact, e_upgraded = False, e_encoding = Utf8,
     e_before = [233, 10, 98, 10], e_after = [233, 10] @ [99, 10, 100] @ [10]\<rparr>)"
  by (rule edit_bytes_eval [where enc = Utf8 and content = "[233, 13, 10, 98, 13, 10]" and ending = "[13, 10]"
        and c = "[233, 10, 98, 10]" and q = "[98]" and n = "[99, 10, 100]" and s = 3 and e = 4
        and k = Exact and base = "[233, 10, 98, 10]" and out = Utf8 and before = "[233, 10]" and rest = "[10]"
        and x = "[98, 10]" and y = "[233, 10, 98]" and up = False
        and bs = "[0xC3, 0xA9, 13, 10, 99, 13, 10, 100, 13, 10]"]; code_simp)

text \<open>One line feed in a CRLF file, or one CRLF more than line feeds: the other endings change too.\<close>

lemma mixed_endings_rewritten:
  "\<exists>r. edit_bytes [97, 13, 10, 98, 10, 99] [99] [100] = Some (Inr r) \<and>
     e_bytes r = [97, 13, 10, 98, 13, 10, 100]"
proof -
  have "edit_bytes [97, 13, 10, 98, 10, 99] [99] [100] = Some (Inr \<lparr>e_bytes = [97, 13, 10, 98, 13, 10, 100],
     e_kind = Exact, e_upgraded = False, e_encoding = Utf8,
     e_before = [97, 10, 98, 10, 99], e_after = [97, 10, 98, 10] @ [100] @ []\<rparr>)"
    by (rule edit_bytes_eval [where enc = Utf8 and content = "[97, 13, 10, 98, 10, 99]" and ending = "[13, 10]"
          and c = "[97, 10, 98, 10, 99]" and q = "[99]" and n = "[100]" and s = 4 and e = 5
          and k = Exact and base = "[97, 10, 98, 10, 99]" and out = Utf8 and before = "[97, 10, 98, 10]"
          and rest = "[]" and x = "[99]" and y = "[97, 10, 98, 10, 99]" and up = False
          and bs = "[97, 13, 10, 98, 13, 10, 100]"]; code_simp)
  then show ?thesis by simp
qed

lemma overlap_accepted: "resolve [97, 97, 97] [97, 97] = Some (Found 0 2 Exact)"
  by (simp add: resolve_def starts_with_def find_bytes_def width_def utf8_put_def Let_def)

lemma width_ascii: "c < 128 \<Longrightarrow> width c = 1"
  by (simp add: width_def utf8_put_def)

lemma line_end_ignored: "resolve [102, 111, 111, 98, 97, 114] [102, 111, 111, 10] = Some (Found 0 3 Fuzzy)"
proof -
  have o: "normalize_for_fuzzy_match [102, 111, 111, 10] = [102, 111, 111]"
    by (simp add: normalize_for_fuzzy_match_def trim_line_def white_space_def fuzzy_char_def)
  have k: "fuzzy_loop 0 [102, 111, 111, 98, 97, 114] =
    [(102, 0, 1), (111, 1, 1), (111, 2, 1), (98, 3, 1), (97, 4, 1), (114, 5, 1)]"
    by (simp add: fuzzy_loop.simps(2) trim_line_def white_space_def fuzzy_char_def width_ascii)
  show ?thesis
    by (simp add: resolve_def starts_with_def find_bytes_def Let_def normalize_fuzzy_mapped_def k o width_ascii
        map_span_def index_def)
qed

lemma page_overflow: "page 2 (Some 18446744073709551615) [[97], [98]] = None"
  by (simp add: page_def u64_max_def)

lemma bare_utf16_marked:
  "decode_file [97, 0, 98, 0] = (Utf16Le, [97, 98])"
  "encode_checked Utf16Le [97, 98] = ([0xFF, 0xFE, 97, 0, 98, 0], False)"
  by (simp_all add: decode_file_def starts_with_def utf16_le_def read_lossy.simps(2) utf16_step_def Let_def
      encode_checked_def encode_utf16_def utf16_put_def le_bytes_def)

lemma e_acute: "as_bytes [233] = [0xC3, 0xA9]" "mojibake [233] = [0xC3, 0xA9]"
  "as_bytes [0xC3, 0xA9] = [0xC3, 0x83, 0xC2, 0xA9]" "mojibake [0xC3, 0xA9] = [0xC3, 0x192, 0xC2, 0xA9]"
  by (simp_all add: mojibake_def utf8_put_def cp1252_decode_byte_def cp1252_high_def)

text \<open>A text damaged twice needs the repair twice.\<close>

lemma repair_twice:
  "repair_mojibake [0xC3, 0x192, 0xC2, 0xA9] = [0xC3, 0xA9]" "repair_mojibake [0xC3, 0xA9] = [233]"
  using repair_mojibake_undoes [of "[0xC3, 0xA9]"] repair_mojibake_undoes [of "[233]"]
  by (simp_all add: e_acute scalar_def)

subsection \<open>A world with one file\<close>

definition ex_path :: path where "ex_path = [root_dir, ''a'']"

definition ex_tool_world :: "nat list \<Rightarrow> tool_world" where
  "ex_tool_world bs =
     \<lparr>w_files = [ex_path \<mapsto> (bs, 5)], w_dirs = (\<lambda>p. p = [root_dir]), w_dir_time = (\<lambda>_. 0),
      w_listing = (\<lambda>_. None), w_no_read = (\<lambda>_. False), w_no_write = (\<lambda>_. False),
      w_room = (\<lambda>_. 4096), w_others = [], w_clock = 7,
      w_cwd = [root_dir], w_tracked = [ex_path \<mapsto> (sha256 bs, 5)]\<rparr>"

definition ex_edit_args :: json where
  "ex_edit_args = JObj [(''path'', JStr ''/a''), (''old_string'', JStr ''b''),
     (''new_string'', JStr [CHR ''c'', CHR 0x0A, CHR ''d''])]"

lemma ex_paths: "components ''/a'' = ex_path" "resolve_path ''/a'' cwd = ex_path" "is_absolute ''/a''"
  by (simp_all add: resolve_path_def components_def is_absolute_def starts_with_def ex_path_def root_dir_def)

lemma ex_world_simps:
  "file_at (ex_tool_world bs) ex_path = Some (bs, 5)" "locus (ex_tool_world bs) ex_path = ex_path"
  "read_bytes (ex_tool_world bs) ex_path = Some bs" "stale_check (ex_tool_world bs) ex_path = None"
  "length ds \<le> 4096 \<Longrightarrow> write_bytes ex_path ds (ex_tool_world bs) =
     (True, ex_tool_world bs\<lparr>w_files := [ex_path \<mapsto> (ds, 7)]\<rparr>)"
  "w_others (ex_tool_world bs) = []" "calm (ex_tool_world bs)"
  "w_tracked (ex_tool_world bs) ex_path = Some (sha256 bs, 5)"
  by (simp_all add: file_at_def ex_tool_world_def locus_def ex_path_def read_bytes_def stale_check_def mtime_of_def
      is_dir_def write_bytes_def put_file_def calm_def Let_def root_dir_def)

lemma ex_chars: "chars_of ''b'' = [98]" "chars_of [CHR ''c'', CHR 0x0A, CHR ''d''] = [99, 10, 100]"
  by (simp_all add: chars_of_def from_utf8_lossy_def read_lossy.simps(2) utf8_step_def Let_def)

lemma ex_edit_run:
  "edit_tool ex_edit_args cwd False (ex_tool_world ex_crlf) =
     (Some (Edited ex_path Exact False False),
      track ex_path [0xC3, 0xA9, 13, 10, 99, 13, 10, 100, 13, 10]
        (ex_tool_world ex_crlf\<lparr>w_files := [ex_path \<mapsto> ([0xC3, 0xA9, 13, 10, 99, 13, 10, 100, 13, 10], 7)]\<rparr>))"
  by (simp add: edit_tool_def ex_edit_args_def codec_simps ex_paths ex_world_simps ex_chars ex_edited Let_def)

lemma ex_fresh: "fresh (ex_tool_world bs)"
  by (auto simp: fresh_def ex_tool_world_def file_at_def locus_def ex_path_def split: if_splits)

lemma ex_crlf_ok: "list_all is_byte ex_crlf" "lossless ex_crlf" "uniform (snd (decode_file ex_crlf))"
  by (simp_all add: ex_crlf_def is_byte_def lossless_def ex_crlf_decoded [unfolded ex_crlf_def] uniform_def)

lemma chars_of_Nil: "chars_of s = [] \<longleftrightarrow> s = []"
  by (cases s) (simp_all add: chars_of_def from_utf8_lossy_def read_lossy.simps(2) split: prod.splits)

subsection \<open>Where the descriptions go too far\<close>

text \<open>A write within the tick of the observation passes the check: the digest is recorded, never compared.\<close>

lemma same_tick_unseen:
  assumes "w = ex_tool_world ex_crlf\<lparr>w_clock := 5\<rparr>"
  shows "stale_check (outside_write ex_path ds w) ex_path = None"
    "file_at (outside_write ex_path ds w) ex_path = Some (ds, 5)"
    "w_tracked (outside_write ex_path ds w) ex_path = Some (sha256 ex_crlf, 5)"
  by (simp_all add: assms outside_write_def put_file_def ex_tool_world_def ex_path_def root_dir_def stale_check_def
      mtime_of_def is_dir_def file_at_def locus_def)

text \<open>
  The same in a call: a write by another process between the read and the look at the time is recorded
  as if it had been read, and one between the check and the write is overwritten.
\<close>

definition ex_raced :: "nat \<Rightarrow> tool_world" where
  "ex_raced n = ex_tool_world ex_crlf\<lparr>w_others := replicate n [] @ [[Other_Write 1 ex_path [120]]]\<rparr>"

lemma ex_raced_simps:
  "gap (ex_raced (Suc n)) = ex_raced n"
  "gap (ex_raced 0) = ex_tool_world ex_crlf\<lparr>w_clock := 8, w_files := [ex_path \<mapsto> ([120], 8)]\<rparr>"
  "read_bytes (ex_raced n) ex_path = Some ex_crlf" "stale_check (ex_raced n) ex_path = None"
  by (simp_all add: gap_def ex_raced_def outside_write_def put_file_def pass_time_def ex_tool_world_def ex_path_def
      root_dir_def stale_check_def mtime_of_def is_dir_def file_at_def locus_def read_bytes_def)

lemma write_in_read_unseen:
  defines "w \<equiv> snd (track_as_read ex_path (ex_raced 0))"
  shows "file_at w ex_path = Some ([120], 8)" "w_tracked w ex_path = Some (sha256 ex_crlf, 8)"
    "stale_check w ex_path = None"
proof -
  have w: "w = track ex_path ex_crlf (ex_tool_world ex_crlf\<lparr>w_clock := 8, w_files := [ex_path \<mapsto> ([120], 8)]\<rparr>)"
    by (simp add: w_def track_as_read_def ex_raced_simps)
  show "file_at w ex_path = Some ([120], 8)" "w_tracked w ex_path = Some (sha256 ex_crlf, 8)"
    "stale_check w ex_path = None"
    by (simp_all add: w track_def mtime_of_def is_dir_def file_at_def locus_def stale_check_def ex_tool_world_def
        ex_path_def root_dir_def)
qed

lemma write_in_edit_lost:
  "\<exists>w'. edit_tool ex_edit_args cwd False (ex_raced 1) = (Some (Edited ex_path Exact False False), w') \<and>
     file_at (gap (gap (ex_raced 1))) ex_path = Some ([120], 8) \<and>
     file_at w' ex_path = Some ([0xC3, 0xA9, 13, 10, 99, 13, 10, 100, 13, 10], 8)"
proof -
  let ?v = "ex_tool_world ex_crlf\<lparr>w_clock := 8, w_files := [ex_path \<mapsto> ([120], 8)]\<rparr>"
    and ?bs = "[0xC3, 0xA9, 13, 10, 99, 13, 10, 100, 13, 10] :: nat list"
  have g: "gap (ex_raced 1) = ex_raced 0" "gap (ex_raced 0) = ?v"
    using ex_raced_simps(1) [of 0] ex_raced_simps(2) by simp_all
  have wr: "write_bytes ex_path ?bs ?v = (True, put_file ex_path ?bs ?v)"
    by (simp add: write_bytes_def Let_def ex_tool_world_def locus_def ex_path_def root_dir_def)
  have calm: "gap (put_file ex_path ?bs ?v) = put_file ex_path ?bs ?v"
    by (simp add: ex_tool_world_def)
  have "edit_tool ex_edit_args cwd False (ex_raced 1) =
      (Some (Edited ex_path Exact False False), track ex_path ?bs (put_file ex_path ?bs ?v))"
    by (simp add: edit_tool_def ex_edit_args_def codec_simps ex_paths ex_raced_simps g wr calm ex_chars ex_edited Let_def)
  moreover have "file_at ?v ex_path = Some ([120], 8)"
    "file_at (track ex_path ?bs (put_file ex_path ?bs ?v)) ex_path = Some (?bs, 8)"
    by (simp_all add: file_at_def locus_def track_def ex_tool_world_def ex_path_def root_dir_def)
  ultimately show ?thesis unfolding g by blast
qed

text \<open>A full disk leaves the file with a part of the new bytes, and the old ones are gone.\<close>

lemma full_disk_tears:
  "edit_tool ex_edit_args cwd False (ex_tool_world ex_crlf\<lparr>w_room := (\<lambda>_. 2)\<rparr>) =
     (Some (Failed Write_Error),
      put_file ex_path [0xC3, 0xA9] (ex_tool_world ex_crlf\<lparr>w_room := (\<lambda>_. 2)\<rparr>))"
proof -
  let ?w = "ex_tool_world ex_crlf\<lparr>w_room := (\<lambda>_. 2)\<rparr>"
  have w: "gap ?w = ?w" "read_bytes ?w ex_path = Some ex_crlf" "stale_check ?w ex_path = None"
    by (simp_all add: ex_tool_world_def ex_path_def root_dir_def stale_check_def mtime_of_def is_dir_def
        file_at_def locus_def read_bytes_def)
  have "write_bytes ex_path [0xC3, 0xA9, 13, 10, 99, 13, 10, 100, 13, 10] ?w =
      (False, put_file ex_path [0xC3, 0xA9] ?w)"
    by (simp add: write_bytes_def Let_def ex_tool_world_def locus_def ex_path_def root_dir_def)
  then show ?thesis
    by (simp add: edit_tool_def ex_edit_args_def codec_simps ex_paths w ex_chars ex_edited Let_def)
qed

text \<open>A command names a file by a relative path: the file it reads is not the path an edit looks up.\<close>

lemma relative_name_untracked:
  assumes "w = ex_tool_world ex_crlf\<lparr>w_tracked := Map.empty\<rparr>"
  shows "w_tracked (track_paths_in ''cat a'' w) [''a''] = Some (sha256 ex_crlf, 5)"
    "resolve_path ''a'' (Some ''/'') = ex_path"
    "stale_check (track_paths_in ''cat a'' w) ex_path = Some Not_Observed"
proof -
  have "chars_of ''cat a'' = [99, 97, 116, 32, 97]"
    by (simp add: chars_of_def from_utf8_lossy_def read_lossy.simps(2) utf8_step_def Let_def)
  then have t: "tokenize (chars_of ''cat a'') = [[99, 97, 116], [97]]"
    by (simp add: tokenize_def separator_def white_space_def push_token_def)
  have n: "string_of [99, 97, 116] = ''cat''" "string_of [97] = ''a''" by code_simp+
  have s: "components (string_of [99, 97, 116]) = [''cat'']" "components (string_of [97]) = [''a'']"
    by (simp_all add: n components_def is_absolute_def starts_with_def)
  have f: "file_at w [''a''] = Some (ex_crlf, 5)" "file_at w [''cat''] = None" "\<not> is_dir w [''a'']"
    "read_bytes w [''a''] = Some ex_crlf" "mtime_of w [''a''] = 5"
    by (simp_all add: assms file_at_def locus_def is_dir_def ex_tool_world_def ex_path_def root_dir_def
        read_bytes_def mtime_of_def)
  have g: "gap w = w" by (simp add: assms ex_tool_world_def)
  have w: "track_paths_in ''cat a'' w = track [''a''] ex_crlf w"
    using f g by (simp add: track_paths_in_def t s is_file_def track_as_read_def max_tracked_def Let_def)
  show "w_tracked (track_paths_in ''cat a'' w) [''a''] = Some (sha256 ex_crlf, 5)" using f by (simp add: w)
  show "stale_check (track_paths_in ''cat a'' w) ex_path = Some Not_Observed"
    unfolding w using assms by (simp add: stale_check_def ex_path_def root_dir_def)
  show "resolve_path ''a'' (Some ''/'') = ex_path"
    by (simp add: resolve_path_def path_join_def components_def is_absolute_def starts_with_def ex_path_def root_dir_def)
qed

text \<open>A timeout or a cancellation that leaves a process holding a pipe does not end the call.\<close>

lemma held_pipe_hangs:
  "fld ''cmd'' dec_str args = Some cmd \<Longrightarrow> c_spawned ch \<Longrightarrow> \<not> c_pipes_close ch \<Longrightarrow>
   poll_child (c_start ch + 120000) (c_polls ch) = Some Poll_Timeout \<Longrightarrow>
   fld ''timeout_secs'' (dec_uint u64_max) args = None \<Longrightarrow>
   fst (bash_tool args False ch w) = None"
  by (simp add: bash_tool_def Let_def)

end
