(* ===== verification/Spec2Isabelle.thy ===== *)
theory Spec2Isabelle
  imports Scenarios Provider_Examples Tools_Examples
begin

text \<open>
  A model of \<^verbatim>\<open>kn9t\<close>, a coding agent that runs as a local server: clients attach to sessions, a
  session is an append-only log of events in sqlite, and a loop per turn plans a request from the
  log, streams the answer of a language model, runs the tools it calls and appends what happened.
  The theories follow the crates under \<^verbatim>\<open>src/crates\<close> and \<^verbatim>\<open>src/plugins\<close>; a definition has the name of the function it
  models, and the record fields the names of the struct with a prefix.

  \<^bold>\<open>The parts and how they meet.\<close> The route of a prompt (\<^verbatim>\<open>kn9t-server\<close>) passes the guard of the router,
  which checks the bearer token and the writer's lease, appends the user's message to the store and
  starts a thread. The thread registers the turn and runs the loop of \<^verbatim>\<open>kn9t-react\<close>. The loop asks
  \<^verbatim>\<open>kn9t-store\<close> for a plan, encodes it and opens a stream (\<^verbatim>\<open>kn9t-provider-openai\<close>, with the retry of
  \<^verbatim>\<open>kn9t-provider-core\<close>), assembles the chunks into one message, authorizes and runs the calls in it,
  and appends; the store notifies its observer, which publishes on the session's bus; clients read the
  bus over SSE after a replay of the log. Approvals and interactions are questions that the turn's
  thread waits on and a client's request answers. The tools over files and the shell are those of the
  plugin \<^verbatim>\<open>plugins/kn9t-tools\<close>.

  \<^bold>\<open>The theories.\<close>
  \<^item> \<^verbatim>\<open>Prelude\<close>, \<^verbatim>\<open>Json\<close>, \<^verbatim>\<open>Rust_Str\<close>: machine types, results and fallible state steps, SQL statements on
    lists of rows, JSON values and decoders, the string functions used. A \<^verbatim>\<open>String\<close> is its UTF-8 bytes.
  \<^item> \<^verbatim>\<open>Core_Types\<close>, \<^verbatim>\<open>Core_Event\<close>, \<^verbatim>\<open>Core_Wire\<close>, \<^verbatim>\<open>Core_Bus\<close>, \<^verbatim>\<open>Core_Tools\<close> (\<^verbatim>\<open>kn9t-core\<close>, and
    \<^verbatim>\<open>composed.rs\<close> of \<^verbatim>\<open>kn9t-plugin\<close>): messages, usage and cost, the event vocabulary, its serde form in
    both directions, the bus with its bounded rings, tool policies and the composition of hooks.
  \<^item> \<^verbatim>\<open>Provider_Assemble\<close>, \<^verbatim>\<open>Provider_Retry\<close> (\<^verbatim>\<open>kn9t-provider-core\<close>): chunks to one message; the retry loop.
  \<^item> \<^verbatim>\<open>Provider_Decode\<close>, \<^verbatim>\<open>Provider_Image\<close>, \<^verbatim>\<open>Provider_Encode\<close>, \<^verbatim>\<open>Provider_Responses\<close>
    (\<^verbatim>\<open>kn9t-provider-openai\<close> and the rest of \<^verbatim>\<open>kn9t-provider-core\<close>): quirks, prices, SSE lines, frames of a
    chat stream to chunks, the image guard, requests to bodies in both wire formats, one attempt.
    \<^verbatim>\<open>Provider_Usage\<close> follows token counts from the wire to the planner.
  \<^item> \<^verbatim>\<open>Store_Db\<close> to \<^verbatim>\<open>Store_System\<close> (\<^verbatim>\<open>kn9t-store\<close>): the tables and the one connection with its open
    transaction, append, projection, reproject, live scratch, blobs, cost, deletion, planning, forks. The
    database is a record of lists of rows, and a store the durable database, the one inside the open
    transaction, and the calls of the observer. \<open>store_reachable\<close> of \<^verbatim>\<open>Store_System\<close> is the closure of all
    public operations and of a crash, and \<open>store_inv\<close> its invariant.
  \<^item> \<^verbatim>\<open>React_Env\<close> to \<^verbatim>\<open>React_Run\<close> (\<^verbatim>\<open>kn9t-react\<close>): the environment of a run as a record of functions over a
    state of the world, authorization, one call, the batch with its threads as arrivals on a channel,
    the attempt with its ladder, compaction, turn and run.
  \<^item> \<^verbatim>\<open>Server_Auth\<close> to \<^verbatim>\<open>Server_Routes\<close> (\<^verbatim>\<open>kn9t-server\<close>): token, leases, the guard, the SSE attach, one-shot
    questions, approvals, turn registration, session buses, the routes that write.
  \<^item> \<^verbatim>\<open>Tools_Text\<close> to \<^verbatim>\<open>Tools_Guard\<close> (\<^verbatim>\<open>plugins/kn9t-tools\<close>): characters and their codecs (\<^verbatim>\<open>encoding.rs\<close>), the
    search for the text to edit (\<^verbatim>\<open>edit.rs\<close>), paths, the files on disk with the digests of what was observed,
    reading and writing, one edit, the diff it reports, the shell tool and histories of calls. A Rust
    \<^verbatim>\<open>String\<close> is here the list of its characters, since the offsets are checked against them.
  \<^item> \<^verbatim>\<open>Store_Examples\<close>, \<^verbatim>\<open>React_Examples\<close>, \<^verbatim>\<open>Server_Examples\<close>, \<^verbatim>\<open>Provider_Examples\<close>,
    \<^verbatim>\<open>Tools_Examples\<close>: concrete states on which the theorems of this theory are applied. \<^verbatim>\<open>Scenarios\<close>: concrete runs that show where the code
    and its comments part, and the check of the projection.

  \<^bold>\<open>Interfaces.\<close> What one part relies on in another is a locale: the sink of events (\<^verbatim>\<open>event_sink\<close>), the
  event log the loop appends to, the registry of questions (\<^verbatim>\<open>ask_registry\<close>), a decoder of characters
  that reads back what its encoder writes (\<^verbatim>\<open>char_codec\<close>) and others. Each is
  interpreted on the model of the code that provides it.

  \<^bold>\<open>What the theorems show.\<close> The store: gapless logs, projections equal to a replay, the outcome and the
  atomicity of an append, forks, plans without unanswered calls, compactions that keep calls with their
  results, what the planner sees of a prompt, a wedged connection (C1 to C12). Core: the round trip of
  the wire form, the window of a subscriber, the matcher of tool patterns, composed vetoes (C13 to C16).
  Provider: assembly, retries, streamed and unstreamed answers, bodies that answer every call, the repair of
  images (C17 to C22). The loop: authorization, batches, turns and runs (C23 to C29). The server: leases,
  the guard, the attach, approvals, the registration of turns (C30 to C34). The file tools: round trips
  of encodings, what an edit changes, the stale check, the diff (C35 to C40). Some state what the
  code does where that is not what its comments promise.

  \<^bold>\<open>Bounds and fuel.\<close> Loops of the code are structural or \<open>function\<close>s with a measure wherever they end by
  themselves. The run of the loop and the wait for a tool on a thread may not end, and are
  \<open>partial_function\<close>s whose \<open>None\<close> is not returning: C25 shows that cancelling bounds the wait, C27 what
  one turn may ask of the provider. The waits of the server and of a body reader (\<open>slot_wait\<close>, \<open>sse_iter\<close>,
  \<open>cancellable_read\<close>) take the list of what each poll observes, and the lemmas say which observation is
  enough for an answer. The walk of \<open>family_cost\<close> has fuel, and C8 shows
  that one more than the number of sessions is enough. The shell tool takes what its polls of the process
  observe, and is \<open>None\<close> when the list does not end the wait. Casts between integer widths are written out (\<open>cast_u32\<close>, \<open>wrap_i64\<close>), sums of
  32 bits wrap as in a release build. Sequence numbers are natural numbers: \<open>insert_event\<close> refuses a row
  when the log has as many as sqlite can hold, and C3 shows that the head never exceeds the number of rows,
  so the code's unchecked addition stays in 64 bits. Other counters of 64 bits that grow by one are numbers.

  \<^bold>\<open>Interleaving.\<close> What happens between two steps of the code is explicit where a property depends on it.
  The file tools read what other processes do in each gap between their accesses from \<open>w_others\<close>; the
  properties C37 and C39 are about calls without such interference, which they say, and
  \<open>write_in_edit_lost\<close> and \<open>write_in_read_unseen\<close> show what it can do. The workers of a tool batch make
  their steps when one is launched, between the sequential calls and in the polls of the wait, as
  \<open>e_poll\<close> says, and not while a call on the loop's own thread runs. The methods of the loop's trait objects (provider, hooks,
  sequential tools, compactor, store) are functions: a call that hangs, and with it the run, is not
  expressed, and no property says that a run or a turn returns.

  \<^bold>\<open>Not modelled.\<close> Code outside the repository is a parameter: the text of a JSON value, the TOML and regex
  crates, base64, image decoding, clocks, random numbers, file system, sockets, processes and threads as
  such. Floating point is exact rational arithmetic. Of the repository: configuration files, the
  read-only routes, the operations plugins call back, plugin processes and their frame codec, the terminal interface and the command line, and the fixtures for
  tests. SQL is modelled by its effect on rows; migrations of old databases are left out.
\<close>

section \<open>The store\<close>

text \<open>
  C1. In every reachable state of the store the durable log of a session is gapless: its rows carry
  the numbers 1 up to the session's head, preceded by 0 exactly when the session is a fork.
\<close>

theorem log_gapless:
  assumes "store_reachable text_of st" and "session_of sid (durable_db st) = Some r"
  shows "map ev_seq (events_of sid (durable_db st)) =
     (if s_origin r = None then [] else [0]) @ [1..<Suc (s_head r)]"
  using reachable_inv [OF assms(1)] assms(2)
  by (auto simp: store_inv_def db_ok_def log_ok_def seqs_of_session_def simp del: upt_Suc
      dest!: spec [of _ sid])

theorem log_gapless_witness:
  "map ev_seq (events_of ''s'' (durable_db ex2)) = [1, 2, 3]"
proof -
  obtain r where r: "session_of ''s'' (durable_db ex2) = Some r" "s_origin r = None" "s_head r = 3"
    by (rule that [of "the (session_of ''s'' (durable_db ex2))"]) code_simp+
  show ?thesis using log_gapless [OF ex2_reachable r(1)] r by (simp add: upt_rec)
qed

text \<open>
  C2. In every reachable state the projection tables are what the log says: a full reproject leaves
  the messages and the usage rows of every session as they are.
\<close>

theorem projection_is_replay:
  assumes "store_reachable text_of st"
  shows "messages_of sid (reproject_db new_id (durable_db st)) = messages_of sid (durable_db st) \<and>
         usages_of sid (reproject_db new_id (durable_db st)) = usages_of sid (durable_db st)"
  using reachable_inv [OF assms] reproject_db_same by (simp add: store_inv_def)

theorem projection_is_replay_witness:
  "messages_of ''s'' (reproject_db [] (durable_db ex2)) = messages_of ''s'' (durable_db ex2) \<and>
   length (messages_of ''s'' (durable_db ex2)) = 2"
  using projection_is_replay [OF ex2_reachable, of "''s''" "[]"] by (intro conjI) (simp, code_simp)

text \<open>
  C3. Append, on every branch, on a reachable store with no transaction open: a transient event is
  rejected, an unknown session is an error, so is a database with as many rows as sqlite can hold, and
  otherwise the append succeeds and returns the head plus one. The addition is unchecked in the code; no
  head exceeds the number of rows, so it never leaves 64 bits.
\<close>

theorem append_outcome:
  assumes "store_reachable text_of st" and "st_txn st = None"
  shows "fst (append text_of now sid e st) =
     (if \<not> is_durable e then Inl Transient_Rejected
      else case head_of sid (st_db st) of
        None \<Rightarrow> Inl (No_Session sid)
      | Some h \<Rightarrow>
          if sqlite_max_rows \<le> int (length (events (st_db st))) then Inl Insert_Failed else Inr (h + 1)) \<and>
     (\<forall>h. head_of sid (st_db st) = Some h \<longrightarrow> h \<le> length (events (st_db st)))"
proof -
  have ok: "db_ok (st_db st)"
    using reachable_inv [OF assms(1)] assms(2) by (simp add: store_inv_def durable_db_def)
  have full: "fst (append text_of now sid e st) = Inl Insert_Failed"
    if "is_durable e" "head_of sid (st_db st) = Some h" "sqlite_max_rows \<le> int (length (events (st_db st)))" for h
  proof -
    obtain p where "enc_event (with_seq (Suc h) e) = Some p"
      using enc_event_durable [of "with_seq (Suc h) e"] \<open>is_durable e\<close> by auto
    with that assms(2) show ?thesis
      by (simp add: append_def begin_immediate_def is_durable_def insert_event_def Let_def)
  qed
  have "fst (append text_of now sid e st) = Inr (h + 1)"
    if "is_durable e" "head_of sid (st_db st) = Some h" "\<not> sqlite_max_rows \<le> int (length (events (st_db st)))" for h
    by (rule append_succeeds [OF ok assms(2)]) (use that in auto)
  with full head_le_rows [OF ok] assms(2) show ?thesis
    by (auto simp: append_def begin_immediate_def is_durable_def split: option.splits)
qed

theorem append_outcome_witness:
  "fst (append ex_text 0 ''s'' (MessageAppended 0 ex_user) ex2) = Inr 4 \<and>
   fst (append ex_text 0 ''nope'' (MessageAppended 0 ex_user) ex2) = Inl (No_Session ''nope'') \<and>
   fst (append ex_text 0 ''s'' (Ev_Error ''x'') ex2) = Inl Transient_Rejected"
proof -
  have t: "st_txn ex2 = None" and h: "head_of ''s'' (st_db ex2) = Some 3" "head_of ''nope'' (st_db ex2) = None"
    and n: "length (events (st_db ex2)) = 3"
    by code_simp+
  show ?thesis
    using append_outcome [OF ex2_reachable t] by (simp add: h n is_durable_def sqlite_max_rows_def)
qed

text \<open>
  C4. Refinement of the abstract store: whatever sequence of appends is run on a reachable store,
  failing ones included, the log of every session only grows, and grows only if it was written to.
\<close>

theorem appends_only_grow:
  assumes "store_reachable text_of st" and "\<forall>(sid, e) \<in> set ops. event_in_range e"
    and "store_log st t = Some es"
  shows "\<exists>xs. store_log (fold (\<lambda>(sid, e) s. snd (append text_of now sid e s)) ops st) t = Some (es @ xs) \<and>
     (t \<notin> fst ` set ops \<longrightarrow> xs = [])"
  using sqlite.puts_append_only [OF _ assms(2,3)] reachable_inv [OF assms(1)]
  by (simp add: store_good_def sqlite.puts_def)

theorem appends_only_grow_witness:
  "\<exists>xs. store_log (fold (\<lambda>(sid, e) s. snd (append ex_text 0 sid e s))
       [(''s'', MessageAppended 0 ex_user), (''nope'', MessageAppended 0 ex_user)] ex2) ''s'' =
     Some (the (store_log ex2 ''s'') @ xs)"
proof -
  have "store_log ex2 ''s'' = Some (the (store_log ex2 ''s''))" by code_simp
  moreover have "\<forall>(sid, e) \<in> set [(''s'', MessageAppended 0 ex_user), (''nope'', MessageAppended 0 ex_user)].
      event_in_range e" by code_simp
  ultimately show ?thesis using appends_only_grow [OF ex2_reachable] by blast
qed

text \<open>
  C5. A successful append is observed exactly once, after the fact: it adds the event, stamped with
  the next number, to the end of the session's log and to the observer's calls.
\<close>

theorem append_extends_log:
  assumes "store_reachable text_of st" and "event_in_range e"
    and "append text_of now sid e st = (Inr n, st')"
  shows "\<exists>es. store_log st sid = Some es \<and> n = length es + 1 \<and>
     store_log st' = (store_log st)(sid \<mapsto> es @ [with_seq n e]) \<and>
     st_notified st' = st_notified st @ [(sid, with_seq n e)]"
proof -
  have inv: "store_inv (durable_db st)" by (rule reachable_inv [OF assms(1)])
  from append_log [OF inv assms(2,3)] assms(3) show ?thesis
    by (auto simp: append_Inr_iff)
qed

theorem append_extends_log_witness:
  "\<exists>st'. append ex_text 0 ''s'' (MessageAppended 0 ex_user) ex2 = (Inr 4, st') \<and>
     st_notified st' = st_notified ex2 @ [(''s'', MessageAppended 4 ex_user)]"
proof -
  obtain st' where st': "append ex_text 0 ''s'' (MessageAppended 0 ex_user) ex2 = (Inr 4, st')"
    by (rule that [of "snd (append ex_text 0 ''s'' (MessageAppended 0 ex_user) ex2)"], rule prod_eqI) code_simp+
  have "event_in_range (MessageAppended 0 ex_user)" by code_simp
  from append_extends_log [OF ex2_reachable this st'] st' show ?thesis by auto
qed

text \<open>
  C6. Crash safety: an operation that fails changes nothing that survives the process, whatever it
  had written before failing.
\<close>

theorem failure_leaves_no_trace:
  "(append text_of now sid e st = (Inl err, st1) \<longrightarrow> durable_db st1 = durable_db st) \<and>
   (fork_session new_id now a st = (Inl err, st2) \<longrightarrow> durable_db st2 = durable_db st)"
  using append_durable_db fork_session_err by blast

theorem failure_leaves_no_trace_witness:
  "durable_db (snd (append ex_text 0 ''nope'' (MessageAppended 0 ex_user) ex2)) = durable_db ex2"
proof -
  have "append ex_text 0 ''nope'' (MessageAppended 0 ex_user) ex2 =
      (Inl (No_Session ''nope''), snd (append ex_text 0 ''nope'' (MessageAppended 0 ex_user) ex2))"
    by (rule prod_eqI) code_simp+
  then show ?thesis
    using failure_leaves_no_trace [of ex_text 0 "''nope''" "MessageAppended 0 ex_user" ex2] by blast
qed

text \<open>
  C7. Forking a session of a reachable store into a fresh id succeeds, if no transaction is open, the
  totals up to the fork point can be added up, the model of the origin can be read, the fork point is a
  64-bit number and the database has room for the copy. The fork's log is numbered 0, 1, and so on
  without a gap. It starts with the \<open>SessionForked\<close> of those totals; then come the copyable events up to
  the fork point, with their timestamps, every number of an event that was copied, the ends of a
  compaction's range included, replaced by its place among the copies (a number of an event that was not
  copied stays). The fork has no usage of its own, and no other session is touched.
\<close>

theorem fork_renumbers:
  assumes "store_reachable text_of st" and "st_txn st = None" and "in_u64 (fa_seq a)"
    and "fork_totals a (st_db st) = Inr t" and "session_of (fa_origin a) (st_db st) = Some r"
    and "Option.bind (s_model r) dec_model_ref = Some m" and "session_of (fa_new a) (st_db st) = None"
    and "int (length (events (st_db st)) + length (copy_rows_of a (st_db st))) < sqlite_max_rows"
  shows "\<exists>st' rows es. fork_session new_id ts a st = (Inr (), st') \<and> st_txn st' = None \<and>
     rows = copy_rows_of a (st_db st) \<and>
     map ev_seq (events_of (fa_new a) (st_db st')) = [0..<Suc (length rows)] \<and>
     map ev_kind (events_of (fa_new a) (st_db st')) = ''SessionForked'' # map ev_kind rows \<and>
     map ev_ts (tl (events_of (fa_new a) (st_db st'))) = map ev_ts rows \<and>
     map (\<lambda>r. dec_event n (ev_payload r)) rows = map Some es \<and>
     map (\<lambda>r. dec_event n (ev_payload r)) (events_of (fa_new a) (st_db st')) =
       map Some (SessionForked 0 (case t of (c, i, o', k) \<Rightarrow>
         fork_snapshot_of a c i o' k (fork_msgs a (st_db st)) (fork_ctx a (st_db st)) m) # map (fork_event rows) es) \<and>
     head_of (fa_new a) (st_db st') = Some (length rows) \<and>
     usages_of (fa_new a) (st_db st') = [] \<and>
     (\<forall>s. s \<noteq> fa_new a \<longrightarrow> events_of s (st_db st') = events_of s (st_db st) \<and>
        messages_of s (st_db st') = messages_of s (st_db st) \<and>
        usages_of s (st_db st') = usages_of s (st_db st) \<and>
        session_of s (st_db st') = session_of s (st_db st))"
proof -
  have "db_ok (st_db st)"
    using reachable_inv [OF assms(1)] assms(2) by (simp add: store_inv_def durable_db_def)
  from fork_effect [OF assms(2) this assms(3-8)] show ?thesis .
qed

theorem fork_renumbers_witness:
  "\<exists>st'. fork_session [] 0 ex_fork ex2 = (Inr (), st') \<and> usages_of ''t'' (st_db st') = []"
proof -
  have "st_txn ex2 = None" "in_u64 (fa_seq ex_fork)" "fork_totals ex_fork (st_db ex2) = Inr (450, 100, 10, 0)"
    "session_of (fa_origin ex_fork) (st_db ex2) = Some (the (session_of ''s'' (st_db ex2)))"
    "Option.bind (s_model (the (session_of ''s'' (st_db ex2)))) dec_model_ref = Some ex_model"
    "session_of (fa_new ex_fork) (st_db ex2) = None" "fa_new ex_fork = ''t''"
    by code_simp+
  moreover have "int (length (events (st_db ex2)) + length (copy_rows_of ex_fork (st_db ex2))) < sqlite_max_rows"
    by code_simp
  ultimately show ?thesis
    using fork_renumbers [OF ex2_reachable, of ex_fork "(450, 100, 10, 0)" "the (session_of ''s'' (st_db ex2))"
        ex_model "[]" 0 "[]"] by auto
qed



text \<open>
  C9. The message list of a plan never holds an unanswered tool call, whatever the log and the
  projection hold: calls a dead process left open are closed with an error result.
\<close>

theorem plan_closes_every_call:
  "calls_in (rp_messages (plan_request mint b64 parses sid st)) \<noteq> [] \<longrightarrow>
   set (calls_in (rp_messages (plan_request mint b64 parses sid st)))
     \<subseteq> set (answered (rp_messages (plan_request mint b64 parses sid st)))"
  using plan_no_orphan [of mint b64 parses sid st] by (simp add: has_orphan_iff)

theorem plan_closes_every_call_witness:
  "''c1'' \<in> set (answered (rp_messages (plan_request (\<lambda>_. ''x'') id (\<lambda>_. True) ''s'' ex4)))"
proof -
  have "calls_in (rp_messages (plan_request (\<lambda>_. ''x'') id (\<lambda>_. True) ''s'' ex4)) = [''c1'']"
    by code_simp
  with plan_closes_every_call [of "\<lambda>_. ''x''" id "\<lambda>_. True" "''s''" ex4] show ?thesis by simp
qed

text \<open>
  C10. A proposed compaction is a non-empty prefix of the plan's messages, at least half of them,
  and separates no tool call from its result; every shorter cut from the half on would.
\<close>

theorem compaction_keeps_pairs:
  assumes "rp_compact (plan_request mint b64 parses sid st) = Some c"
    and "msgs = rp_messages (plan_request mint b64 parses sid st)"
  shows "\<exists>k. cs_messages c = take k msgs \<and> 0 < k \<and> length msgs div 2 \<le> k \<and> k \<le> length msgs \<and>
     set (calls_in (take k msgs)) \<subseteq> set (answered (take k msgs)) \<and>
     (\<forall>j. length msgs div 2 \<le> j \<and> j < k \<longrightarrow>
        \<not> set (calls_in (take j msgs)) \<subseteq> set (answered (take j msgs)))"
proof -
  obtain seqs where c: "c = compact_span_of seqs msgs" and len: "2 \<le> length msgs"
    using plan_compact [OF assms(1)] assms(2) by auto
  have "\<not> has_orphan_tool_call msgs" using plan_no_orphan assms(2) by simp
  then have "\<not> has_orphan_tool_call (take (find_cut msgs (length msgs div 2)) msgs)"
    using compact_span_closed [of msgs seqs] by (simp add: compact_span_messages)
  then show ?thesis
    using find_cut_props [of "length msgs div 2" msgs] find_cut_pos [OF len]
    by (intro exI [of _ "find_cut msgs (length msgs div 2)"]) (auto simp: c compact_span_messages has_orphan_iff)
qed

theorem compaction_keeps_pairs_witness:
  "\<exists>c k. rp_compact (plan_request (\<lambda>_. ''x'') id (\<lambda>_. True) ''s'' ex4) = Some c \<and>
     cs_messages c = take k (rp_messages (plan_request (\<lambda>_. ''x'') id (\<lambda>_. True) ''s'' ex4)) \<and> 0 < k"
proof -
  let ?p = "plan_request (\<lambda>_. ''x'') id (\<lambda>_. True) ''s'' ex4"
  have "rp_compact ?p \<noteq> None" by code_simp
  then obtain c where c: "rp_compact ?p = Some c" by blast
  from compaction_keeps_pairs [OF c refl] c show ?thesis by blast
qed

text \<open>
  C11. The planner does not see what a provider cached. The usage a decoder makes of a prompt of \<open>p\<close>
  tokens counts as input only what was neither read from the cache nor written to it; once the store
  has recorded it, the context estimate of the session is that count, so that no compaction is planned
  while it is below the threshold, however large the prompt is.
\<close>

theorem planner_ignores_cached:
  assumes "store_reachable text_of st" and "append text_of now sid (UsageRecorded 0 u) st = (Inr k, st')"
    and "ur_tokens u = decode_usage (usage_json p r w out)"
    and "in_u32 p" and "in_u32 out" and "r + w \<le> p"
  shows "context_estimate sid (st_db st') = int (p - (r + w)) \<and>
    ((\<forall>s. get_model_spec_for_session (mint 0) sid st' = Some s \<longrightarrow>
        int (p - (r + w)) < compact_threshold (ms_ctx_window s)) \<longrightarrow>
      rp_compact (plan_request mint b64 parses sid st') = None)"
proof -
  have "st_txn st = None" using assms(2) by (auto simp: append_Inr_iff)
  then have "db_ok (st_db st)"
    using reachable_inv [OF assms(1)] by (simp add: store_inv_def durable_db_def)
  from estimate_after_usage [OF this assms(2)] have e: "context_estimate sid (st_db st') = int (p - (r + w))"
    by (simp add: assms(3) decode_usage_partition [OF assms(4-6)])
  with no_compaction_below [of mint sid st' b64 parses] show ?thesis by simp
qed

theorem planner_ignores_cached_witness:
  "context_estimate ''s'' (st_db ex_cached) = 10 \<and>
   rp_compact (plan_request (\<lambda>_. ''x'') id (\<lambda>_. True) ''s'' ex_cached) = None"
proof -
  have ok: "fst (append ex_text 0 ''s'' (UsageRecorded 0 ex_cached_usage) ex4) = Inr 4" by code_simp
  then have a: "append ex_text 0 ''s'' (UsageRecorded 0 ex_cached_usage) ex4 = (Inr 4, ex_cached)"
    by (metis ex_cached_def prod.collapse)
  have "get_model_spec_for_session ''x'' ''s'' ex_cached = Some ex_spec" by code_simp
  moreover have "(10 :: int) < compact_threshold (ms_ctx_window ex_spec)" by code_simp
  moreover have "ur_tokens ex_cached_usage = decode_usage (usage_json 1000 990 0 5)" by (simp add: ex_cached_usage_def)
  ultimately show ?thesis
    using planner_ignores_cached [OF ex4_reachable a, of 1000 990 0 5 "\<lambda>_. ''x''" id "\<lambda>_. True"]
    by (simp add: in_u32_def u32_max_def)
qed

text \<open>
  C12. An append to a session that does not exist (for one that was deleted under a running turn,
  say) returns its error with the transaction still open. From then on, whatever operations of the store
  follow in this process, every append of a durable event, fork, empty fork, delete and reproject fails
  and changes nothing, and nothing that is written otherwise (a new session, live tables, blobs, keys,
  preferences) becomes durable: what the file holds for the next process is what it held before.
\<close>

theorem unknown_session_wedges_store:
  fixes text_of :: "json \<Rightarrow> string" and now :: int
  assumes "st_txn st = None" and "is_durable e" and "session_of sid (st_db st) = None"
    and "same_process text_of (snd (append text_of now sid e st)) w"
  shows "fst (append text_of now sid e st) = Inl (No_Session sid) \<and>
     (is_durable e' \<longrightarrow> append text_of now' sid' e' w = (Inl Begin_Failed, w)) \<and>
     fork_session new_id now' a w = (Inl Begin_Failed, w) \<and>
     fork_session_empty now' a w = (Inl Begin_Failed, w) \<and>
     reproject new_id w = (Inl Begin_Failed, w) \<and>
     (\<exists>x. delete_session text_of sid' w = (Inl x, w)) \<and>
     durable_db w = durable_db st"
proof -
  have first: "append text_of now sid e st = (Inl (No_Session sid), st\<lparr>st_txn := Some (st_db st)\<rparr>)"
    using assms(1-3) by (simp add: append_def begin_immediate_def is_durable_def head_of_def)
  then have "st_txn w = Some (st_db st)"
    using open_txn_stays [OF assms(4)] by simp
  from open_txn_refuses [OF this] first assms(1) show ?thesis
    by (simp add: durable_db_def)
qed

theorem unknown_session_wedges_store_witness:
  "append ex_text 0 ''s'' (MessageAppended 0 ex_user) ex_wedged = (Inl Begin_Failed, ex_wedged) \<and>
   durable_db ex_wedged = durable_db ex2 \<and> kvs (st_db ex_wedged) \<noteq> kvs (durable_db ex_wedged)"
proof -
  have "st_txn ex2 = None" "session_of ''nope'' (st_db ex2) = None" "kvs (st_db ex_wedged) \<noteq> kvs (durable_db ex2)"
    by code_simp+
  moreover have "is_durable (MessageAppended 0 ex_user)" by (simp add: is_durable_def)
  ultimately show ?thesis
    using unknown_session_wedges_store [where st = ex2 and e = "MessageAppended 0 ex_user" and sid = "''nope''"
        and e' = "MessageAppended 0 ex_user" and text_of = ex_text and now = 0 and w = ex_wedged]
      ex_wedged_same_process by auto
qed

section \<open>The vocabulary and the bus\<close>



text \<open>
  C14. A subscriber of a reachable bus sees exactly the observable form of what is emitted, in order,
  with the oldest dropped when its ring is full: after any run of emits its ring holds the last
  entries, up to its capacity, of what it held followed by what was emitted.
\<close>

theorem bus_window:
  assumes "bus_reachable b" and "sub_window b i = Some (n, buf)"
  shows "sub_window (fold bus_emit ls b) i = Some (n, last_n n (buf @ concat (map observable ls)))"
  by (rule busk.emits_window [OF bus_reachable_ok [OF assms(1)] assms(2)])

theorem bus_window_witness:
  "sub_window (fold bus_emit [TurnStarted 1, TurnFinishing 1 Stop, TurnEnded 1 Stop]
      (snd (subscribe 1 bus_new))) 0 = Some (1, [Ev_TurnEnded 1 Stop])"
proof -
  have "bus_reachable (snd (subscribe 1 bus_new))"
    by (rule reach_step [OF reach_new step_subscribe])
  moreover have "sub_window (snd (subscribe 1 bus_new)) 0 = Some (1, [])" by code_simp
  ultimately show ?thesis
    by (simp only: bus_window) (simp add: observable_def to_observable_event_def is_internal_def last_n_def)
qed

section \<open>Tools, hooks and the provider side\<close>

text \<open>
  C15. The wildcard matcher of tool policies, with its greedy search from left to right, decides
  exactly the patterns where a star stands for any sequence of characters.
\<close>

theorem wildcard_is_glob:
  "wildcard_match pattern v = glob pattern v"
  by (rule wildcard_match_glob)

text \<open>
  C16. Plugin vetoes compose to the strictest reply whatever the order of the plugins, as long as none
  replaces the arguments; a plugin that does replace them overrides every earlier denial.
\<close>

theorem composed_veto:
  assumes "\<forall>h \<in> set hs. \<not> is_replace (hk_before_tool_call h t a w)"
  shows "(\<forall>h \<in> set hs. severity (hk_before_tool_call h t a w) \<le> severity (hk_before_tool_call (composed hs) t a w)) \<and>
     hk_before_tool_call (composed hs) t a w \<in> insert Veto_Allow ((\<lambda>h. hk_before_tool_call h t a w) ` set hs) \<and>
     (\<forall>h'. is_replace (hk_before_tool_call h' t a w) \<longrightarrow>
        hk_before_tool_call (composed (hs @ [h'])) t a w = hk_before_tool_call h' t a w)"
proof -
  let ?vs = "map (\<lambda>h. hk_before_tool_call h t a w) hs"
  have none: "\<forall>v \<in> set ?vs. \<not> is_replace v" using assms by auto
  have "compose_veto s (vs @ [v]) = v" if "\<forall>x \<in> set vs. \<not> is_replace x" "is_replace v" for s vs v
    using that by (induction vs arbitrary: s) auto
  with none compose_veto_strictest [OF none, of Veto_Allow] show ?thesis
    by (auto simp: composed_def)
qed

theorem composed_veto_witness:
  "hk_before_tool_call (composed
     [noop_hooks\<lparr>hk_before_tool_call := \<lambda>_ _ _. Veto_Deny ''no''\<rparr>,
      noop_hooks\<lparr>hk_before_tool_call := \<lambda>_ _ _. Veto_Replace JNull\<rparr>]) ''rm'' JNull ''/'' = Veto_Replace JNull"
  using composed_veto [of "[noop_hooks\<lparr>hk_before_tool_call := \<lambda>_ _ _. Veto_Deny ''no''\<rparr>]" "''rm''" JNull "''/''"]
  by (simp add: is_replace_def)

text \<open>
  C17. Assembly of a stream that announces its calls: every delta is emitted in stream order; the
  message holds, by block index, the concatenated texts, then the thinking blocks, then one call per
  announcement with its concatenated arguments; and if the arguments of a call do not parse, the
  result is \<open>Truncated\<close> and no message.
\<close>

theorem assemble_stream:
  assumes "announced {} cs"
  shows "fst (assemble parses m (map Inr cs)) = concat (map (delta_event m) cs) \<and>
     (case snd (assemble parses m (map Inr cs)) of
        Inl e \<Rightarrow> e = Truncated \<and> (\<exists>h \<in> set (call_heads cs). \<not> parses (call_args cs (fst h)))
      | Inr a \<Rightarrow> (\<forall>h \<in> set (call_heads cs). parses (call_args cs (fst h))) \<and>
          am_message a = \<lparr>msg_id = m, msg_role = Role_Assistant, msg_content = stream_content cs, msg_silent = False\<rparr> \<and>
          (am_usage_reported a \<longleftrightarrow> (\<exists>u. Chunk_Usage u \<in> set cs)))"
  by (rule assemble_complete [OF assms])

theorem assemble_stream_witness:
  "\<exists>a. snd (assemble (\<lambda>s. s = ''{}'') ''m'' (map Inr ex_chunks)) = Inr a \<and>
     msg_content (am_message a) = [Text ''hey'', content.ToolCall ''c1'' ''echo'' ''{}'']"
proof -
  have "announced {} ex_chunks" by (simp add: ex_chunks_def)
  from assemble_stream [OF this, of "\<lambda>s. s = ''{}''" "''m''"]
  have "case snd (assemble (\<lambda>s. s = ''{}'') ''m'' (map Inr ex_chunks)) of
      Inl e \<Rightarrow> \<exists>h \<in> set (call_heads ex_chunks). call_args ex_chunks (fst h) \<noteq> ''{}''
    | Inr a \<Rightarrow> msg_content (am_message a) = stream_content ex_chunks"
    by (auto split: sum.splits)
  moreover have "stream_content ex_chunks = [Text ''hey'', content.ToolCall ''c1'' ''echo'' ''{}'']"
    "\<not> (\<exists>h \<in> set (call_heads ex_chunks). call_args ex_chunks (fst h) \<noteq> ''{}'')" by code_simp+
  ultimately show ?thesis by (auto split: sum.splits)
qed

text \<open>
  C18. Whatever the stream, an assembled message never holds a call with unparseable arguments, and a
  stream with an error in it assembles to that error.
\<close>

theorem assembled_args_parse:
  assumes "snd (assemble parses m cs) = Inr a"
  shows "(\<forall>c n args. content.ToolCall c n args \<in> set (msg_content (am_message a)) \<longrightarrow> parses args) \<and>
     (\<forall>r \<in> set cs. \<exists>c. r = Inr c)"
  using assemble_InrD [OF assms] by auto

theorem assembled_args_parse_witness:
  "\<exists>a. snd (assemble (\<lambda>s. s = ''{}'') ''m'' (map Inr ex_chunks)) = Inr a \<and>
     (\<forall>c n args. content.ToolCall c n args \<in> set (msg_content (am_message a)) \<longrightarrow> args = ''{}'')"
proof -
  have "case snd (assemble (\<lambda>s. s = ''{}'') ''m'' (map Inr ex_chunks)) of Inl _ \<Rightarrow> False | Inr _ \<Rightarrow> True" by code_simp
  then obtain a where a: "snd (assemble (\<lambda>s. s = ''{}'') ''m'' (map Inr ex_chunks)) = Inr a"
    by (auto split: sum.splits)
  from assembled_args_parse [OF this] a show ?thesis by blast
qed



text \<open>
  C20. Streamed or not, an answer is the same. An answer is cut into frames, each of which may carry text,
  thinking and pieces of any number of calls; a piece is of the call at its index, it may announce the
  call, and it may bring a part of the arguments, in the frame that announces the call or in later ones,
  of several calls in turn. After them come the frame with the finish reason and the one with the usage,
  and between the frames any other lines. Then the attempt that streams it and the one that reads the same
  answer as a single response assemble to the same message, calls, usage and stop reason, or both to the
  same error. Every call is announced once and before its other pieces, with an id that is not empty, and
  the calls of the response are in the order of their indices.
\<close>

theorem streamed_or_not:
  assumes "\<forall>c \<in> set (said ps). chat_chunk c" and "announced {} (said ps)" and "r \<noteq> []" and "r \<noteq> ''null''"
    and "q_api q \<noteq> ''responses''"
    and "map parse (List.map_filter payload_of ls) = map Inr (map frame_of ps @ [finish_frame r, usage_frame u])"
    and "''[DONE]'' \<notin> set (List.map_filter payload_of ls)" and "drop_eol end_line = ''data: [DONE]''"
    and "parse b = Inr (response_of (said ps) r u)"
  shows "\<exists>xs ys.
    attempt_response parse text_of (q\<lparr>q_streaming := True\<rparr>) m 200 body (replicate (Suc (length ls)) False)
      (map Inr (ls @ [end_line])) = Done (Inr xs) \<and>
    attempt_response parse text_of (q\<lparr>q_streaming := False\<rparr>) m 200 (Inr b) flags rest = Done (Inr ys) \<and>
    snd (assemble parses i xs) = snd (assemble parses i ys)"
  by (rule attempts_agree [OF assms])

theorem streamed_or_not_witness:
  "\<exists>xs ys.
    attempt_response ex_parses ex_text (default_quirks\<lparr>q_streaming := True\<rparr>) ex_model 200 (Inl [])
      (replicate (Suc (length ex_lines)) False) (map Inr (ex_lines @ [''data: [DONE]''])) = Done (Inr xs) \<and>
    attempt_response ex_parses ex_text (default_quirks\<lparr>q_streaming := False\<rparr>) ex_model 200 (Inr ''6'') [] [] = Done (Inr ys) \<and>
    snd (assemble (\<lambda>_. True) ''m'' xs) = snd (assemble (\<lambda>_. True) ''m'' ys)"
proof (rule streamed_or_not [where ps = ex_pieces and r = "''tool_calls''" and u = ex_count])
  show "map ex_parses (List.map_filter payload_of ex_lines) =
      map Inr (map frame_of ex_pieces @ [finish_frame ''tool_calls'', usage_frame ex_count])"
    by code_simp
qed code_simp+



text \<open>
  C22. A PNG that was cut anywhere after a complete chunk of image data is repaired to the complete chunks
  it has, all of them and in order, with the terminator; and a repaired PNG needs no repair.
\<close>

theorem png_repair:
  assumes "\<forall>c \<in> set cs. chunk_ok c" and "''IDAT'' \<in> fst ` set (take i cs)"
    and "length (png_magic @ concat (map chunk_bytes (take i cs))) \<le> k" and "k < length (png_of cs)"
  shows "\<exists>n. repair_png (take k (png_of cs)) = Some (png_of (take n cs)) \<and> ''IDAT'' \<in> fst ` set (take n cs) \<and>
    length (png_magic @ concat (map chunk_bytes (take n cs))) \<le> k \<and>
    (n < length cs \<longrightarrow> k < length (png_magic @ concat (map chunk_bytes (take (Suc n) cs)))) \<and>
    repair_png (png_of (take n cs)) = None"
  by (rule repair_truncated [OF assms])

theorem png_repair_witness:
  "\<exists>n. repair_png (take 40 (png_of ex_png)) = Some (png_of (take n ex_png)) \<and> repair_png (png_of (take n ex_png)) = None"
proof -
  have "\<forall>c \<in> set ex_png. chunk_ok c" by (simp add: ex_png_def chunk_ok_def)
  moreover have "''IDAT'' \<in> fst ` set (take 2 ex_png)" by (simp add: ex_png_def)
  moreover have "length (png_magic @ concat (map chunk_bytes (take 2 ex_png))) \<le> 40" "40 < length (png_of ex_png)"
    by (simp_all add: ex_png_def png_magic_def chunk_bytes_def be32_bytes_def png_of_def iend_chunk_def)
  ultimately show ?thesis using png_repair [of ex_png 2 40] by blast
qed

section \<open>The loop\<close>

text \<open>
  C23. Authorization fails closed: a call is executed only if its tool is neither disabled nor blocked,
  its arguments parse to an object, the policy hook answered without panicking, and it allowed the
  call, rewrote its arguments, or asked and the approver said yes to these very arguments.
\<close>

theorem authorize_fails_closed:
  assumes "authorize env p call w = (Plan_Execute args, w')" and "x = snd (e_blocked env (w_ext w))"
  shows "tc_name call \<notin> set (pr_disabled_tools p) \<and> tc_name call \<notin> set (fst (e_blocked env (w_ext w))) \<and>
     (\<exists>j v. e_parse env (tc_args call) = Inr j \<and> is_object j \<and>
        fst (e_before_tool_call env (tc_name call) j (pr_cwd p) x) = Some v \<and>
        (v = Veto_Allow \<and> args = j \<or> v = Veto_Replace args \<or>
         (\<exists>r. v = Veto_Ask r \<and> args = j \<and>
            fst (snd (e_approve env (call\<lparr>tc_args := e_render env j\<rparr>) (pr_cwd p) r (pr_session p)
              (snd (e_before_tool_call env (tc_name call) j (pr_cwd p) x)))) = Decide_Allow)))"
  using authorize_Execute [OF assms(1)] unfolding assms(2) .

theorem authorize_fails_closed_witness:
  "\<exists>w'. authorize (ex_env False) ex_params ex_tool_call (ex_world []) = (Plan_Execute (JObj []), w') \<and>
     ''echo'' \<notin> set (pr_disabled_tools ex_params)"
proof -
  have "fst (authorize (ex_env False) ex_params ex_tool_call (ex_world [])) = Plan_Execute (JObj [])" by code_simp
  then obtain w' where w': "authorize (ex_env False) ex_params ex_tool_call (ex_world []) = (Plan_Execute (JObj []), w')"
    by (metis prod.collapse)
  have "tc_name ex_tool_call = ''echo''" by (simp add: ex_tool_call_def)
  with authorize_fails_closed [OF w' refl] w' show ?thesis by auto
qed

text \<open>
  C24. A tool batch that returns its results returns one result per call, in the order of the calls,
  whatever was denied, aborted, abandoned, or run on threads and finished in another order.
\<close>

theorem one_result_per_call:
  assumes "run_tool_batch env p calls w = Some (Inr results, w')"
  shows "map result_id_of results = map (Some \<circ> tc_id) calls"
  by (rule batch_results [OF assms])

theorem one_result_per_call_witness:
  "\<exists>results w'. run_tool_batch (ex_env True) ex_params ex_calls (ex_world []) = Some (Inr results, w') \<and>
     map result_id_of results = [Some ''c1'', Some ''c2'']"
proof -
  obtain results w' where r: "run_tool_batch (ex_env True) ex_params ex_calls (ex_world []) = Some (Inr results, w')"
    using ex_batch by blast
  have "map tc_id ex_calls = [''c1'', ''c2'']" by (simp add: ex_calls_def ex_tool_call_def)
  with one_result_per_call [OF r] r show ?thesis by (simp flip: map_map)
qed

text \<open>
  C25. Once the turn is cancelled, collecting the results of a batch returns, even if a tool on a
  thread never notices: the flag stays set, the clock does not go back and a poll takes time.
\<close>

theorem cancelled_batch_returns:
  assumes "settled env I time" and "I (w_ext w)"
    and "\<forall>k \<in> set (w_workers w). tool_settled I time (wk_tool k)"
  shows "\<exists>results' w'. collect_results env p handles results w = Some (results', w')"
proof -
  have "world_settled I time w" using assms(2,3) by (simp add: world_settled_def)
  from collect_returns [OF assms(1) this] show ?thesis by auto
qed

theorem cancelled_batch_returns_witness:
  "\<exists>results' w'. collect_results ((ex_env True)\<lparr>e_poll := \<lambda>x. ([], x\<lparr>xs_time := xs_time x + 25\<rparr>)\<rparr>) ex_params
     [(0, 0, ''echo'', JObj [], ''c1'')] [None]
     ((ex_world [])\<lparr>w_ext := ex_script\<lparr>xs_cancel := True\<rparr>,
        w_workers := [\<lparr>wk_tool = ex_tool True, wk_args = JObj [], wk_id = ''c1'', wk_name = ''echo'', wk_phase = Wk_Run\<rparr>]\<rparr>)
     = Some (results', w')"
  by (rule cancelled_batch_returns [where I = xs_cancel and time = xs_time])
    (simp_all add: settled_def tool_settled_def ex_env_def ex_process_def ex_tool_def)



text \<open>
  C27. The budgets of an attempt loop bound what a turn may cost: it asks the provider at most once,
  plus once for each truncation retry and each re-plan the configuration allows.
\<close>

theorem provider_budget:
  assumes "counts_requests env c"
  shows "c (w_ext (snd (attempt_loop env p reminders 0 0 w)))
     \<le> c (w_ext w) + rc_truncation_attempts (pr_config p) + rc_max_context_replans (pr_config p) + 1"
proof -
  have "asked c (c (w_ext w)) w" by (simp add: asked_def)
  from attempt_loop_requests [OF assms this, of p 0 0 reminders] show ?thesis by (simp add: asked_def)
qed

theorem provider_budget_witness:
  "xs_requests (w_ext (snd (attempt_loop (ex_env False) ex_params [] 0 0 (ex_world [])))) \<le> 6"
proof -
  have "counts_requests (ex_env False) xs_requests"
    by (auto simp: counts_requests_def quiet_def ex_env_def ex_process_def split: list.split)
  from provider_budget [OF this, of ex_params "[]" "ex_world []"] show ?thesis
    by (simp add: ex_params_def default_config_def ex_world_def ex_script_def)
qed

text \<open>
  C28. On the sqlite store a run only adds rows, and only to its own session's log: the rows it found
  stay where they are, and every other session's log is untouched, however the run ends.
\<close>

theorem run_adds_rows:
  assumes "run (sqlite_env mint b64 parses text_of now show_err env) p w = Some (r, w')"
  shows "\<exists>rows. events (st_db (w_store w')) = events (st_db (w_store w)) @ rows \<and>
     (\<forall>e \<in> set rows. ev_session e = pr_session p) \<and>
     (\<forall>t. t \<noteq> pr_session p \<longrightarrow> events_of t (st_db (w_store w')) = events_of t (st_db (w_store w)))"
proof -
  have "extends_session (pr_session p) (w_store w) (w_store w')"
    using loop_store.run_from_keeps [OF assms [unfolded run_def] refl extends_session_refl [OF refl]] by simp
  then show ?thesis
    by (auto simp: extends_session_other) (auto simp: extends_session_def)
qed

theorem run_adds_rows_witness:
  "\<exists>r w' rows. run ex_store_env ex_params (ex_world ex2) = Some (r, w') \<and>
     events (st_db (w_store w')) = events (st_db ex2) @ rows"
proof -
  have "sequential_tools ex_store_env" "rc_max_turns (pr_config ex_params) = Some 2"
    by (simp_all add: sequential_tools_def ex_store_env_def sqlite_env_def ex_process_def ex_tool_def ex_params_def)
  from run_from_returns [OF this] obtain r w' where run: "run ex_store_env ex_params (ex_world ex2) = Some (r, w')"
    by (metis run_def surj_pair)
  have "w_store (ex_world ex2) = ex2" by (simp add: ex_world_def)
  with run_adds_rows [OF run [unfolded ex_store_env_def]] run show ?thesis by auto
qed

text \<open>
  C29. However a run returns, with a stop reason or with an error, the last two events on the bus are
  \<open>TurnFinishing\<close> and \<open>TurnEnded\<close> of the same turn with the same reason, \<open>Aborted\<close> for an error. Only
  an unwinding run skips them.
\<close>

theorem run_closes:
  assumes "run env p w = Some (r, w')" and "r \<noteq> Inl Unwound"
  shows "\<exists>out t stop. w_out w' = out @ [TurnFinishing t stop, TurnEnded t stop] \<and>
     (r = Inr stop \<or> (\<exists>e. r = Inl (Returned e)) \<and> stop = Aborted)"
  using run_from_ends [OF assms(1) [unfolded run_def]] assms(2) by simp

theorem run_closes_witness:
  "\<exists>w' out. run (ex_env False) ex_params (ex_world []) = Some (Inr Stop, w') \<and>
     (\<exists>t. w_out w' = out @ [TurnFinishing t Stop, TurnEnded t Stop])"
proof -
  have "map_option fst (run (ex_env False) ex_params (ex_world [])) = Some (Inr Stop)"
    by code_simp
  then obtain w' where run: "run (ex_env False) ex_params (ex_world []) = Some (Inr Stop, w')" by auto
  from run_closes [OF run] run show ?thesis by auto
qed

section \<open>The server\<close>

text \<open>
  C30. One writer at a time: a lease token that was superseded by a later grant of its session is
  refused by every check, refresh and release for good, and a lease that is neither idle nor taken
  over is granted to nobody else.
\<close>

theorem stale_holder_locked_out:
  assumes "lease_run idle gs t m"
  shows "(gs = newer @ (sid, h) # older \<longrightarrow> sid \<in> fst ` set newer \<longrightarrow>
      holds t sid h m = (False, m) \<and> touch t sid h m = (False, m) \<and> release sid h m = (False, m) \<and>
      force_release sid h m = m) \<and>
    (lease_of sid m = Some l \<longrightarrow> t - le_active l < idle \<longrightarrow> acquire token t sid False m = (Busy, m))"
proof -
  have "lm_idle m = idle" using lease_run_inv [OF assms] by blast
  moreover have "holds t sid h m = (False, m) \<and> touch t sid h m = (False, m) \<and>
      release sid h m = (False, m) \<and> force_release sid h m = m"
    if "gs = newer @ (sid, h) # older" "sid \<in> fst ` set newer"
    using superseded_not_held [OF assms that]
    by (simp add: holds_def touch_def release_def force_release_def split: option.split)
  ultimately show ?thesis by (auto simp: acquire_def)
qed

theorem stale_holder_locked_out_witness:
  "release ''s'' ''lease-1-x'' ex_leases = (False, ex_leases) \<and>
   acquire ''z'' 1 ''s'' False ex_leases = (Busy, ex_leases)"
proof -
  have "lease_of ''s'' ex_leases = Some \<lparr>le_holder = ''lease-2-y'', le_active = 1\<rparr>" by code_simp
  with stale_holder_locked_out [OF ex_leases_run, of "[(''s'', ''lease-2-y'')]" "''s''" "''lease-1-x''" "[]"
      "\<lparr>le_holder = ''lease-2-y'', le_active = 1\<rparr>" "''z''"]
  show ?thesis by simp
qed

text \<open>
  C31. What a request must carry to write to a session: a prompt, steer, abort, model or compact
  request that reaches its route has no Origin, presents the server's bearer token, and its
  \<^verbatim>\<open>X-Lease\<close> is the latest grant of that session and not idle; passing the guard refreshes it.
\<close>

theorem guard_writes:
  assumes "lease_run idle gs t m" and "handle token t req m = (Dispatch [''session'', sid, action], m')"
    and "hr_method req = Post" and "action \<in> {''prompt'', ''steer'', ''abort'', ''model'', ''compact''}"
  shows "header ''Origin'' req = None \<and>
    (\<exists>a. header ''Authorization'' req = Some a \<and> parse_bearer a = Some token) \<and>
    (\<exists>h l. header ''X-Lease'' req = Some h \<and> map_of gs sid = Some h \<and>
       lease_of sid m = Some l \<and> le_holder l = h \<and> t - le_active l < idle \<and>
       lease_of sid m' = Some \<lparr>le_holder = h, le_active = t\<rparr>)"
proof -
  have inv: "lease_inv gs m" "lm_idle m = idle" using lease_run_inv [OF assms(1)] by blast+
  have "is_lease_required (hr_method req) [''session'', sid, action]"
    using assms(3,4) by (simp add: is_lease_required_def)
  then obtain h where h: "header ''X-Lease'' req = Some h" "holds t sid h m = (True, m')"
    using handle_leased [OF assms(2), of sid] by (auto simp: lease_session_for_def)
  then obtain l where "lease_of sid m = Some l" "le_holder l = h" "t - le_active l < idle"
      "lease_of sid m' = Some (l\<lparr>le_active := t\<rparr>)"
    using holds_TrueD [OF h(2)] inv by auto
  with inv h handle_authed [OF assms(2)] show ?thesis by (auto simp: lease_inv_def)
qed

theorem guard_writes_witness:
  "\<exists>m'. handle ''tok'' 1 (ex_request ''/session/s/prompt?x=1'' []) ex_leases =
       (Dispatch [''session'', ''s'', ''prompt''], m') \<and>
     lease_of ''s'' m' = Some \<lparr>le_holder = ''lease-2-y'', le_active = 1\<rparr>"
proof -
  let ?r = "ex_request ''/session/s/prompt?x=1'' []"
  have "header ''Origin'' ?r = None" by code_simp
  moreover have "segments (path_of (hr_url ?r)) = [''session'', ''s'', ''prompt'']" by code_simp
  moreover have "check_lease 1 ?r [''session'', ''s'', ''prompt''] ex_leases = (True, ex_leases)"
    by (rule prod_eqI) code_simp+
  moreover have "is_lease_required (hr_method ?r) [''session'', ''s'', ''prompt'']" by code_simp
  ultimately have h: "handle ''tok'' 1 ?r ex_leases = (Dispatch [''session'', ''s'', ''prompt''], ex_leases)"
    using ex_request_authed by (simp add: handle_def token_matches_iff)
  have "header ''X-Lease'' ?r = Some ''lease-2-y''" by code_simp
  with guard_writes [OF ex_leases_run h] h show ?thesis by (auto simp: ex_request_def)
qed

text \<open>
  C32. Attaching loses and repeats nothing, as far as the ring has lost nothing: if the durable echoes
  it holds are a gapless run that starts at most one past the head that was read, the prelude is the
  log after the client's cursor, each event once and in order, then the partial message, then the
  transient events and the echoes above the head. Whatever the ring lost, when no gap is reported
  the echoes that are forwarded are exactly the numbers between the head and the new cursor.
\<close>

theorem attach_exact:
  fixes evs :: "event list" and new_id :: msg_id
  assumes "store_reachable text_of st" and "st_txn st = None" and "store_log st sid = Some es"
    and "in_i64 (int from)"
  defines "p \<equiv> build_attach_prelude text_of new_id st sid from evs"
    and "fwd \<equiv> filter (\<lambda>e. case seq e of None \<Rightarrow> True | Some n \<Rightarrow> length es < n) evs"
  shows "ap_frames p = map (sse_frame text_of) (drop from es) @
      (case get_live_message sid st of Some q \<Rightarrow> [live_partial_frame (text_of q)] | None \<Rightarrow> []) @
      map (sse_frame text_of) fwd \<and>
    ap_head p = length es \<and>
    (durable_seqs evs = [k + 1..<n + 1] \<and> k \<le> length es \<longrightarrow>
      \<not> ap_gap p \<and> ap_contiguous p = max (length es) n) \<and>
    (\<not> ap_gap p \<longrightarrow> set (durable_seqs fwd) = {length es<..ap_contiguous p})"
proof -
  let ?f = "flush (length es) evs (length es) False"
  have r: "read_durable_since new_id st sid from = (drop from es, length es)"
    by (rule read_durable_log [OF reachable_inv [OF assms(1)] assms(2-4)])
  have fwd: "fst ?f = fwd" unfolding fwd_def by (rule flush_events)
  have gapless: "snd ?f = (max (length es) n, False)"
    if "durable_seqs evs = [k + 1..<n + 1]" "k \<le> length es"
    using flush_gapless [OF that(1), of "length es" "length es"] that(2) by simp
  have "set (durable_seqs fwd) = {length es<..fst (snd ?f)}" if "\<not> snd (snd ?f)"
  proof -
    have "?f = (fwd, fst (snd ?f), False)" using fwd that by (cases ?f) auto
    from flush_no_gap [OF this] have "{m \<in> set (durable_seqs fwd). length es < m} = {length es<..fst (snd ?f)}"
      by blast
    moreover have "\<forall>m \<in> set (durable_seqs fwd). length es < m"
      unfolding fwd_def durable_seqs_def by (auto simp: List.map_filter_def split: option.splits)
    ultimately show ?thesis by auto
  qed
  then show ?thesis
    using fwd gapless unfolding p_def build_attach_prelude_def r by (cases ?f) auto
qed

theorem attach_exact_witness:
  "ap_head (build_attach_prelude ex_text ''n'' ex2 ''s'' 1 [MessageAppended 3 ex_user, MessageAppended 4 ex_user]) = 3 \<and>
   ap_contiguous (build_attach_prelude ex_text ''n'' ex2 ''s'' 1 [MessageAppended 3 ex_user, MessageAppended 4 ex_user]) = 4"
proof -
  have "\<exists>es. store_log ex2 ''s'' = Some es \<and> length es = 3"
    by (rule exI [of _ "the (store_log ex2 ''s'')"]) code_simp
  then obtain es where es: "store_log ex2 ''s'' = Some es" "length es = 3" by blast
  have "st_txn ex2 = None" "in_i64 (int 1)" by code_simp+
  moreover have "durable_seqs [MessageAppended 3 ex_user, MessageAppended 4 ex_user] = [2 + 1..<4 + 1]"
    by (simp add: durable_seqs_def List.map_filter_simps upt_rec)
  ultimately show ?thesis
    using attach_exact [OF ex2_reachable _ es(1), of 1 "''n''" "[MessageAppended 3 ex_user, MessageAppended 4 ex_user]" 2 4]
      es(2) by simp
qed

text \<open>
  C33. An approval fails closed: in a server whose approvals started from the config file's, a request
  is allowed only if the config had that fingerprint, or a user answered a question with the same
  fingerprint with allow for always, or for the session in question, or yeses this very question with
  allow. And it does not wait for ever: once the turn is cancelled or the deadline passed, it returns.
\<close>

theorem approval_needs_user:
  assumes "approvals_run pt qt parse c0 questions yeses st"
  shows "(interactive_request pt qt parse limit now call cwd reason sid ps st = Some (Decide_Allow, evs, st') \<longrightarrow>
      (let fp = fingerprint parse call
       in fp \<in> ac_persistent c0 \<or>
          (\<exists>i m. (i, m) \<in> questions \<and> am_fingerprint m = fp \<and>
             ((i, ''always'') \<in> yeses \<or> (i, ''session'') \<in> yeses \<and> am_session m = sid)) \<or>
          (\<exists>p \<in> set ps. \<exists>op \<in> set (po_ops p). approval_answers op (ap_next st) Decide_Allow))) \<and>
    ((\<exists>p \<in> set ps. po_cancelled p \<or> past (map_option (\<lambda>d. now + d) limit) (po_now p)) \<longrightarrow>
      interactive_request pt qt parse limit now call cwd reason sid ps st \<noteq> None) \<and>
    (non_interactive_request parse call reason sid (ap_cache st) = Decide_Allow \<longrightarrow>
      is_approved (Some sid) (fingerprint parse call) (ap_cache st))"
proof -
  have inv: "approvals_inv c0 questions yeses st" by (rule approvals_run_inv [OF assms])
  then have "slots_ok (ap_next st) (ap_slots st)" "cache_founded c0 questions yeses (ap_cache st)"
    by (simp_all add: approvals_inv_def)
  with request_answered [of pt qt parse limit now call cwd reason sid ps st evs st'] request_returns
    approvedD [of sid "fingerprint parse call" "ap_cache st" c0 questions yeses]
  show ?thesis by (auto simp: Let_def non_interactive_request_def)
qed

theorem approval_needs_user_witness:
  "interactive_request (\<lambda>_. None) (\<lambda>_. None) (\<lambda>_. None) (Some 5) 0 ex_write_call [] [] ''s''
     [\<lparr>po_ops = [], po_cancelled = False, po_now = 9\<rparr>] (approvals_new ex_cache ex_file) \<noteq> None"
proof -
  have "approvals_run (\<lambda>_. None) (\<lambda>_. None) (\<lambda>_. None) ex_cache {} {} (approvals_new ex_cache ex_file)"
    by (rule run_start) (simp add: ex_cache_def)
  from approval_needs_user [OF this, of "Some 5" 0 ex_write_call "[]" "[]" "''s''"
      "[\<lparr>po_ops = [], po_cancelled = False, po_now = 9\<rparr>]"]
  show ?thesis by (simp add: past_def)
qed

text \<open>
  C34. The registration of turns: in every reachable state the running count is the number of turn
  slots alive, so the server does not exit under a turn; a registered turn has a live slot, so no session
  stays busy without one. A release or an abort that names another turn than the registered one changes
  nothing, and a slot that is dropped changes nothing then but the idle accounting. Dropping a slot sets no
  cancel flag in any case, and an abort of the registered turn sets its flag and no other.
\<close>

theorem turn_registry:
  assumes "turns_run live st"
  shows "it_running (tu_idle st) = of_nat (length live) \<and>
    (0 < length live \<and> length live < 2 ^ 64 \<longrightarrow> \<not> should_exit now (tu_idle st)) \<and>
    (is_turn_running sid st \<longrightarrow> (\<exists>s \<in> set live. tn_session s = sid \<and> running_turn_id sid st = Some (tn_id s) \<and>
       get_cancel sid st = Some (tn_cancel s))) \<and>
    (running_turn_id sid st \<noteq> Some i \<longrightarrow>
       release_turn sid i st = st \<and> abort_turn sid (Some i) st = st \<and>
       (\<forall>s. tn_session s = sid \<and> tn_id s = i \<longrightarrow>
          drop_slot now s st = st\<lparr>tu_idle := turn_ended now (tu_idle st)\<rparr>)) \<and>
    tu_flags (drop_slot now s st) = tu_flags st \<and>
    (running_turn_id sid st = Some i \<longrightarrow>
       abort_turn sid (Some i) st = st\<lparr>tu_flags := (tu_flags st)(the (get_cancel sid st) := True)\<rparr>) \<and>
    (s \<in> set live \<longrightarrow> running_turn_id (tn_session s) (drop_slot now s st) \<noteq> Some (tn_id s))"
proof -
  have inv: "turns_inv live st" by (rule turns_run_inv [OF assms])
  have "of_nat (length live) \<noteq> (0 :: 64 word)" if "0 < length live" "length live < 2 ^ 64"
    using that by (simp add: word_of_nat_eq_0_iff nat_dvd_not_less)
  moreover have "\<exists>s \<in> set live. tn_session s = sid \<and> running_turn_id sid st = Some (tn_id s) \<and>
      get_cancel sid st = Some (tn_cancel s)" if r: "is_turn_running sid st"
  proof -
    from r obtain i c where a: "tu_aborts st sid = Some (i, c)" by (auto simp: is_turn_running_def)
    with inv have "\<lparr>tn_session = sid, tn_id = i, tn_cancel = c\<rparr> \<in> set live" by (auto simp: turns_inv_def)
    with a show ?thesis by (force simp: running_turn_id_def get_cancel_def)
  qed
  moreover have "release_turn sid i st = st \<and> abort_turn sid (Some i) st = st" if "running_turn_id sid st \<noteq> Some i"
    using that by (auto simp: release_turn_def abort_turn_def running_turn_id_def split: option.split)
  moreover have "drop_slot now s st = st\<lparr>tu_idle := turn_ended now (tu_idle st)\<rparr>"
    if "running_turn_id sid st \<noteq> Some i" "tn_session s = sid" "tn_id s = i" for s
    using that by (auto simp: drop_slot_def release_turn_def running_turn_id_def split: option.split)
  moreover have "tu_flags (drop_slot now s st) = tu_flags st"
    by (simp add: drop_slot_def Let_def)
  moreover have "abort_turn sid (Some i) st = st\<lparr>tu_flags := (tu_flags st)(the (get_cancel sid st) := True)\<rparr>"
    if "running_turn_id sid st = Some i"
    using that by (auto simp: abort_turn_def running_turn_id_def get_cancel_def)
  moreover have "running_turn_id (tn_session s) (drop_slot now s st) \<noteq> Some (tn_id s)"
    by (auto simp: drop_slot_def Let_def running_turn_id_def)
  ultimately show ?thesis using inv by (auto simp: turns_inv_def should_exit_def)
qed

theorem turn_registry_witness:
  "\<not> should_exit 500 (tu_idle (snd (register 3 ''s'' (turns_new 0 60))))"
proof -
  obtain s st where r: "register 3 ''s'' (turns_new 0 60) = (s, st)" by force
  have "turns_run [s] st" by (rule turns_register [OF turns_start r])
  from turn_registry [OF this, of 500] show ?thesis using r by simp
qed

section \<open>The file tools\<close>

text \<open>
  C35. A file is written back byte for byte in the encoding it was found in, if \<^verbatim>\<open>decode\<close> replaces nothing in it
  and, where it takes the file for UTF-16, the byte-order mark is there and the length is even (without
  the mark it is added, \<open>bare_utf16_marked\<close>). A text written with a byte-order mark is read back as it was.
\<close>

theorem file_round_trip:
  assumes "list_all is_byte bs" and "lossless bs"
    and "list_all scalar t" and "enc \<in> {Utf8Bom, Utf16Le, Utf16Be}"
  shows "encode_checked (fst (decode_file bs)) (snd (decode_file bs)) = (bs, False) \<and>
    decode_file (fst (encode_checked enc t)) = (enc, t)"
  using encode_decode_file [OF assms(1,2)] decode_marked [OF assms(3,4)] by simp

theorem file_round_trip_witness:
  "encode_checked Utf8 [233, 13, 10, 98, 13, 10] = (ex_crlf, False) \<and>
   decode_file (fst (encode_checked Utf16Le [233, 0x1F600])) = (Utf16Le, [233, 0x1F600])"
  using file_round_trip [OF ex_crlf_ok(1,2), of "[233, 0x1F600]" Utf16Le]
  by (simp add: ex_crlf_decoded scalar_def)

text \<open>
  C36. The repair undoes the damage: a text whose UTF-8 was read as Windows-1252 is restored, whatever
  characters it holds.
\<close>

theorem repair_undoes:
  assumes "list_all scalar t"
  shows "repair_mojibake (mojibake t) = t"
  by (rule repair_mojibake_undoes) (rule assms)

theorem repair_undoes_witness: "repair_mojibake [65, 0xC3, 0xA9] = [65, 233]"
  using repair_undoes [of "[65, 233]"]
  by (simp add: scalar_def mojibake_def utf8_put_def cp1252_decode_byte_def cp1252_high_def)

text \<open>
  C37. An edit replaces one stretch of the file's bytes by the new text, in the endings and the encoding of
  the file, and no other byte of it and no other file; a stretch matched exactly is the old text. The
  file has one kind of line ending and is read without loss (nothing replaced; UTF-16 with its mark and an
  even length); the edit is one that neither repaired the text
  nor had to change the encoding, which it reports, and no other process acts during the call.
\<close>

theorem edit_rewrites_span:
  assumes ed: "edit_tool args cwd c w = (Some (Edited p k False a), w')" and k: "k \<noteq> Repaired"
    and args: "fld ''old_string'' dec_str args = Some old" "fld ''new_string'' dec_str args = Some new"
    and f: "file_at w p = Some (raw, t)" and calm: "w_others w = []"
    and raw: "list_all is_byte raw" "lossless raw" "uniform (snd (decode_file raw))"
  shows "\<exists>A M B. raw = A @ M @ B \<and> (k = Exact \<longrightarrow> M = in_file raw (chars_of old)) \<and>
    w_files w' = (w_files w)(locus w p := Some (A @ in_file raw (chars_of new) @ B, w_clock w))"
proof -
  from ed obtain raw' r where
    r: "k = e_kind r" "\<not> e_upgraded r" "w' = track p (e_bytes r) (put_file (locus w p) (e_bytes r) w)"
    and old: "old \<noteq> []" and rd: "read_bytes w p = Some raw'"
    and e: "edit_bytes raw' (chars_of old) (chars_of new) = Some (Inr r)"
    by (rule edit_tool_edited) (use args calm in simp)
  have "raw' = raw" using rd f by (simp add: read_bytes_def split: if_splits)
  moreover have "w_files w' = (w_files w)(locus w p := Some (e_bytes r, w_clock w))"
    using r(3) by simp
  moreover have "chars_of old \<noteq> []" using old by (simp add: chars_of_Nil)
  ultimately show ?thesis using edit_span [OF e _ _ _ _ r(2)] raw r(1) k by metis
qed

theorem edit_rewrites_span_witness:
  "\<exists>A M B. ex_crlf = A @ M @ B \<and> M = in_file ex_crlf [98] \<and>
    [ex_path \<mapsto> ([0xC3, 0xA9, 13, 10, 99, 13, 10, 100, 13, 10], 7::nat)] =
    [ex_path \<mapsto> (A @ in_file ex_crlf [99, 10, 100] @ B, 7)]"
proof -
  have w: "w_files (ex_tool_world ex_crlf) = [ex_path \<mapsto> (ex_crlf, 5)]" "w_clock (ex_tool_world ex_crlf) = 7"
    by (simp_all add: ex_tool_world_def)
  show ?thesis
    using edit_rewrites_span [OF ex_edit_run [of None] _ _ _ _ ex_world_simps(6) ex_crlf_ok, of "''b''" _ 5]
    by (simp add: ex_edit_args_def codec_simps ex_world_simps ex_chars w)
qed

text \<open>
  C38. The edit never panics: every offset it slices at is between two characters and every index is
  in range. What it does to the files, whatever other processes do in the gaps between its accesses
  (\<open>gap\<close>, which does nothing when they do nothing): an error other than the one of the write leaves every
  file and the map of observed files as they are; an error of the write, after the check has passed,
  leaves them too, or leaves the one file cut to a proper prefix of the new bytes, which the map does not
  learn; a success, after the check has passed, writes the one file and then records its digest.
\<close>

theorem edit_total:
  "(\<exists>e w1. edit_tool args cwd c w = (Some (Failed e), w1) \<and> e \<noteq> Write_Error \<and> w1 \<in> {w, gap w}) \<or>
   (\<exists>p bs w1 n. edit_tool args cwd c w = (Some (Failed Write_Error), w1) \<and> stale_check w p = None \<and>
      w1 \<in> {gap (gap w), put_file (locus w p) (take n bs) (gap (gap w))} \<and> n < length bs) \<or>
   (\<exists>p k u a bs. edit_tool args cwd c w =
        (Some (Edited p k u a), track p bs (gap (put_file (locus w p) bs (gap (gap w))))) \<and>
      stale_check w p = None)"
proof -
  have no: "edit_bytes raw (chars_of old) new \<noteq> None" if "old \<noteq> []" for raw old new
    using edit_bytes_returns [of "chars_of old" raw new] that by (auto simp: chars_of_Nil)
  from edit_tool_ends [of args cwd c w] show ?thesis
  proof (elim disjE exE conjE)
    fix raw old new
    assume "edit_bytes raw (chars_of old) new = None" "old \<noteq> []"
    with no show ?thesis by blast
  next
    fix p r
    assume e: "edit_tool args cwd c w = edit_done p r (write_bytes p (e_bytes r) (gap (gap w)))"
      "stale_check w p = None"
    obtain ok w1 where wr: "write_bytes p (e_bytes r) (gap (gap w)) = (ok, w1)" by force
    from wr show ?thesis
    proof (cases rule: write_bytes_cases)
      case written
      with e wr show ?thesis by (auto simp: edit_done_def)
    next
      case refused
      with e wr have "edit_tool args cwd c w = (Some (Failed Write_Error), gap (gap w))"
        by (simp add: edit_done_def)
      moreover have "0 < length [0 :: nat]" by simp
      ultimately show ?thesis using e(2) by blast
    next
      case (torn n)
      with e wr have "edit_tool args cwd c w =
          (Some (Failed Write_Error), put_file (locus w p) (take n (e_bytes r)) (gap (gap w)))"
        by (simp add: edit_done_def)
      with torn(2) e(2) show ?thesis by blast
    qed
  qed blast
qed

text \<open>
  C39. The stale check. Take any history of calls and of writes and removals by other processes, whose
  writes give a file the time of the clock, where the clock ticks between any two and no other process
  acts while a call is running. It starts in a state where nothing is dated in the future and an observed
  file no newer than its entry has the digest of the entry, as when nothing was observed yet. A call to edit or write then changes an existing file, completely or up to
  where the disk was full, only if the digest of the bytes it held was recorded for a path of that file.
  Between the accesses of a call, and within a tick, nothing is noticed (\<open>write_in_edit_lost\<close>,
  \<open>write_in_read_unseen\<close>, \<open>same_tick_unseen\<close>).
\<close>

theorem stale_guard:
  assumes "fresh w" and "w_others w = []" and "list_all told_apart evs" and "w1 = tool_run b64 denied evs w"
    and "w2 = snd (edit_tool args cwd c w1) \<or> w2 = snd (write_tool denied args cwd c w1)"
    and "w_files w1 q = Some (bs, t)" and "w_files w2 q \<noteq> w_files w1 q"
  shows "\<exists>p s. locus w1 p = q \<and> w_tracked w1 p = Some (sha256 bs, s)"
proof -
  have "fresh w1" "calm w1"
    unfolding assms(4) using fresh_run [OF assms(1) _ assms(3)] assms(2) by (simp_all add: calm_def)
  from overwritten [OF this assms(6,5,7)] show ?thesis .
qed

theorem stale_guard_witness:
  "\<exists>p s. locus (ex_tool_world ex_crlf) p = ex_path \<and> w_tracked (ex_tool_world ex_crlf) p = Some (sha256 ex_crlf, s)"
proof -
  have "w_files (ex_tool_world ex_crlf) ex_path = Some (ex_crlf, 5)"
    "w_files (snd (edit_tool ex_edit_args None False (ex_tool_world ex_crlf))) ex_path \<noteq>
       w_files (ex_tool_world ex_crlf) ex_path"
    by (simp_all add: ex_edit_run) (simp_all add: ex_tool_world_def)
  from stale_guard [OF ex_fresh [of ex_crlf] _ _ _ _ this, of "[]" "\<lambda>_. ''''" "\<lambda>_. False" ex_edit_args None False]
  show ?thesis by (simp add: tool_run_def ex_world_simps)
qed

text \<open>
  C40. The diff an edit reports is a patch: applied to the lines before it gives the lines after, and
  its header counts the lines of both sides.
\<close>

theorem diff_applies:
  "patch (unified_diff a b) a = b \<and>
   length (old_side (unified_diff a b)) = h_old_count (unified_diff a b) \<and>
   length (new_side (unified_diff a b)) = h_new_count (unified_diff a b)"
  by (rule diff_patches)

end
